(* ===== verification/Prelude.thy ===== *)
theory Prelude
  imports Main "HOL-Library.List_Lexorder" "HOL-Library.Char_ord" "HOL-Library.Product_Lexorder"
begin

text \<open>
  Shared vocabulary of the development: how the Python values of the Karma sources are
  represented, the few functions of Python's \<^verbatim>\<open>str\<close> and \<^verbatim>\<open>list\<close> types that
  several components use, and the generic lemmas and collections their proofs rest on.

  Representation. A Python \<^verbatim>\<open>str\<close> is a \<^typ>\<open>string\<close>: a list of characters, each a
  code point below 256. \<^verbatim>\<open>bytes\<close> are a \<^typ>\<open>string\<close> as well, each character one byte.
  String comparison is the lexicographic order on code points, as in Python. An \<^verbatim>\<open>int\<close> is
  an \<^typ>\<open>int\<close>, a list index or a length a \<^typ>\<open>nat\<close>. An operation that may raise
  returns a sum, \<^term>\<open>Inl e\<close> for the exception and \<^term>\<open>Inr v\<close> for the value.
\<close>

named_theorems billing_defs \<open>definitions of the billing components\<close>
named_theorems quorum_defs \<open>definitions of the attestation and challenge components\<close>
named_theorems evidence_defs \<open>definitions of the evidence runtime\<close>
named_theorems engine_defs \<open>definitions of the settlement components\<close>

section \<open>Python strings\<close>

text \<open>\<^verbatim>\<open>sep.join(xs)\<close>\<close>

fun join :: "string \<Rightarrow> string list \<Rightarrow> string" where
  "join sep [] = []"
| "join sep [x] = x"
| "join sep (x # y # ys) = x @ sep @ join sep (y # ys)"

text \<open>\<^verbatim>\<open>s.startswith(p)\<close>\<close>

fun starts_with :: "string \<Rightarrow> string \<Rightarrow> bool" where
  "starts_with s [] = True"
| "starts_with [] (p # ps) = False"
| "starts_with (c # cs) (p # ps) = (c = p \<and> starts_with cs ps)"

text \<open>The code point of a character, and the character of a code point.\<close>

definition code :: "char \<Rightarrow> nat" where
  "code c = of_char c"

definition chr :: "nat \<Rightarrow> char" where
  "chr n = char_of n"

definition is_digit :: "char \<Rightarrow> bool" where
  "is_digit c \<longleftrightarrow> 48 \<le> code c \<and> code c \<le> 57"

text \<open>\<^verbatim>\<open>str(n)\<close> for a non-negative and for an arbitrary integer.\<close>

fun nat_str :: "nat \<Rightarrow> string" where
  "nat_str n = (if n < 10 then [chr (48 + n)] else nat_str (n div 10) @ [chr (48 + n mod 10)])"

declare nat_str.simps [simp del]

definition int_str :: "int \<Rightarrow> string" where
  "int_str i = (if i < 0 then CHR ''-'' # nat_str (nat (- i)) else nat_str (nat i))"

text \<open>\<^verbatim>\<open>s.lower()\<close>: the upper-case letters below 256 are those of ASCII and of Latin-1.\<close>

definition lower_char :: "char \<Rightarrow> char" where
  "lower_char c =
     (if 65 \<le> code c \<and> code c \<le> 90 \<or> 192 \<le> code c \<and> code c \<le> 222 \<and> code c \<noteq> 215
      then chr (code c + 32) else c)"

definition lower :: "string \<Rightarrow> string" where
  "lower s = map lower_char s"

text \<open>\<^verbatim>\<open>s.strip()\<close>: the white-space characters below 256 are removed at both ends.\<close>

definition is_space :: "char \<Rightarrow> bool" where
  "is_space c \<longleftrightarrow>
     9 \<le> code c \<and> code c \<le> 13 \<or> 28 \<le> code c \<and> code c \<le> 32 \<or> code c = 133 \<or> code c = 160"

definition strip :: "string \<Rightarrow> string" where
  "strip s = rev (dropWhile is_space (rev (dropWhile is_space s)))"

text \<open>\<^verbatim>\<open>b.hex()\<close>: two lower-case hexadecimal digits per byte.\<close>

definition hex_digit :: "nat \<Rightarrow> char" where
  "hex_digit n = (if n < 10 then chr (48 + n) else chr (87 + n))"

definition hex_byte :: "char \<Rightarrow> string" where
  "hex_byte c = [hex_digit (code c div 16), hex_digit (code c mod 16)]"

definition hex :: "string \<Rightarrow> string" where
  "hex bs = concat (map hex_byte bs)"

text \<open>\<^verbatim>\<open>s.encode("utf-8")\<close> on code points below 256.\<close>

definition utf8_char :: "char \<Rightarrow> string" where
  "utf8_char c = (if code c < 128 then [c] else [chr (192 + code c div 64), chr (128 + code c mod 64)])"

definition utf8 :: "string \<Rightarrow> string" where
  "utf8 s = concat (map utf8_char s)"

section \<open>Python lists\<close>

text \<open>\<^verbatim>\<open>xs.index(x)\<close>: the position of the first occurrence; \<^term>\<open>None\<close> is ValueError.\<close>

fun list_index :: "'a list \<Rightarrow> 'a \<Rightarrow> nat option" where
  "list_index [] x = None"
| "list_index (y # ys) x = (if y = x then Some 0 else map_option Suc (list_index ys x))"

section \<open>Lemmas on characters and strings\<close>

lemma code_less [simp]: "code c < 256"
  by (metis code_def of_char_mod_256 mod_less_divisor zero_less_numeral)

lemma chr_code [simp]: "chr (code c) = c"
  by (simp add: code_def chr_def)

lemma code_chr [simp]: "n < 256 \<Longrightarrow> code (chr n) = n"
  by (simp add: code_def chr_def)

lemma code_inject [simp]: "code c = code d \<longleftrightarrow> c = d"
  by (simp add: code_def)

lemma chr_inject: "m < 256 \<Longrightarrow> n < 256 \<Longrightarrow> chr m = chr n \<longleftrightarrow> m = n"
  by (metis code_chr)

subsection \<open>Decimal numerals\<close>

text \<open>The number a decimal numeral denotes.\<close>

definition dec_val :: "string \<Rightarrow> nat" where
  "dec_val s = foldl (\<lambda>a c. 10 * a + (code c - 48)) 0 s"

lemma dec_val_nat_str: "dec_val (nat_str n) = n"
proof (induction n rule: nat_str.induct)
  case (1 n)
  show ?case
  proof (cases "n < 10")
    case True
    then show ?thesis by (simp add: nat_str.simps [of n] dec_val_def)
  next
    case False
    with 1 have "dec_val (nat_str (n div 10)) = n div 10" by simp
    moreover have "code (chr (48 + n mod 10)) = 48 + n mod 10" by (rule code_chr) simp
    ultimately have "dec_val (nat_str n) = 10 * (n div 10) + n mod 10"
      using False by (simp add: nat_str.simps [of n] dec_val_def)
    then show ?thesis by simp
  qed
qed

lemma nat_str_inject [simp]: "nat_str m = nat_str n \<longleftrightarrow> m = n"
  by (metis dec_val_nat_str)

lemma nat_str_not_Nil [simp]: "nat_str n \<noteq> []"
  by (simp add: nat_str.simps [of n])

lemma nat_str_digits: "c \<in> set (nat_str n) \<Longrightarrow> is_digit c"
proof (induction n rule: nat_str.induct)
  case (1 n)
  have ch: "is_digit (chr (48 + k))" if "k < 10" for k
    using that by (simp add: is_digit_def)
  show ?case
  proof (cases "n < 10")
    case True
    with 1 ch show ?thesis by (simp add: nat_str.simps [of n])
  next
    case False
    with 1 ch [of "n mod 10"] show ?thesis by (auto simp: nat_str.simps [of n])
  qed
qed

lemma int_str_inject [simp]: "int_str i = int_str j \<longleftrightarrow> i = j"
proof -
  have minus: "CHR ''-'' # s \<noteq> nat_str n" for s n
  proof
    assume "CHR ''-'' # s = nat_str n"
    then have "CHR ''-'' \<in> set (nat_str n)" by (metis list.set_intros(1))
    then have "is_digit (CHR ''-'')" by (rule nat_str_digits)
    then show False by (simp add: is_digit_def code_def)
  qed
  show ?thesis
    using minus minus [symmetric] by (auto simp: int_str_def)
qed

lemma int_str_not_Nil [simp]: "int_str i \<noteq> []"
  by (simp add: int_str_def)

subsection \<open>Hexadecimal and UTF-8 encodings are injective\<close>

lemma hex_digit_inject: "m < 16 \<Longrightarrow> n < 16 \<Longrightarrow> hex_digit m = hex_digit n \<longleftrightarrow> m = n"
  by (auto simp: hex_digit_def chr_inject)

lemma hex_byte_inject [simp]: "hex_byte c = hex_byte d \<longleftrightarrow> c = d"
proof
  assume "hex_byte c = hex_byte d"
  moreover have "code x div 16 < 16" for x
    by (rule less_mult_imp_div_less) simp
  ultimately have "code c div 16 = code d div 16" "code c mod 16 = code d mod 16"
    by (auto simp: hex_byte_def hex_digit_inject)
  then have "code c = code d" by (metis div_mult_mod_eq)
  then show "c = d" by simp
qed simp

lemma hex_inject [simp]: "hex s = hex t \<longleftrightarrow> s = t"
proof
  assume "hex s = hex t"
  then show "s = t"
  proof (induction s arbitrary: t)
    case Nil
    then show ?case by (cases t) (auto simp: hex_def hex_byte_def)
  next
    case (Cons c s)
    then obtain d u where t: "t = d # u"
      by (cases t) (auto simp: hex_def hex_byte_def)
    with Cons.prems have "hex_byte c = hex_byte d" "hex s = hex u"
      by (auto simp: hex_def hex_byte_def)
    with Cons.IH t show ?case by simp
  qed
qed simp

lemma length_hex [simp]: "length (hex s) = 2 * length s"
  by (induction s) (auto simp: hex_def hex_byte_def)

lemma utf8_char_prefix:
  assumes "utf8_char c @ r = utf8_char d @ s"
  shows "c = d \<and> r = s"
proof -
  have hi: "code x div 64 < 4" for x
    by (rule less_mult_imp_div_less) simp
  have lead: "code (chr (192 + code x div 64)) = 192 + code x div 64" for x
    using hi [of x] by (intro code_chr) simp
  have tail: "code (chr (128 + code x mod 64)) = 128 + code x mod 64" for x
    using mod_less_divisor [of 64 "code x"] by (intro code_chr) simp
  show ?thesis
  proof (cases "code c < 128"; cases "code d < 128")
    assume "code c < 128" "code d < 128"
    with assms show ?thesis by (simp add: utf8_char_def)
  next
    assume "code c < 128" "\<not> code d < 128"
    with assms have "c = chr (192 + code d div 64)" by (simp add: utf8_char_def)
    with lead [of d] \<open>code c < 128\<close> show ?thesis by simp
  next
    assume "\<not> code c < 128" "code d < 128"
    with assms have "d = chr (192 + code c div 64)" by (simp add: utf8_char_def)
    with lead [of c] \<open>code d < 128\<close> show ?thesis by simp
  next
    assume "\<not> code c < 128" "\<not> code d < 128"
    with assms have eqs: "chr (192 + code c div 64) = chr (192 + code d div 64)"
      "chr (128 + code c mod 64) = chr (128 + code d mod 64)" "r = s"
      unfolding utf8_char_def by (simp_all only: if_False append_Cons append_Nil list.inject)
    from eqs(1) have "code c div 64 = code d div 64" by (metis lead add_left_cancel)
    moreover from eqs(2) have "code c mod 64 = code d mod 64" by (metis tail add_left_cancel)
    ultimately have "code c = code d" by (metis div_mult_mod_eq)
    with eqs(3) show ?thesis by simp
  qed
qed

lemma utf8_char_not_Nil: "utf8_char c \<noteq> []"
  by (simp add: utf8_char_def)

lemma utf8_Cons: "utf8 (c # s) = utf8_char c @ utf8 s"
  by (simp add: utf8_def)

lemma utf8_Nil_iff: "utf8 s = [] \<longleftrightarrow> s = []"
  by (cases s) (simp_all add: utf8_Cons utf8_char_not_Nil, simp add: utf8_def)

lemma utf8_inject [simp]: "utf8 s = utf8 t \<longleftrightarrow> s = t"
proof
  assume "utf8 s = utf8 t"
  then show "s = t"
  proof (induction s arbitrary: t)
    case Nil
    then show ?case by (metis utf8_Nil_iff)
  next
    case (Cons c s)
    then obtain d u where t: "t = d # u" by (metis utf8_Nil_iff list.exhaust list.discI)
    with Cons.prems have "utf8_char c @ utf8 s = utf8_char d @ utf8 u" by (simp only: utf8_Cons)
    from utf8_char_prefix [OF this] Cons.IH t show ?case by blast
  qed
qed simp

subsection \<open>Joining and prefixes\<close>

lemma starts_with_iff: "starts_with s p \<longleftrightarrow> (\<exists>r. s = p @ r)"
  by (induction s p rule: starts_with.induct) auto

lemma sep_split:
  assumes "x @ c # r = y @ c # s" "c \<notin> set x" "c \<notin> set y"
  shows "x = y \<and> r = s"
  using assms
proof (induction x arbitrary: y)
  case Nil
  then show ?case by (cases y) auto
next
  case (Cons a x)
  then show ?case by (cases y) auto
qed

lemma join_Cons: "xs \<noteq> [] \<Longrightarrow> join sep (x # xs) = x @ sep @ join sep xs"
  by (cases xs) simp_all

lemma join_inject:
  assumes "join [c] xs = join [c] ys" "length xs = length ys"
    and "\<And>x. x \<in> set xs \<union> set ys \<Longrightarrow> c \<notin> set x"
  shows "xs = ys"
  using assms(2,1,3)
proof (induction xs ys rule: list_induct2)
  case Nil
  show ?case by simp
next
  case (Cons x xs y ys)
  show ?case
  proof (cases "xs = []")
    case True
    with Cons show ?thesis by simp
  next
    case False
    with Cons.hyps have "ys \<noteq> []" by auto
    with False Cons.prems(1) have eq: "x @ c # join [c] xs = y @ c # join [c] ys"
      by (simp add: join_Cons)
    have nin: "c \<notin> set x" "c \<notin> set y" using Cons.prems(2) [of x] Cons.prems(2) [of y] by simp_all
    from sep_split [OF eq nin] have split: "x = y" "join [c] xs = join [c] ys" by simp_all
    have "xs = ys" by (rule Cons.IH [OF split(2)]) (rule Cons.prems(2), auto)
    with split(1) show ?thesis by simp
  qed
qed

subsection \<open>Positions in a list\<close>

lemma list_index_Some:
  "list_index xs x = Some i \<Longrightarrow> i < length xs \<and> xs ! i = x"
proof (induction xs arbitrary: i)
  case Nil
  then show ?case by simp
next
  case (Cons y ys)
  then show ?case by (cases "y = x") auto
qed

lemma list_index_None_iff: "list_index xs x = None \<longleftrightarrow> x \<notin> set xs"
  by (induction xs) auto

lemma lower_idem [simp]: "lower (lower s) = lower s"
proof -
  have "lower_char (lower_char c) = lower_char c" for c
  proof (cases "65 \<le> code c \<and> code c \<le> 90 \<or> 192 \<le> code c \<and> code c \<le> 222 \<and> code c \<noteq> 215")
    case True
    then have "code (chr (code c + 32)) = code c + 32" by (intro code_chr) auto
    with True show ?thesis by (auto simp: lower_char_def)
  qed (auto simp: lower_char_def)
  then show ?thesis by (simp add: lower_def)
qed

lemma strip_idem [simp]: "strip (strip s) = strip s"
proof -
  let ?f = "dropWhile is_space"
  have idem: "?f (?f x) = ?f x" for x by (simp add: dropWhile_idem)
  have front: "?f (rev (?f (rev x))) = rev (?f (rev x))" if "?f x = x" for x
  proof (cases x)
    case (Cons c cs)
    with that have c: "\<not> is_space c"
      by (metis dropWhile_eq_self_iff list.sel(1) list.distinct(1))
    then have "?f (rev cs @ [c]) = ?f (rev cs) @ [c]" by (simp add: dropWhile_append3)
    with Cons c show ?thesis by simp
  qed simp
  show ?thesis
    unfolding strip_def using front [OF idem, of s] idem by simp
qed

end
