(* ===== verification/Json.thy ===== *)
theory Json
  imports Prelude
begin

text \<open>
  JSON values and Python's \<^verbatim>\<open>json.dumps(v, sort_keys=True, separators=(",", ":"))\<close>, the
  canonical form in which the sources hash every contract, receipt and bundle.

  A value is a \<open>json\<close>; a Python dict is the list of its items in insertion order, with
  distinct keys. Numbers are integers: the hashed records of the evidence runtime carry no
  floats. \<open>dumps\<close> follows the encoder of the standard library: with \<^verbatim>\<open>ensure_ascii\<close>
  every character outside the printable ASCII range is escaped.

  The main result is that the canonical text determines the value: two values have the same
  text exactly when they are equal up to the order of dict items (\<open>dumps_eq_iff\<close>).
\<close>

section \<open>Values and the encoder\<close>

datatype json =
    JNull
  | JBool bool
  | JInt int
  | JStr string
  | JArr "json list"
  | JObj "(string \<times> json) list"

text \<open>The two-character escapes of the encoder; the others are written \<^verbatim>\<open>\u00XX\<close>.\<close>

definition short_escape :: "char \<Rightarrow> char option" where
  "short_escape c =
     (if c = CHR 0x22 then Some (CHR 0x22)
      else if c = CHR 0x5C then Some (CHR 0x5C)
      else if c = CHR 0x0A then Some (CHR ''n'')
      else if c = CHR 0x0D then Some (CHR ''r'')
      else if c = CHR 0x09 then Some (CHR ''t'')
      else if c = CHR 0x0C then Some (CHR ''f'')
      else if c = CHR 0x08 then Some (CHR ''b'')
      else None)"

definition escape_char :: "char \<Rightarrow> string" where
  "escape_char c =
     (case short_escape c of
        Some l \<Rightarrow> [CHR 0x5C, l]
      | None \<Rightarrow>
          if 32 \<le> code c \<and> code c \<le> 126 then [c]
          else CHR 0x5C # ''u00'' @ hex_byte c)"

definition json_string :: "string \<Rightarrow> string" where
  "json_string s = CHR 0x22 # concat (map escape_char s) @ [CHR 0x22]"

fun dumps :: "json \<Rightarrow> string" where
  "dumps JNull = ''null''"
| "dumps (JBool b) = (if b then ''true'' else ''false'')"
| "dumps (JInt i) = int_str i"
| "dumps (JStr s) = json_string s"
| "dumps (JArr xs) = ''['' @ join '','' (map dumps xs) @ '']''"
| "dumps (JObj kvs) =
     ''{'' @ join '','' (map (\<lambda>(k, t). json_string k @ '':'' @ t)
                 (sort_key fst (map (\<lambda>(k, v). (k, dumps v)) kvs))) @ ''}''"

text \<open>\<^verbatim>\<open>d.get(k)\<close> on a dict given by its items.\<close>

definition dict_get :: "(string \<times> json) list \<Rightarrow> string \<Rightarrow> json option" where
  "dict_get d k = map_of d k"

section \<open>The value a canonical text stands for\<close>

text \<open>
  Sorting the items of every dict gives the representative that all orders of insertion
  share; the text of a value is the unsorted text of its representative.
\<close>

fun canon :: "json \<Rightarrow> json" where
  "canon (JArr xs) = JArr (map canon xs)"
| "canon (JObj kvs) = JObj (sort_key fst (map (\<lambda>(k, v). (k, canon v)) kvs))"
| "canon v = v"

fun raw_dumps :: "json \<Rightarrow> string" where
  "raw_dumps JNull = ''null''"
| "raw_dumps (JBool b) = (if b then ''true'' else ''false'')"
| "raw_dumps (JInt i) = int_str i"
| "raw_dumps (JStr s) = json_string s"
| "raw_dumps (JArr xs) = ''['' @ join '','' (map raw_dumps xs) @ '']''"
| "raw_dumps (JObj kvs) =
     ''{'' @ join '','' (map (\<lambda>(k, v). json_string k @ '':'' @ raw_dumps v) kvs) @ ''}''"

lemma sort_key_map_snd:
  "sort_key fst (map (\<lambda>(k, v). (k, f v)) kvs) = map (\<lambda>(k, v). (k, f v)) (sort_key fst kvs)"
proof -
  have ins: "insort_key fst (a, f b) (map (\<lambda>(k, v). (k, f v)) ys)
      = map (\<lambda>(k, v). (k, f v)) (insort_key fst (a, b) ys)" for a b ys
    by (induction ys) auto
  show ?thesis by (induction kvs) (auto simp: sort_key_def ins)
qed

lemma dumps_canon: "dumps v = raw_dumps (canon v)"
proof (induction v)
  case (JArr xs)
  then have "map dumps xs = map (raw_dumps \<circ> canon) xs" by simp
  then show ?case by (simp only: dumps.simps canon.simps raw_dumps.simps map_map)
next
  case (JObj kvs)
  then have "map (\<lambda>(k, v). (k, dumps v)) kvs = map (\<lambda>(k, v). (k, raw_dumps (canon v))) kvs"
    by (auto split: prod.splits)
  then show ?case
    unfolding dumps.simps canon.simps raw_dumps.simps
    by (simp only: sort_key_map_snd) (simp add: case_prod_beta comp_def)
qed simp_all

section \<open>Unambiguity of the text\<close>

lemma short_escape_inject:
  "short_escape c = Some l \<Longrightarrow> short_escape d = Some l \<Longrightarrow> c = d"
  by (auto simp: short_escape_def split: if_splits)

lemma short_escape_not_u: "short_escape c \<noteq> Some (CHR ''u'')"
  by (simp add: short_escape_def)

lemma short_escape_None: "short_escape c = None \<Longrightarrow> c \<noteq> CHR 0x22 \<and> c \<noteq> CHR 0x5C"
  by (auto simp: short_escape_def)

lemma escape_char_cases:
  obtains (short) l where "escape_char c = [CHR 0x5C, l]" "short_escape c = Some l"
  | (plain) "escape_char c = [c]" "c \<noteq> CHR 0x22" "c \<noteq> CHR 0x5C"
  | (wide) "escape_char c = CHR 0x5C # CHR ''u'' # ''00'' @ hex_byte c"
proof (cases "short_escape c")
  case None
  with short_escape_None [of c] plain wide show thesis
    by (cases "32 \<le> code c \<and> code c \<le> 126") (simp_all add: escape_char_def)
next
  case (Some l)
  with short show thesis by (simp add: escape_char_def)
qed

lemma escape_char_prefix:
  assumes "escape_char c @ r = escape_char d @ s"
  shows "c = d \<and> r = s"
proof (cases c rule: escape_char_cases)
  case c: (short l)
  show ?thesis
  proof (cases d rule: escape_char_cases)
    case d: (short m)
    with c assms short_escape_inject [of c l d] show ?thesis by simp
  next
    case plain
    with c assms show ?thesis by simp
  next
    case wide
    with c assms short_escape_not_u [of c] show ?thesis by simp
  qed
next
  case c: plain
  show ?thesis
    by (cases d rule: escape_char_cases) (use c assms in simp_all)
next
  case c: wide
  show ?thesis
  proof (cases d rule: escape_char_cases)
    case (short m)
    with c assms short_escape_not_u [of d] show ?thesis by simp
  next
    case plain
    with c assms show ?thesis by simp
  next
    case wide
    with c assms have "hex_byte c @ r = hex_byte d @ s" by simp
    moreover have "length (hex_byte c) = length (hex_byte d)" by (simp add: hex_byte_def)
    ultimately show ?thesis by simp
  qed
qed

lemma escape_char_not_quote: "escape_char c \<noteq> CHR 0x22 # r"
  by (cases c rule: escape_char_cases) simp_all

lemma escape_char_not_Nil: "escape_char c \<noteq> []"
  by (cases c rule: escape_char_cases) simp_all

lemma escaped_prefix:
  assumes "concat (map escape_char s) @ CHR 0x22 # r = concat (map escape_char t) @ CHR 0x22 # q"
  shows "s = t \<and> r = q"
  using assms
proof (induction s arbitrary: t)
  case Nil
  show ?case
  proof (cases t)
    case Nil
    with Nil.prems show ?thesis by simp
  next
    case (Cons d u)
    then obtain e es where e: "escape_char d = e # es" using escape_char_not_Nil by (cases "escape_char d") auto
    with Cons Nil.prems have "e = CHR 0x22" by simp
    with e escape_char_not_quote [of d es] show ?thesis by simp
  qed
next
  case (Cons c s)
  show ?case
  proof (cases t)
    case Nil
    obtain e es where e: "escape_char c = e # es" using escape_char_not_Nil by (cases "escape_char c") auto
    with Nil Cons.prems have "e = CHR 0x22" by simp
    with e escape_char_not_quote [of c es] show ?thesis by simp
  next
    case (Cons d u)
    with Cons.prems have "escape_char c @ (concat (map escape_char s) @ CHR 0x22 # r)
        = escape_char d @ (concat (map escape_char u) @ CHR 0x22 # q)" by simp
    from escape_char_prefix [OF this] Cons.IH [of u] Cons show ?thesis by simp
  qed
qed

lemma json_string_prefix:
  "json_string s @ r = json_string t @ q \<Longrightarrow> s = t \<and> r = q"
  unfolding json_string_def using escaped_prefix [of s r t q] by simp

text \<open>What may follow a value: the end of the text or a structural character.\<close>

definition delimited :: "string \<Rightarrow> bool" where
  "delimited r \<longleftrightarrow> r = [] \<or> hd r \<in> {CHR '','', CHR '']'', CHR ''}''}"

lemma delimited_simps [simp]:
  "delimited []" "delimited (CHR '','' # r)" "delimited (CHR '']'' # r)" "delimited (CHR ''}'' # r)"
  by (simp_all add: delimited_def)

lemma nat_str_prefix:
  assumes "nat_str m @ r = nat_str n @ s" "delimited r" "delimited s"
  shows "m = n \<and> r = s"
proof -
  have stop: "takeWhile is_digit q = []" if "delimited q" for q
    using that by (cases q) (auto simp: delimited_def is_digit_def code_def)
  have "takeWhile is_digit (nat_str k @ q) = nat_str k" if "delimited q" for k q
    using stop [OF that] by (simp add: takeWhile_append nat_str_digits)
  with assms have "nat_str m = nat_str n" by metis
  with assms(1) show ?thesis by simp
qed

lemma int_str_prefix:
  assumes "int_str i @ r = int_str j @ s" "delimited r" "delimited s"
  shows "i = j \<and> r = s"
proof -
  have minus: "CHR ''-'' # x \<noteq> nat_str n @ q" for x n q
  proof
    assume "CHR ''-'' # x = nat_str n @ q"
    then have "CHR ''-'' \<in> set (nat_str n)"
      by (metis append_Cons list.set_intros(1) nat_str_not_Nil neq_Nil_conv list.inject)
    then have "is_digit (CHR ''-'')" by (rule nat_str_digits)
    then show False by (simp add: is_digit_def code_def)
  qed
  show ?thesis
  proof (cases "i < 0"; cases "j < 0")
    assume "i < 0" "j < 0"
    with assms nat_str_prefix [of "nat (- i)" r "nat (- j)" s] show ?thesis
      by (simp add: int_str_def eq_nat_nat_iff)
  next
    assume "i < 0" "\<not> j < 0"
    with assms(1) minus [of "nat_str (nat (- i)) @ r" "nat j" s] show ?thesis
      by (simp add: int_str_def)
  next
    assume "\<not> i < 0" "j < 0"
    with assms(1) minus [of "nat_str (nat (- j)) @ s" "nat i" r] show ?thesis
      by (simp add: int_str_def)
  next
    assume "\<not> i < 0" "\<not> j < 0"
    with assms nat_str_prefix [of "nat i" r "nat j" s] show ?thesis
      by (simp add: int_str_def eq_nat_nat_iff)
  qed
qed

lemma int_str_start: "\<exists>c r. int_str i = c # r \<and> (c = CHR ''-'' \<or> is_digit c)"
proof (cases "i < 0")
  case False
  then show ?thesis
    using nat_str_digits [of _ "nat i"] nat_str_not_Nil [of "nat i"]
    by (cases "nat_str (nat i)") (auto simp: int_str_def)
qed (simp add: int_str_def)

text \<open>Every value starts with a character that tells its kind and is not a bracket.\<close>

lemma raw_dumps_start:
  obtains c r where "raw_dumps v = c # r" "c \<notin> {CHR '']'', CHR ''}'', CHR '',''}"
proof -
  have "\<exists>c r. raw_dumps v = c # r \<and> c \<notin> {CHR '']'', CHR ''}'', CHR '',''}"
  proof (cases v)
    case (JInt i)
    with int_str_start [of i] show ?thesis by (auto simp: is_digit_def code_def)
  qed (auto simp: json_string_def)
  then show thesis using that by blast
qed

definition unambiguous :: "json \<Rightarrow> bool" where
  "unambiguous v \<longleftrightarrow>
     (\<forall>w r s. raw_dumps v @ r = raw_dumps w @ s \<longrightarrow> delimited r \<longrightarrow> delimited s \<longrightarrow> v = w \<and> r = s)"

lemma unambiguousD:
  "unambiguous v \<Longrightarrow> raw_dumps v @ r = raw_dumps w @ s \<Longrightarrow> delimited r \<Longrightarrow> delimited s
   \<Longrightarrow> v = w \<and> r = s"
  unfolding unambiguous_def by blast

text \<open>A comma-separated sequence is unambiguous when its elements are.\<close>

lemma seq_prefix:
  fixes enc :: "'a \<Rightarrow> string"
  assumes start: "\<And>y. \<exists>c q. enc y = c # q \<and> c \<noteq> close"
    and elem: "\<And>x y r s. x \<in> set xs \<Longrightarrow> enc x @ r = enc y @ s \<Longrightarrow> delimited r \<Longrightarrow> delimited s
        \<Longrightarrow> x = y \<and> r = s"
    and close: "close = CHR '']'' \<or> close = CHR ''}''"
    and "join '','' (map enc xs) @ close # r = join '','' (map enc ys) @ close # s"
  shows "xs = ys \<and> r = s"
  using assms(2,4)
proof (induction xs arbitrary: ys)
  case Nil
  show ?case
  proof (cases ys)
    case Nil
    with Nil.prems show ?thesis by simp
  next
    case (Cons y zs)
    with start [of y] Nil.prems show ?thesis by (cases zs) auto
  qed
next
  case (Cons x xs)
  obtain y zs where ys: "ys = y # zs"
    using start [of x] Cons.prems(2) by (cases ys; cases xs) auto
  define rest where
    "rest us q = (if us = [] then close # q else CHR '','' # join '','' (map enc us) @ close # q)"
    for us q
  have "enc x @ rest xs r = enc y @ rest zs s"
    using Cons.prems(2) unfolding rest_def ys by (auto simp: join_Cons)
  moreover have "delimited (rest us q)" for us q
    using close by (auto simp: rest_def)
  ultimately have eq: "x = y" "rest xs r = rest zs s"
    using Cons.prems(1) [of x "rest xs r" y "rest zs s"] by simp_all
  have close_comma: "close \<noteq> CHR '',''" using close by auto
  show ?case
  proof (cases "xs = []")
    case True
    with eq ys close_comma show ?thesis by (auto simp: rest_def split: if_splits)
  next
    case False
    with eq(2) close_comma have "zs \<noteq> []"
      "join '','' (map enc xs) @ close # r = join '','' (map enc zs) @ close # s"
      by (auto simp: rest_def split: if_splits)
    moreover have "xs = zs \<and> r = s"
      by (rule Cons.IH [OF Cons.prems(1) \<open>join '','' (map enc xs) @ close # r = _\<close>]) simp_all
    ultimately show ?thesis using eq(1) ys by simp
  qed
qed

text \<open>The first character tells the constructor of a value.\<close>

fun kind :: "json \<Rightarrow> nat" where
  "kind JNull = 0"
| "kind (JBool b) = (if b then 1 else 2)"
| "kind (JStr s) = 3"
| "kind (JArr xs) = 4"
| "kind (JObj kvs) = 5"
| "kind (JInt i) = 6"

definition head_kind :: "char \<Rightarrow> nat" where
  "head_kind c =
     (if c = CHR ''n'' then 0 else if c = CHR ''t'' then 1 else if c = CHR ''f'' then 2
      else if c = CHR 0x22 then 3 else if c = CHR ''['' then 4 else if c = CHR ''{'' then 5 else 6)"

lemma head_kind_number: "c = CHR ''-'' \<or> is_digit c \<Longrightarrow> head_kind c = 6"
  by (auto simp: head_kind_def is_digit_def code_def)

lemma raw_dumps_kind: "head_kind (hd (raw_dumps v @ r)) = kind v"
proof (cases v)
  case (JInt i)
  with int_str_start [of i] show ?thesis by (auto simp: head_kind_number)
qed (auto simp: json_string_def head_kind_def)

lemma raw_dumps_same_kind: "raw_dumps v @ r = raw_dumps w @ s \<Longrightarrow> kind v = kind w"
  by (metis raw_dumps_kind)

lemma raw_item_start:
  "\<exists>c q. (case x of (k, v) \<Rightarrow> json_string k @ '':'' @ raw_dumps v) = c # q \<and> c \<noteq> CHR ''}''"
  by (cases x) (simp add: json_string_def)

lemma unambiguous_arr:
  assumes IH: "\<And>x. x \<in> set xs \<Longrightarrow> unambiguous x"
  shows "unambiguous (JArr xs)"
  unfolding unambiguous_def
proof (intro allI impI)
  fix w r s
  assume eq: "raw_dumps (JArr xs) @ r = raw_dumps w @ s"
  then obtain ys where w: "w = JArr ys"
    using raw_dumps_same_kind [OF eq] by (cases w) (auto split: if_splits)
  have "xs = ys \<and> r = s"
  proof (rule seq_prefix [where enc = raw_dumps and close = "CHR '']''"])
    show "\<exists>c q. raw_dumps y = c # q \<and> c \<noteq> CHR '']''" for y
      by (rule raw_dumps_start [of y]) auto
    show "x = y \<and> p = q" if "x \<in> set xs" "raw_dumps x @ p = raw_dumps y @ q"
      "delimited p" "delimited q" for x y p q
      using unambiguousD [OF IH] that by blast
    show "join '','' (map raw_dumps xs) @ CHR '']'' # r = join '','' (map raw_dumps ys) @ CHR '']'' # s"
      using eq w by simp
  qed simp
  with w show "JArr xs = w \<and> r = s" by simp
qed

lemma unambiguous_obj:
  assumes IH: "\<And>k v. (k, v) \<in> set kvs \<Longrightarrow> unambiguous v"
  shows "unambiguous (JObj kvs)"
  unfolding unambiguous_def
proof (intro allI impI)
  fix w r s
  assume eq: "raw_dumps (JObj kvs) @ r = raw_dumps w @ s"
  then obtain ys where w: "w = JObj ys"
    using raw_dumps_same_kind [OF eq] by (cases w) (auto split: if_splits)
  let ?enc = "\<lambda>(k, v). json_string k @ '':'' @ raw_dumps v"
  have "kvs = ys \<and> r = s"
  proof (rule seq_prefix [where enc = ?enc and close = "CHR ''}''"])
    show "x = y \<and> p = q" if x: "x \<in> set kvs" and xy: "?enc x @ p = ?enc y @ q"
      and d: "delimited p" "delimited q" for x y p q
    proof -
      obtain k v l u where kv: "x = (k, v)" "y = (l, u)" by (cases x; cases y) auto
      with xy have "json_string k @ ('':'' @ raw_dumps v @ p) = json_string l @ ('':'' @ raw_dumps u @ q)"
        by simp
      then have "k = l \<and> '':'' @ raw_dumps v @ p = '':'' @ raw_dumps u @ q"
        by (rule json_string_prefix)
      with unambiguousD [OF IH, of k v p u q] x kv d show ?thesis by simp
    qed
    show "join '','' (map ?enc kvs) @ CHR ''}'' # r = join '','' (map ?enc ys) @ CHR ''}'' # s"
      using eq w by simp
  qed (simp_all only: raw_item_start simp_thms)
  with w show "JObj kvs = w \<and> r = s" by simp
qed

lemma unambiguous_scalar:
  assumes "kind v \<notin> {4, 5}"
  shows "unambiguous v"
  unfolding unambiguous_def
proof (intro allI impI)
  fix w r s
  assume eq: "raw_dumps v @ r = raw_dumps w @ s" and d: "delimited r" "delimited s"
  note k = raw_dumps_same_kind [OF eq]
  show "v = w \<and> r = s"
  proof (cases v)
    case (JInt i)
    with k obtain j where "w = JInt j" by (cases w) (auto split: if_splits)
    with JInt eq d int_str_prefix [of i r j s] show ?thesis by simp
  next
    case (JStr t)
    with k obtain u where "w = JStr u" by (cases w) (auto split: if_splits)
    with JStr eq json_string_prefix [of t r u s] show ?thesis by simp
  qed (use assms eq k in \<open>cases w; auto split: if_splits\<close>)+
qed

lemma unambiguous_all: "unambiguous v"
proof (induction v)
  case (JArr xs)
  then show ?case by (rule unambiguous_arr)
next
  case (JObj kvs)
  show ?case by (rule unambiguous_obj, rule JObj) auto
qed (simp_all add: unambiguous_scalar)

lemma raw_dumps_inject: "raw_dumps v = raw_dumps w \<longleftrightarrow> v = w"
  using unambiguousD [OF unambiguous_all, of v "[]" w "[]"] by (auto simp: delimited_def)

text \<open>The canonical text and the value up to the order of items are the same information.\<close>

lemma dumps_eq_iff: "dumps v = dumps w \<longleftrightarrow> canon v = canon w"
  by (simp add: dumps_canon raw_dumps_inject)

section \<open>Dicts with the same text have the same values\<close>

lemma map_of_filter:
  "map_of xs k = (case filter (\<lambda>p. fst p = k) xs of [] \<Rightarrow> None | p # _ \<Rightarrow> Some (snd p))"
  by (induction xs) auto

lemma map_of_sort_key: "map_of (sort_key fst xs) k = map_of xs k"
  by (simp add: map_of_filter [of "sort_key fst xs"] map_of_filter [of xs] sort_key_stable)

lemma map_of_canon: "map_of (map (\<lambda>(k, v). (k, canon v)) xs) k = map_option canon (map_of xs k)"
  by (induction xs) auto

lemma canon_dict_get:
  "canon (JObj a) = canon (JObj b) \<Longrightarrow> map_option canon (map_of a k) = map_option canon (map_of b k)"
  by (metis canon.simps(2) json.inject(5) map_of_sort_key map_of_canon)

text \<open>An array of strings, the only kind of array in the hashed records.\<close>

definition jstrs :: "string list \<Rightarrow> json" where
  "jstrs xs = JArr (map JStr xs)"

lemma canon_jstrs [simp]: "canon (jstrs xs) = jstrs xs"
  by (simp add: jstrs_def)

lemma jstrs_inject [simp]: "jstrs xs = jstrs ys \<longleftrightarrow> xs = ys"
  by (simp add: jstrs_def inj_map_eq_map inj_def)

section \<open>Records hashed through their canonical text\<close>

text \<open>
  A record type whose canonical dict determines the record. Its hash is then a commitment: two
  records with the same hash are equal, or SHA-256 collides on their texts.
\<close>

locale canonical_record =
  fixes fields :: "'a \<Rightarrow> (string \<times> json) list"
  assumes fields_inject: "canon (JObj (fields x)) = canon (JObj (fields y)) \<Longrightarrow> x = y"
begin

lemma text_inject: "utf8 (dumps (JObj (fields x))) = utf8 (dumps (JObj (fields y))) \<longleftrightarrow> x = y"
  using fields_inject by (auto simp only: utf8_inject dumps_eq_iff)

lemma hash_binds:
  assumes "inj_on sha (A :: string set)"
    and "utf8 (dumps (JObj (fields x))) \<in> A" "utf8 (dumps (JObj (fields y))) \<in> A"
    and "hex (sha (utf8 (dumps (JObj (fields x))))) = hex (sha (utf8 (dumps (JObj (fields y)))))"
  shows "x = y"
proof -
  have "sha (utf8 (dumps (JObj (fields x)))) = sha (utf8 (dumps (JObj (fields y))))"
    using assms(4) by (simp only: hex_inject)
  then have "utf8 (dumps (JObj (fields x))) = utf8 (dumps (JObj (fields y)))"
    using assms(1-3) by (simp only: inj_on_eq_iff)
  then show ?thesis by (simp only: text_inject)
qed

end

end
