(* ===== verification/Datetime.thy ===== *)
theory Datetime
  imports Prelude
begin

text \<open>
  The part of Python's \<^verbatim>\<open>datetime\<close> that the sources use: a date and time with an optional
  UTC offset in whole minutes, its ISO text (\<^verbatim>\<open>datetime.isoformat\<close>) and the instant it
  denotes. Receipts carry the ISO text into their hashes, so the lemmas say that the text
  determines the datetime (\<open>isoformat_inject\<close>) and which characters it is made of.
\<close>

section \<open>Datetimes\<close>

record datetime =
  dt_year :: nat
  dt_month :: nat
  dt_day :: nat
  dt_hour :: nat
  dt_minute :: nat
  dt_second :: nat
  dt_microsecond :: nat
  dt_offset :: "int option"

definition datetime_ok :: "datetime \<Rightarrow> bool" where
  "datetime_ok d \<longleftrightarrow>
     dt_year d < 10000 \<and> dt_month d < 100 \<and> dt_day d < 100 \<and> dt_hour d < 100 \<and>
     dt_minute d < 100 \<and> dt_second d < 100 \<and> dt_microsecond d < 1000000 \<and>
     (case dt_offset d of None \<Rightarrow> True | Some m \<Rightarrow> \<bar>m\<bar> < 1440)"

text \<open>The Unix epoch, a concrete datetime in UTC.\<close>

definition utc_epoch :: datetime where
  "utc_epoch = \<lparr>dt_year = 1970, dt_month = 1, dt_day = 1, dt_hour = 0, dt_minute = 0, dt_second = 0,
     dt_microsecond = 0, dt_offset = Some 0\<rparr>"

text \<open>A decimal numeral filled up with zeros to a width.\<close>

definition pad :: "nat \<Rightarrow> nat \<Rightarrow> string" where
  "pad w n = replicate (w - length (nat_str n)) (CHR ''0'') @ nat_str n"

definition iso_offset :: "int option \<Rightarrow> string" where
  "iso_offset off =
     (case off of
        None \<Rightarrow> []
      | Some m \<Rightarrow> (if m < 0 then ''-'' else ''+'') @ pad 2 (nat \<bar>m\<bar> div 60) @ '':'' @ pad 2 (nat \<bar>m\<bar> mod 60))"

definition isoformat :: "datetime \<Rightarrow> string" where
  "isoformat d =
     pad 4 (dt_year d) @ ''-'' @ pad 2 (dt_month d) @ ''-'' @ pad 2 (dt_day d) @ ''T'' @
     pad 2 (dt_hour d) @ '':'' @ pad 2 (dt_minute d) @ '':'' @ pad 2 (dt_second d) @
     (if dt_microsecond d = 0 then [] else ''.'' @ pad 6 (dt_microsecond d)) @
     iso_offset (dt_offset d)"

section \<open>The ISO text determines the datetime\<close>

lemma length_nat_str_le: "n < 10 ^ w \<Longrightarrow> 0 < w \<Longrightarrow> length (nat_str n) \<le> w"
proof (induction n arbitrary: w rule: nat_str.induct)
  case (1 n)
  show ?case
  proof (cases "n < 10")
    case True
    with 1 show ?thesis by (simp add: nat_str.simps [of n])
  next
    case False
    with 1(2) obtain v where w: "w = Suc v" "0 < v"
      by (metis One_nat_def Suc_pred power_one_right 1(3) neq0_conv)
    with 1(2) have "n div 10 < 10 ^ v" by (simp add: less_mult_imp_div_less mult.commute)
    with 1(1) [OF False] w False show ?thesis by (simp add: nat_str.simps [of n])
  qed
qed

lemma length_pad: "n < 10 ^ w \<Longrightarrow> 0 < w \<Longrightarrow> length (pad w n) = w"
  using length_nat_str_le [of n w] by (simp add: pad_def)

lemma dec_val_pad: "dec_val (pad w n) = n"
proof -
  have "foldl (\<lambda>a c. 10 * a + (code c - 48)) 0 (replicate k (CHR ''0'')) = 0" for k
    by (induction k) (simp_all add: code_def)
  then show ?thesis
    using dec_val_nat_str [of n] by (simp add: pad_def dec_val_def)
qed

lemma pad_inject [simp]: "pad w m = pad w n \<longleftrightarrow> m = n"
  by (metis dec_val_pad)

lemma pad_split:
  "pad w m @ r = pad w n @ s \<Longrightarrow> m < 10 ^ w \<Longrightarrow> n < 10 ^ w \<Longrightarrow> 0 < w \<Longrightarrow> m = n \<and> r = s"
  using length_pad [of m w] length_pad [of n w] by (simp add: append_eq_append_conv)

lemma pad_digits: "c \<in> set (pad w n) \<Longrightarrow> is_digit c"
  unfolding pad_def using nat_str_digits [of c n] by (auto simp: is_digit_def code_def)

lemma iso_offset_inject:
  assumes "iso_offset a = iso_offset b"
    and "case a of None \<Rightarrow> True | Some m \<Rightarrow> \<bar>m\<bar> < 1440"
    and "case b of None \<Rightarrow> True | Some m \<Rightarrow> \<bar>m\<bar> < 1440"
  shows "a = b"
proof (cases a; cases b)
  fix m n assume ab: "a = Some m" "b = Some n"
  with assms have b: "nat \<bar>m\<bar> div 60 < 10 ^ 2" "nat \<bar>n\<bar> div 60 < 10 ^ 2" by simp_all
  have sign: "m < 0 \<longleftrightarrow> n < 0" using assms(1) ab by (simp add: iso_offset_def split: if_splits)
  have "pad 2 (nat \<bar>m\<bar> div 60) @ '':'' @ pad 2 (nat \<bar>m\<bar> mod 60)
      = pad 2 (nat \<bar>n\<bar> div 60) @ '':'' @ pad 2 (nat \<bar>n\<bar> mod 60)"
    using assms(1) ab by (simp add: iso_offset_def split: if_splits)
  from pad_split [OF this b] have "nat \<bar>m\<bar> div 60 = nat \<bar>n\<bar> div 60" "nat \<bar>m\<bar> mod 60 = nat \<bar>n\<bar> mod 60"
    by simp_all
  then have "nat \<bar>m\<bar> = nat \<bar>n\<bar>" by (metis mult_div_mod_eq)
  with sign have "m = n" by linarith
  with ab show ?thesis by simp
qed (use assms in \<open>auto simp: iso_offset_def\<close>)

lemma iso_tail_inject:
  assumes "(if u = 0 then [] else CHR ''.'' # pad 6 u) @ iso_offset a
         = (if v = 0 then [] else CHR ''.'' # pad 6 v) @ iso_offset b"
    and "u < 1000000" "v < 1000000"
  shows "u = v \<and> iso_offset a = iso_offset b"
proof -
  have nodot: "CHR ''.'' # r \<noteq> iso_offset x" for r x
    by (auto simp: iso_offset_def split: option.splits)
  show ?thesis
  proof (cases "u = 0"; cases "v = 0")
    assume uv: "u \<noteq> 0" "v \<noteq> 0"
    with assms(1) have "pad 6 u @ iso_offset a = pad 6 v @ iso_offset b" by simp
    from pad_split [OF this] assms(2,3) show ?thesis by simp
  qed (use assms nodot nodot [symmetric] in auto)
qed

lemma isoformat_inject:
  assumes "isoformat d = isoformat e" "datetime_ok d" "datetime_ok e"
  shows "d = e"
proof -
  note ok = assms(2,3) [unfolded datetime_ok_def]
  note eq = assms(1) [unfolded isoformat_def]
  from pad_split [OF eq] ok have y: "dt_year d = dt_year e"
    and r1: "''-'' @ pad 2 (dt_month d) @ ''-'' @ pad 2 (dt_day d) @ ''T'' @
     pad 2 (dt_hour d) @ '':'' @ pad 2 (dt_minute d) @ '':'' @ pad 2 (dt_second d) @
     (if dt_microsecond d = 0 then [] else ''.'' @ pad 6 (dt_microsecond d)) @ iso_offset (dt_offset d)
     = ''-'' @ pad 2 (dt_month e) @ ''-'' @ pad 2 (dt_day e) @ ''T'' @
     pad 2 (dt_hour e) @ '':'' @ pad 2 (dt_minute e) @ '':'' @ pad 2 (dt_second e) @
     (if dt_microsecond e = 0 then [] else ''.'' @ pad 6 (dt_microsecond e)) @ iso_offset (dt_offset e)"
    by simp_all
  note r1' = r1 [unfolded append_Cons append_Nil list.inject, THEN conjunct2]
  from pad_split [OF r1'] ok have mo: "dt_month d = dt_month e" by simp
  note r2 = r1' [unfolded mo append_Cons append_Nil same_append_eq list.inject, THEN conjunct2]
  from pad_split [OF r2] ok have da: "dt_day d = dt_day e" by simp
  note r3 = r2 [unfolded da append_Cons append_Nil same_append_eq list.inject, THEN conjunct2]
  from pad_split [OF r3] ok have ho: "dt_hour d = dt_hour e" by simp
  note r4 = r3 [unfolded ho append_Cons append_Nil same_append_eq list.inject, THEN conjunct2]
  from pad_split [OF r4] ok have mi: "dt_minute d = dt_minute e" by simp
  note r5 = r4 [unfolded mi append_Cons append_Nil same_append_eq list.inject, THEN conjunct2]
  from pad_split [OF r5] ok have se: "dt_second d = dt_second e" by simp
  from pad_split [OF r5] ok have us: "dt_microsecond d = dt_microsecond e"
    and off: "iso_offset (dt_offset d) = iso_offset (dt_offset e)"
    using iso_tail_inject [of "dt_microsecond d" "dt_offset d" "dt_microsecond e" "dt_offset e"]
    by simp_all
  from iso_offset_inject [OF off] ok have "dt_offset d = dt_offset e" by simp
  with y mo da ho mi se us show ?thesis by simp
qed

lemma isoformat_no_pipe: "CHR ''|'' \<notin> set (isoformat d)"
proof -
  have "CHR ''|'' \<notin> set (pad w n)" for w n
    using pad_digits [of "CHR ''|''" w n] by (auto simp: is_digit_def code_def)
  then show ?thesis by (auto simp: isoformat_def iso_offset_def split: option.splits)
qed

end
