(* ===== verification/Billing_Schema.thy ===== *)
theory Billing_Schema
  imports Complex_Main Json Datetime
begin

text \<open>
  The data of the billing layer (\<^verbatim>\<open>packages/karma_billing/schema.py\<close>): the scenarios, receipt
  types and billing states as datatypes with the constructors of the source, the universal
  receipt as a record with its validation, and the hashes of a receipt.

  SHA-256 is the parameter \<open>sha\<close>, from the bytes hashed to the digest bytes. That it is free of
  collisions is a hypothesis (\<^term>\<open>inj sha\<close>) of the lemmas that need it, and of no definition.
  The lemmas show that a leaf hash determines the receipt fields it covers, provided no field
  but the last contains the separator, and that a payload hash determines the payload.
\<close>

section \<open>Scenarios, receipt types and states\<close>

datatype ScenarioType =
    S1_DELEGATION | S2_BIDDING | S3_PIPELINE | S4_MULTI_DELEGATION | S5_DATA
  | S6_CONDITIONAL | S7_RECURRING | S8_DISPUTE | S9_INTENT | S10_CROSS_CHAIN

datatype ReceiptStatus =
    GENERATED | ANCHORING | ANCHORED | VERIFIED

datatype ReceiptType =
    S1_INTENT_CREATED | S1_INTENT_SIGNED | S1_DELEGATION_ACCEPTED | S1_TASK_STARTED
  | S1_STEP_EXECUTED | S1_TASK_COMPLETED | S1_INVOICE_GENERATED | S1_PAYMENT_AUTHORIZED
  | S1_PAYMENT_SETTLED | S1_RECEIPT_FINAL | S2_BID_OPENED | S2_BID_PLACED
  | S2_BID_EVALUATED | S2_BID_ACCEPTED | S2_TASK_EXECUTED | S2_INVOICE_GENERATED
  | S2_PAYMENT_SETTLED | S3_PIPELINE_CREATED | S3_STAGE_STARTED | S3_STAGE_COMPLETED
  | S3_PIPELINE_COMPLETED | S3_INVOICE_AGGREGATED | S3_PAYMENT_SETTLED
  | S4_SUBTASK_CREATED | S4_SUBTASK_ASSIGNED | S4_SUBTASK_COMPLETED
  | S4_AGGREGATE_INVOICE | S4_PAYMENT_SETTLED | S5_DATA_REQUESTED | S5_DATA_DELIVERED
  | S5_DATA_VERIFIED | S5_ROYALTY_CALCULATED | S5_PAYMENT_SETTLED | S6_CONDITION_SET
  | S6_CONDITION_MET | S6_TASK_EXECUTED | S6_ESCROW_RELEASED | S7_SUBSCRIPTION_CREATED
  | S7_PERIOD_STARTED | S7_USAGE_REPORTED | S7_PERIOD_INVOICE | S7_PAYMENT_SETTLED
  | S8_DISPUTE_FILED | S8_EVIDENCE_SUBMITTED | S8_ARBITRATION_STARTED
  | S8_RESOLUTION_PROPOSED | S8_RESOLUTION_ACCEPTED | S8_REFUND_ISSUED
  | S9_INTENT_EXPRESSED | S9_SOLVER_MATCHED | S9_SOLUTION_EXECUTED | S9_PAYMENT_SETTLED
  | S10_SOURCE_LOCKED | S10_BRIDGE_PROOF | S10_DESTINATION_MINTED | S10_PAYMENT_SETTLED

datatype BillingState =
    INITIATED | INTENT_RECEIVED | INTENT_VALIDATED | DELEGATION_ACCEPTED | TASK_STARTED
  | STEP_IN_PROGRESS | STEP_COMPLETED | TASK_COMPLETED | BID_EVALUATING | BID_ACCEPTED
  | PIPELINE_STAGING | INVOICE_GENERATED | PAYMENT_AUTHORIZED | PAYMENT_PENDING
  | PAYMENT_SETTLING | REFUND_PENDING | SETTLED

text \<open>The \<^verbatim>\<open>.value\<close> of the members, which the audit log and the events carry.\<close>

fun scenario_value :: "ScenarioType \<Rightarrow> string" where
  "scenario_value ScenarioType.S1_DELEGATION = ''S1_DELEGATION''"
| "scenario_value ScenarioType.S2_BIDDING = ''S2_BIDDING''"
| "scenario_value ScenarioType.S3_PIPELINE = ''S3_PIPELINE''"
| "scenario_value ScenarioType.S4_MULTI_DELEGATION = ''S4_MULTI_DELEGATION''"
| "scenario_value ScenarioType.S5_DATA = ''S5_DATA''"
| "scenario_value ScenarioType.S6_CONDITIONAL = ''S6_CONDITIONAL''"
| "scenario_value ScenarioType.S7_RECURRING = ''S7_RECURRING''"
| "scenario_value ScenarioType.S8_DISPUTE = ''S8_DISPUTE''"
| "scenario_value ScenarioType.S9_INTENT = ''S9_INTENT''"
| "scenario_value ScenarioType.S10_CROSS_CHAIN = ''S10_CROSS_CHAIN''"

fun state_value :: "BillingState \<Rightarrow> string" where
  "state_value BillingState.INITIATED = ''INITIATED''"
| "state_value BillingState.INTENT_RECEIVED = ''INTENT_RECEIVED''"
| "state_value BillingState.INTENT_VALIDATED = ''INTENT_VALIDATED''"
| "state_value BillingState.DELEGATION_ACCEPTED = ''DELEGATION_ACCEPTED''"
| "state_value BillingState.TASK_STARTED = ''TASK_STARTED''"
| "state_value BillingState.STEP_IN_PROGRESS = ''STEP_IN_PROGRESS''"
| "state_value BillingState.STEP_COMPLETED = ''STEP_COMPLETED''"
| "state_value BillingState.TASK_COMPLETED = ''TASK_COMPLETED''"
| "state_value BillingState.BID_EVALUATING = ''BID_EVALUATING''"
| "state_value BillingState.BID_ACCEPTED = ''BID_ACCEPTED''"
| "state_value BillingState.PIPELINE_STAGING = ''PIPELINE_STAGING''"
| "state_value BillingState.INVOICE_GENERATED = ''INVOICE_GENERATED''"
| "state_value BillingState.PAYMENT_AUTHORIZED = ''PAYMENT_AUTHORIZED''"
| "state_value BillingState.PAYMENT_PENDING = ''PAYMENT_PENDING''"
| "state_value BillingState.PAYMENT_SETTLING = ''PAYMENT_SETTLING''"
| "state_value BillingState.REFUND_PENDING = ''REFUND_PENDING''"
| "state_value BillingState.SETTLED = ''SETTLED''"

section \<open>Hashes\<close>

definition compute_payload_hash :: "(string \<Rightarrow> string) \<Rightarrow> (string \<times> json) list \<Rightarrow> string" where
  "compute_payload_hash sha data = hex (sha (utf8 (dumps (JObj data))))"

definition compute_leaf_hash ::
  "(string \<Rightarrow> string) \<Rightarrow> string \<Rightarrow> string \<Rightarrow> int \<Rightarrow> string \<Rightarrow> string \<Rightarrow> string" where
  "compute_leaf_hash sha receipt_id task_id step_index payload_hash timestamp =
     (let parts = [receipt_id, task_id, int_str step_index, payload_hash, timestamp];
          joined = join ''|'' parts
      in sha (utf8 joined))"

section \<open>Universal receipts\<close>

record UniversalReceipt =
  ur_receipt_id :: string
  ur_task_id :: string
  ur_scenario :: ScenarioType
  ur_step_index :: int
  ur_generator_did :: string
  ur_buyer_did :: string
  ur_seller_did :: string
  ur_receipt_type :: ReceiptType
  ur_input_hash :: string
  ur_output_hash :: string
  ur_payload_hash :: string
  ur_created_at :: datetime
  ur_execution_duration_ms :: int
  ur_parent_receipt_id :: "string option"
  ur_previous_payload_hash :: "string option"
  ur_scenario_data :: "(string \<times> json) list option"
  ur_status :: ReceiptStatus
  ur_signature :: string
  ur_signature_algorithm :: string
  ur_anchor_tx :: "string option"
  ur_anchor_leaf_index :: "int option"
  ur_anchor_root :: "string option"

datatype schema_error = ValidationError string

text \<open>The model validator that runs after the fields are set.\<close>

definition auto_compute_payload_hash :: "(string \<Rightarrow> string) \<Rightarrow> UniversalReceipt \<Rightarrow> UniversalReceipt" where
  "auto_compute_payload_hash sha r =
     (case ur_scenario_data r of
        Some data \<Rightarrow>
          if ur_payload_hash r = [] then r\<lparr>ur_payload_hash := compute_payload_hash sha data\<rparr> else r
      | None \<Rightarrow> r)"

text \<open>Constructing a receipt: the \<^verbatim>\<open>ge=0\<close> constraints of the fields, then the validator.\<close>

definition make_receipt :: "(string \<Rightarrow> string) \<Rightarrow> UniversalReceipt \<Rightarrow> schema_error + UniversalReceipt" where
  "make_receipt sha r =
     (if ur_step_index r < 0 then Inl (ValidationError ''step_index'')
      else if ur_execution_duration_ms r < 0 then Inl (ValidationError ''execution_duration_ms'')
      else Inr (auto_compute_payload_hash sha r))"

definition compute_leaf :: "(string \<Rightarrow> string) \<Rightarrow> UniversalReceipt \<Rightarrow> string" where
  "compute_leaf sha r =
     compute_leaf_hash sha (ur_receipt_id r) (ur_task_id r) (ur_step_index r)
       (if ur_payload_hash r \<noteq> [] then ur_payload_hash r
        else compute_payload_hash sha (case ur_scenario_data r of Some d \<Rightarrow> d | None \<Rightarrow> []))
       (isoformat (ur_created_at r))"

section \<open>Snapshots and transition records\<close>

text \<open>Amounts and percentages are rationals.\<close>

record BillingSnapshot =
  bs_task_id :: string
  bs_scenario :: ScenarioType
  bs_billing_state :: BillingState
  bs_current_step :: nat
  bs_total_steps_estimated :: nat
  bs_cost_accrued_usdc :: rat
  bs_total_budget_usdc :: rat
  bs_progress_percent :: rat
  bs_anchored_receipts :: nat
  bs_latest_merkle_root :: "string option"
  bs_last_anchor_tx :: "string option"

record StateTransitionRecord =
  st_record_id :: string
  st_task_id :: string
  st_from_state :: BillingState
  st_to_state :: BillingState
  st_triggered_by_receipt_id :: string
  st_triggered_by_did :: string
  st_timestamp :: datetime

section \<open>What the hashes determine\<close>

text \<open>The bytes whose digest is the leaf of a receipt, and the payload hash it covers.\<close>

definition leaf_payload :: "(string \<Rightarrow> string) \<Rightarrow> UniversalReceipt \<Rightarrow> string" where
  "leaf_payload sha r =
     (if ur_payload_hash r \<noteq> [] then ur_payload_hash r
      else compute_payload_hash sha (case ur_scenario_data r of Some d \<Rightarrow> d | None \<Rightarrow> []))"

definition leaf_text :: "(string \<Rightarrow> string) \<Rightarrow> UniversalReceipt \<Rightarrow> string" where
  "leaf_text sha r =
     utf8 (join ''|'' [ur_receipt_id r, ur_task_id r, int_str (ur_step_index r), leaf_payload sha r,
                      isoformat (ur_created_at r)])"

lemma compute_leaf_text: "compute_leaf sha r = sha (leaf_text sha r)"
  by (simp add: compute_leaf_def compute_leaf_hash_def leaf_text_def leaf_payload_def)

definition separable :: "(string \<Rightarrow> string) \<Rightarrow> UniversalReceipt \<Rightarrow> bool" where
  "separable sha r \<longleftrightarrow>
     CHR ''|'' \<notin> set (ur_receipt_id r) \<and> CHR ''|'' \<notin> set (ur_task_id r) \<and>
     CHR ''|'' \<notin> set (leaf_payload sha r) \<and> datetime_ok (ur_created_at r)"

lemma int_str_no_pipe: "CHR ''|'' \<notin> set (int_str i)"
  using nat_str_digits [of "CHR ''|''"] by (auto simp: int_str_def is_digit_def code_def)

lemma leaf_text_inject:
  assumes "leaf_text sha r = leaf_text sha r'" "separable sha r" "separable sha r'"
  shows "ur_receipt_id r = ur_receipt_id r' \<and> ur_task_id r = ur_task_id r' \<and>
    ur_step_index r = ur_step_index r' \<and> leaf_payload sha r = leaf_payload sha r' \<and>
    ur_created_at r = ur_created_at r'"
proof -
  let ?parts = "\<lambda>r. [ur_receipt_id r, ur_task_id r, int_str (ur_step_index r), leaf_payload sha r,
                    isoformat (ur_created_at r)]"
  have "?parts r = ?parts r'"
  proof (rule join_inject)
    show "join ''|'' (?parts r) = join ''|'' (?parts r')"
      using assms(1) by (simp only: leaf_text_def utf8_inject)
    show "CHR ''|'' \<notin> set x" if "x \<in> set (?parts r) \<union> set (?parts r')" for x
      using that assms(2,3) int_str_no_pipe isoformat_no_pipe by (auto simp: separable_def)
  qed simp
  then have parts: "ur_receipt_id r = ur_receipt_id r'" "ur_task_id r = ur_task_id r'"
    "ur_step_index r = ur_step_index r'" "leaf_payload sha r = leaf_payload sha r'"
    "isoformat (ur_created_at r) = isoformat (ur_created_at r')"
    by simp_all
  have "ur_created_at r = ur_created_at r'"
    by (rule isoformat_inject [OF parts(5)]) (use assms(2,3) in \<open>simp_all add: separable_def\<close>)
  with parts show ?thesis by simp
qed

lemma payload_hash_eq_iff:
  assumes "inj_on sha {utf8 (dumps (JObj a)), utf8 (dumps (JObj b))}"
  shows "compute_payload_hash sha a = compute_payload_hash sha b \<longleftrightarrow> canon (JObj a) = canon (JObj b)"
proof -
  have "compute_payload_hash sha a = compute_payload_hash sha b
      \<longleftrightarrow> sha (utf8 (dumps (JObj a))) = sha (utf8 (dumps (JObj b)))"
    by (simp only: compute_payload_hash_def hex_inject)
  also have "\<dots> \<longleftrightarrow> utf8 (dumps (JObj a)) = utf8 (dumps (JObj b))"
    by (rule inj_on_eq_iff [OF assms]) (simp_all only: insert_iff simp_thms)
  finally show ?thesis by (simp only: utf8_inject dumps_eq_iff)
qed

lemma hex_not_Nil: "hex s = [] \<longleftrightarrow> s = []"
  by (cases s) (auto simp: hex_def hex_byte_def)

lemma make_receipt_Inr:
  assumes "make_receipt sha r = Inr r'"
  shows "0 \<le> ur_step_index r'" "0 \<le> ur_execution_duration_ms r'"
    and "leaf_payload sha r' = leaf_payload sha r"
  using assms
  by (auto simp: make_receipt_def auto_compute_payload_hash_def leaf_payload_def
      split: if_splits option.splits)

end
