(* ===== verification/Lifecycle.thy ===== *)
theory Lifecycle
  imports Prelude
begin

text \<open>
  The contracts that the state machines of the program share, as locales. Each is interpreted
  in the theory of the component that provides it.

  \<^item> \<open>kept\<close>: a predicate that every step keeps holds in every state reached from one where it holds.
  \<^item> \<open>absorbing\<close>: a state that is never left.
  \<^item> \<open>loop_ranked\<close>: every step but the back edges lowers a rank, so that a run is bounded by its
    rank and the number of its back edges; \<open>ranked\<close>: there are no back edges, so that a run also
    never repeats a state.
  \<^item> \<open>completable\<close>: from every state of a region some step comes closer to a goal, so that the
    goal can be reached from there.
  \<^item> \<open>audited\<close>: a machine with keyed states and an append-only log of its steps; the log of a
    key is a run of the step relation that ends in the key's state.
\<close>

section \<open>Runs of a step relation\<close>

text \<open>\<open>follows E s ts\<close>: the states \<open>ts\<close> can be visited one after the other from \<open>s\<close>.\<close>

fun follows :: "('s \<Rightarrow> 's \<Rightarrow> bool) \<Rightarrow> 's \<Rightarrow> 's list \<Rightarrow> bool" where
  "follows E s [] = True"
| "follows E s (t # ts) = (E s t \<and> follows E t ts)"

lemma follows_append:
  "follows E s (xs @ ys) \<longleftrightarrow> follows E s xs \<and> follows E (last (s # xs)) ys"
  by (induction xs arbitrary: s) auto

lemma follows_mono:
  "follows E s ts \<Longrightarrow> (\<And>a b. E a b \<Longrightarrow> F a b) \<Longrightarrow> follows F s ts"
  by (induction ts arbitrary: s) auto

text \<open>\<open>chain E s log\<close>: a log of steps that starts in \<open>s\<close>, each step of \<open>E\<close> and each starting
  where the one before ended; \<open>chain_end\<close> is where it ends.\<close>

fun chain :: "('s \<Rightarrow> 's \<Rightarrow> bool) \<Rightarrow> 's \<Rightarrow> ('s \<times> 's) list \<Rightarrow> bool" where
  "chain E s [] = True"
| "chain E s ((a, b) # es) = (a = s \<and> E a b \<and> chain E b es)"

fun chain_end :: "'s \<Rightarrow> ('s \<times> 's) list \<Rightarrow> 's" where
  "chain_end s [] = s"
| "chain_end s ((a, b) # es) = chain_end b es"

lemma chain_append: "chain E s (xs @ ys) \<longleftrightarrow> chain E s xs \<and> chain E (chain_end s xs) ys"
  by (induction E s xs rule: chain.induct) auto

lemma chain_end_append: "chain_end s (xs @ ys) = chain_end (chain_end s xs) ys"
  by (induction s xs rule: chain_end.induct) auto

lemma chain_follows: "chain E s es \<Longrightarrow> follows E s (map snd es) \<and> last (s # map snd es) = chain_end s es"
  by (induction E s es rule: chain.induct) auto

lemma chain_edges: "chain E s es \<Longrightarrow> (a, b) \<in> set es \<Longrightarrow> E a b"
  by (induction E s es rule: chain.induct) auto

section \<open>The contracts\<close>

locale kept =
  fixes step :: "'s \<Rightarrow> 's \<Rightarrow> bool" and inv :: "'s \<Rightarrow> bool"
  assumes step_keeps: "step s t \<Longrightarrow> inv s \<Longrightarrow> inv t"
begin

lemma reach_keeps: "step\<^sup>*\<^sup>* s t \<Longrightarrow> inv s \<Longrightarrow> inv t"
  by (induction rule: rtranclp_induct) (auto intro: step_keeps)

end

locale absorbing =
  fixes edge :: "'s \<Rightarrow> 's \<Rightarrow> bool" and final :: 's
  assumes final_stuck: "\<not> edge final t"
begin

lemma follows_final: "follows edge final ts \<longleftrightarrow> ts = []"
  by (cases ts) (auto simp: final_stuck)

lemma final_is_last: "follows edge s ts \<Longrightarrow> final \<in> set ts \<Longrightarrow> last ts = final"
proof (induction ts arbitrary: s)
  case (Cons t ts)
  then show ?case using follows_final by (cases "t = final") auto
qed simp

lemma final_once: "follows edge s ts \<Longrightarrow> count_list ts final \<le> 1"
proof (induction ts arbitrary: s)
  case (Cons t ts)
  then show ?case using follows_final by (cases "t = final") auto
qed simp

end

text \<open>The number of steps of a run that are back edges.\<close>

fun repeats :: "('s \<Rightarrow> 's \<Rightarrow> bool) \<Rightarrow> 's \<Rightarrow> 's list \<Rightarrow> nat" where
  "repeats again s [] = 0"
| "repeats again s (t # ts) = (if again s t then 1 else 0) + repeats again t ts"

locale loop_ranked =
  fixes edge :: "'s \<Rightarrow> 's \<Rightarrow> bool" and rank :: "'s \<Rightarrow> nat" and again :: "'s \<Rightarrow> 's \<Rightarrow> bool"
  assumes forward_less: "edge s t \<Longrightarrow> \<not> again s t \<Longrightarrow> rank t < rank s"
    and again_one: "edge s t \<Longrightarrow> again s t \<Longrightarrow> rank t \<le> rank s + 1"
begin

lemma run_bounded:
  "follows edge s ts \<Longrightarrow> length ts + rank (last (s # ts)) \<le> rank s + 2 * repeats again s ts"
proof (induction ts arbitrary: s)
  case (Cons u ts)
  then show ?case using forward_less [of s u] again_one [of s u] by fastforce
qed simp

end

locale ranked =
  fixes edge :: "'s \<Rightarrow> 's \<Rightarrow> bool" and rank :: "'s \<Rightarrow> nat"
  assumes rank_less: "edge s t \<Longrightarrow> rank t < rank s"
begin

lemma run_rank: "follows edge s ts \<Longrightarrow> t \<in> set ts \<Longrightarrow> rank t < rank s"
proof (induction ts arbitrary: s)
  case (Cons u ts)
  then show ?case using rank_less [of s u] by fastforce
qed simp

lemma run_distinct: "follows edge s ts \<Longrightarrow> distinct (s # ts)"
proof (induction ts arbitrary: s)
  case (Cons u ts)
  then show ?case using run_rank [of s "u # ts" s] by auto
qed simp

end

sublocale ranked \<subseteq> free: loop_ranked edge rank "\<lambda>s t. False"
  by unfold_locales (simp_all add: rank_less)

locale completable =
  fixes edge :: "'s \<Rightarrow> 's \<Rightarrow> bool" and region :: "'s \<Rightarrow> bool" and dist :: "'s \<Rightarrow> nat" and goal :: 's
  assumes closer: "region s \<Longrightarrow> s \<noteq> goal \<Longrightarrow> \<exists>t. edge s t \<and> region t \<and> dist t < dist s"
begin

lemma reaches_goal: "region s \<Longrightarrow> \<exists>ts. follows edge s ts \<and> last (s # ts) = goal \<and> length ts \<le> dist s"
proof (induction "dist s" arbitrary: s rule: less_induct)
  case less
  show ?case
  proof (cases "s = goal")
    case True
    then have "follows edge s [] \<and> last [s] = goal \<and> length [] \<le> dist s" by simp
    then show ?thesis by blast
  next
    case False
    with less.prems obtain t where t: "edge s t" "region t" "dist t < dist s"
      using closer by blast
    with less.hyps obtain ts where "follows edge t ts" "last (t # ts) = goal" "length ts \<le> dist t"
      by blast
    with t have "follows edge s (t # ts) \<and> last (s # t # ts) = goal \<and> length (t # ts) \<le> dist s"
      by auto
    then show ?thesis by blast
  qed
qed

end

locale audited =
  fixes edge :: "'k \<Rightarrow> 's \<Rightarrow> 's \<Rightarrow> bool"
    and init :: 's
    and state_of :: "'m \<Rightarrow> 'k \<Rightarrow> 's"
    and log_of :: "'m \<Rightarrow> 'k \<Rightarrow> ('s \<times> 's) list"
    and mstep :: "'m \<Rightarrow> 'm \<Rightarrow> bool"
    and start :: 'm
  assumes start_state: "state_of start k = init"
    and start_log: "log_of start k = []"
    and step_cases: "mstep m m' \<Longrightarrow>
          log_of m' k = log_of m k \<and> state_of m' k = state_of m k
        \<or> log_of m' k = log_of m k @ [(state_of m k, state_of m' k)]
          \<and> edge k (state_of m k) (state_of m' k)"
begin

lemma log_is_run:
  assumes "mstep\<^sup>*\<^sup>* start m"
  shows "chain (edge k) init (log_of m k) \<and> chain_end init (log_of m k) = state_of m k"
  using assms
proof induction
  case base
  then show ?case by (simp add: start_state start_log)
next
  case (step m m')
  then show ?case
    using step_cases [of m m' k] by (auto simp: chain_append chain_end_append)
qed

lemma log_grows:
  assumes "mstep\<^sup>*\<^sup>* m m'"
  shows "\<exists>new. log_of m' k = log_of m k @ new \<and> chain (edge k) (state_of m k) new
      \<and> chain_end (state_of m k) new = state_of m' k"
  using assms
proof induction
  case base
  then show ?case by auto
next
  case (step m1 m2)
  then obtain new where new: "log_of m1 k = log_of m k @ new" "chain (edge k) (state_of m k) new"
    "chain_end (state_of m k) new = state_of m1 k" by blast
  from step_cases [OF step.hyps(2), of k] show ?case
  proof
    assume "log_of m2 k = log_of m1 k \<and> state_of m2 k = state_of m1 k"
    with new show ?thesis by auto
  next
    assume s: "log_of m2 k = log_of m1 k @ [(state_of m1 k, state_of m2 k)]
      \<and> edge k (state_of m1 k) (state_of m2 k)"
    with new have "log_of m2 k = log_of m k @ (new @ [(state_of m1 k, state_of m2 k)])
      \<and> chain (edge k) (state_of m k) (new @ [(state_of m1 k, state_of m2 k)])
      \<and> chain_end (state_of m k) (new @ [(state_of m1 k, state_of m2 k)]) = state_of m2 k"
      by (simp add: chain_append chain_end_append)
    then show ?thesis by blast
  qed
qed

text \<open>With an absorbing state, a key that is in it keeps its state and its log for good.\<close>

lemma final_frozen:
  assumes "absorbing (edge k) f" "state_of m k = f" "mstep\<^sup>*\<^sup>* m m'"
  shows "state_of m' k = f \<and> log_of m' k = log_of m k"
proof -
  from log_grows [OF assms(3), of k] assms(2) obtain new where
    new: "log_of m' k = log_of m k @ new" "chain (edge k) f new" "chain_end f new = state_of m' k"
    by blast
  have "new = []"
    using new(2) absorbing.final_stuck [OF assms(1)] by (cases new) auto
  with new show ?thesis by simp
qed

end

end
