(* ===== verification/Billing_Transitions.thy ===== *)
theory Billing_Transitions
  imports Billing_Schema Lifecycle
begin

text \<open>
  The transition tables of the billing lifecycle (\<^verbatim>\<open>packages/karma_billing/state_transitions.py\<close>)
  and the two queries on them. A frozenset is a list of its members.

  The lemmas show the shape of the lifecycle that the tables allow: \<open>SETTLED\<close> is the only state
  without a successor, every state a scenario can visit can still be settled, and in every
  scenario but single delegation a task passes through at most as many states as its rank.
\<close>

section \<open>The tables\<close>

fun BILLING_STATE_TRANSITIONS :: "BillingState \<Rightarrow> BillingState list" where
  "BILLING_STATE_TRANSITIONS INITIATED = [INTENT_RECEIVED]"
| "BILLING_STATE_TRANSITIONS INTENT_RECEIVED = [INTENT_VALIDATED]"
| "BILLING_STATE_TRANSITIONS INTENT_VALIDATED = [DELEGATION_ACCEPTED, BID_EVALUATING, PIPELINE_STAGING]"
| "BILLING_STATE_TRANSITIONS DELEGATION_ACCEPTED = [TASK_STARTED]"
| "BILLING_STATE_TRANSITIONS TASK_STARTED = [STEP_IN_PROGRESS, TASK_COMPLETED]"
| "BILLING_STATE_TRANSITIONS STEP_IN_PROGRESS = [STEP_COMPLETED, TASK_COMPLETED]"
| "BILLING_STATE_TRANSITIONS STEP_COMPLETED = [STEP_IN_PROGRESS, TASK_COMPLETED]"
| "BILLING_STATE_TRANSITIONS TASK_COMPLETED = [INVOICE_GENERATED]"
| "BILLING_STATE_TRANSITIONS BID_EVALUATING = [BID_ACCEPTED, INVOICE_GENERATED]"
| "BILLING_STATE_TRANSITIONS BID_ACCEPTED = [TASK_STARTED]"
| "BILLING_STATE_TRANSITIONS PIPELINE_STAGING = [TASK_STARTED, STEP_IN_PROGRESS, TASK_COMPLETED]"
| "BILLING_STATE_TRANSITIONS INVOICE_GENERATED = [PAYMENT_AUTHORIZED, PAYMENT_SETTLING]"
| "BILLING_STATE_TRANSITIONS PAYMENT_AUTHORIZED = [PAYMENT_PENDING, PAYMENT_SETTLING]"
| "BILLING_STATE_TRANSITIONS PAYMENT_PENDING = [PAYMENT_SETTLING]"
| "BILLING_STATE_TRANSITIONS PAYMENT_SETTLING = [SETTLED, REFUND_PENDING]"
| "BILLING_STATE_TRANSITIONS REFUND_PENDING = [SETTLED]"
| "BILLING_STATE_TRANSITIONS SETTLED = []"

definition REQUIRE_IMMEDIATE_ANCHOR :: "BillingState list" where
  "REQUIRE_IMMEDIATE_ANCHOR =
     [INTENT_VALIDATED, TASK_COMPLETED, INVOICE_GENERATED, PAYMENT_AUTHORIZED, SETTLED,
      REFUND_PENDING]"

fun ALLOWED_STATE_PATHS :: "ScenarioType \<Rightarrow> BillingState list list" where
  "ALLOWED_STATE_PATHS S1_DELEGATION =
     [[INITIATED, INTENT_RECEIVED, INTENT_VALIDATED, DELEGATION_ACCEPTED, TASK_STARTED,
       STEP_IN_PROGRESS, STEP_COMPLETED, TASK_COMPLETED, INVOICE_GENERATED,
       PAYMENT_AUTHORIZED, PAYMENT_PENDING, PAYMENT_SETTLING, SETTLED],
      [STEP_COMPLETED, STEP_IN_PROGRESS],
      [STEP_IN_PROGRESS, TASK_COMPLETED],
      [STEP_COMPLETED, TASK_COMPLETED],
      [PAYMENT_AUTHORIZED, PAYMENT_SETTLING]]"
| "ALLOWED_STATE_PATHS S2_BIDDING =
     [[INITIATED, INTENT_RECEIVED, INTENT_VALIDATED, BID_EVALUATING, BID_ACCEPTED,
       TASK_STARTED, STEP_IN_PROGRESS, STEP_COMPLETED, TASK_COMPLETED, INVOICE_GENERATED,
       PAYMENT_AUTHORIZED, PAYMENT_SETTLING, SETTLED],
      [INITIATED, INTENT_RECEIVED, INTENT_VALIDATED, BID_EVALUATING, INVOICE_GENERATED,
       PAYMENT_SETTLING, SETTLED]]"
| "ALLOWED_STATE_PATHS S3_PIPELINE =
     [[INITIATED, INTENT_RECEIVED, INTENT_VALIDATED, PIPELINE_STAGING, STEP_IN_PROGRESS,
       STEP_COMPLETED, TASK_COMPLETED, INVOICE_GENERATED, PAYMENT_AUTHORIZED,
       PAYMENT_SETTLING, SETTLED]]"
| "ALLOWED_STATE_PATHS S4_MULTI_DELEGATION =
     [[INITIATED, INTENT_RECEIVED, INTENT_VALIDATED, DELEGATION_ACCEPTED, TASK_STARTED,
       STEP_IN_PROGRESS, STEP_COMPLETED, TASK_COMPLETED, INVOICE_GENERATED,
       PAYMENT_AUTHORIZED, PAYMENT_SETTLING, SETTLED]]"
| "ALLOWED_STATE_PATHS S5_DATA =
     [[INITIATED, INTENT_RECEIVED, INTENT_VALIDATED, DELEGATION_ACCEPTED, TASK_STARTED,
       TASK_COMPLETED, INVOICE_GENERATED, PAYMENT_AUTHORIZED, PAYMENT_SETTLING, SETTLED]]"
| "ALLOWED_STATE_PATHS S6_CONDITIONAL =
     [[INITIATED, INTENT_RECEIVED, INTENT_VALIDATED, DELEGATION_ACCEPTED, TASK_STARTED,
       TASK_COMPLETED, INVOICE_GENERATED, PAYMENT_AUTHORIZED, PAYMENT_SETTLING, SETTLED]]"
| "ALLOWED_STATE_PATHS S7_RECURRING =
     [[INITIATED, INTENT_RECEIVED, INTENT_VALIDATED, DELEGATION_ACCEPTED, TASK_STARTED,
       TASK_COMPLETED, INVOICE_GENERATED, PAYMENT_AUTHORIZED, PAYMENT_SETTLING, SETTLED]]"
| "ALLOWED_STATE_PATHS S8_DISPUTE =
     [[INITIATED, INTENT_RECEIVED, INTENT_VALIDATED, DELEGATION_ACCEPTED, TASK_STARTED,
       TASK_COMPLETED, INVOICE_GENERATED, PAYMENT_AUTHORIZED, PAYMENT_SETTLING, SETTLED],
      [PAYMENT_SETTLING, REFUND_PENDING, SETTLED]]"
| "ALLOWED_STATE_PATHS S9_INTENT =
     [[INITIATED, INTENT_RECEIVED, INTENT_VALIDATED, DELEGATION_ACCEPTED, TASK_STARTED,
       TASK_COMPLETED, INVOICE_GENERATED, PAYMENT_AUTHORIZED, PAYMENT_SETTLING, SETTLED]]"
| "ALLOWED_STATE_PATHS S10_CROSS_CHAIN =
     [[INITIATED, INTENT_RECEIVED, INTENT_VALIDATED, DELEGATION_ACCEPTED, TASK_STARTED,
       TASK_COMPLETED, INVOICE_GENERATED, PAYMENT_AUTHORIZED, PAYMENT_SETTLING, SETTLED]]"

section \<open>The queries\<close>

definition get_legal_targets :: "BillingState \<Rightarrow> BillingState list" where
  "get_legal_targets from_state = BILLING_STATE_TRANSITIONS from_state"

text \<open>The loop body of \<open>is_transition_allowed\<close> on one path: the successor of the first
  occurrence of \<open>from_state\<close>, if there is one, is \<open>to_state\<close>.\<close>

definition on_path :: "BillingState \<Rightarrow> BillingState \<Rightarrow> BillingState list \<Rightarrow> bool" where
  "on_path from_state to_state path =
     (case list_index path from_state of
        None \<Rightarrow> False
      | Some idx \<Rightarrow> idx + 1 < length path \<and> path ! (idx + 1) = to_state)"

definition is_transition_allowed :: "ScenarioType \<Rightarrow> BillingState \<Rightarrow> BillingState \<Rightarrow> bool" where
  "is_transition_allowed scenario from_state to_state =
     (if to_state \<notin> set (BILLING_STATE_TRANSITIONS from_state) then False
      else list_ex (on_path from_state to_state) (ALLOWED_STATE_PATHS scenario))"

lemmas transition_defs [billing_defs] =
  get_legal_targets_def on_path_def is_transition_allowed_def REQUIRE_IMMEDIATE_ANCHOR_def

section \<open>The path table and the global table agree\<close>

text \<open>Consecutive entries of a list, at any of its positions.\<close>

fun adjacent :: "'a list \<Rightarrow> ('a \<times> 'a) list" where
  "adjacent (x # y # zs) = (x, y) # adjacent (y # zs)"
| "adjacent _ = []"

lemma adjacent_iff: "(a, b) \<in> set (adjacent xs) \<longleftrightarrow> (\<exists>us vs. xs = us @ a # b # vs)"
proof (induction xs rule: adjacent.induct)
  case (1 x y zs)
  have "(\<exists>us vs. x # y # zs = us @ a # b # vs)
      \<longleftrightarrow> (a = x \<and> b = y) \<or> (\<exists>us vs. y # zs = us @ a # b # vs)"
    by (auto simp: Cons_eq_append_conv)
  with 1 show ?case by auto
qed (auto simp: Cons_eq_append_conv)

lemma adjacent_mem: "(a, b) \<in> set (adjacent xs) \<Longrightarrow> a \<in> set xs \<and> b \<in> set xs"
  by (induction xs rule: adjacent.induct) auto

lemma on_path_adjacent:
  assumes "distinct path"
  shows "on_path s t path \<longleftrightarrow> (s, t) \<in> set (adjacent path)"
  using assms
proof (induction path rule: adjacent.induct)
  case (1 x y zs)
  show ?case
  proof (cases "x = s")
    case True
    with 1(2) have "(s, t) \<notin> set (adjacent (y # zs))"
      using adjacent_mem [of s t "y # zs"] by auto
    with True show ?thesis by (auto simp: on_path_def)
  next
    case False
    with 1 show ?thesis
      by (auto simp: on_path_def option.case_eq_if split: if_splits option.splits)
  qed
qed (auto simp: on_path_def split: option.splits)

lemma paths_distinct: "path \<in> set (ALLOWED_STATE_PATHS sc) \<Longrightarrow> distinct path"
  by (cases sc) auto

lemma paths_in_map:
  "path \<in> set (ALLOWED_STATE_PATHS sc) \<Longrightarrow> (s, t) \<in> set (adjacent path)
   \<Longrightarrow> t \<in> set (BILLING_STATE_TRANSITIONS s)"
  by (cases sc) auto

lemma allowed_iff_adjacent:
  "is_transition_allowed sc s t \<longleftrightarrow> (\<exists>path \<in> set (ALLOWED_STATE_PATHS sc). (s, t) \<in> set (adjacent path))"
  using paths_distinct [of _ sc] paths_in_map [of _ sc s t] on_path_adjacent [of _ s t]
  by (auto simp: is_transition_allowed_def list_ex_iff)

lemma allowed_legal: "is_transition_allowed sc s t \<Longrightarrow> t \<in> set (BILLING_STATE_TRANSITIONS s)"
  by (simp add: is_transition_allowed_def split: if_splits)

section \<open>Every run ends, and every task can be settled\<close>

text \<open>The rank of a state: the length of the longest way from it to \<open>SETTLED\<close> that does not
  go back from a completed step to the next one.\<close>

fun state_rank :: "BillingState \<Rightarrow> nat" where
  "state_rank INITIATED = 14"
| "state_rank INTENT_RECEIVED = 13"
| "state_rank INTENT_VALIDATED = 12"
| "state_rank BID_EVALUATING = 11"
| "state_rank BID_ACCEPTED = 10"
| "state_rank DELEGATION_ACCEPTED = 10"
| "state_rank PIPELINE_STAGING = 10"
| "state_rank TASK_STARTED = 9"
| "state_rank STEP_IN_PROGRESS = 8"
| "state_rank STEP_COMPLETED = 7"
| "state_rank TASK_COMPLETED = 6"
| "state_rank INVOICE_GENERATED = 5"
| "state_rank PAYMENT_AUTHORIZED = 4"
| "state_rank PAYMENT_PENDING = 3"
| "state_rank PAYMENT_SETTLING = 2"
| "state_rank REFUND_PENDING = 1"
| "state_rank SETTLED = 0"

definition legal_edge :: "BillingState \<Rightarrow> BillingState \<Rightarrow> bool" where
  "legal_edge s t \<longleftrightarrow> t \<in> set (get_legal_targets s)"

definition next_step :: "BillingState \<Rightarrow> BillingState \<Rightarrow> bool" where
  "next_step s t \<longleftrightarrow> s = STEP_COMPLETED \<and> t = STEP_IN_PROGRESS"

interpretation billing_map: absorbing legal_edge SETTLED
  by unfold_locales (simp add: legal_edge_def get_legal_targets_def)

interpretation billing_map: loop_ranked legal_edge state_rank next_step
proof
  fix s t assume e: "legal_edge s t"
  show "\<not> next_step s t \<Longrightarrow> state_rank t < state_rank s"
    using e by (cases s) (auto simp: legal_edge_def get_legal_targets_def next_step_def)
  show "next_step s t \<Longrightarrow> state_rank t \<le> state_rank s + 1"
    by (auto simp: next_step_def)
qed

lemma allowed_edge: "is_transition_allowed sc s t \<Longrightarrow> legal_edge s t"
  by (simp add: legal_edge_def get_legal_targets_def allowed_legal)

lemma next_step_only_S1: "is_transition_allowed sc s t \<Longrightarrow> next_step s t \<Longrightarrow> sc = S1_DELEGATION"
  by (cases sc) (auto simp: allowed_iff_adjacent next_step_def)

lemma scenario_ranked: "sc \<noteq> S1_DELEGATION \<Longrightarrow> ranked (is_transition_allowed sc) state_rank"
  using next_step_only_S1 [of sc] allowed_edge [of sc] billing_map.forward_less
  by unfold_locales blast

text \<open>The states that a scenario can visit.\<close>

definition scenario_states :: "ScenarioType \<Rightarrow> BillingState list" where
  "scenario_states sc = concat (ALLOWED_STATE_PATHS sc)"

lemma next_on_path:
  "s \<in> set (scenario_states sc) \<Longrightarrow> s \<noteq> SETTLED \<Longrightarrow>
   list_ex (\<lambda>t. is_transition_allowed sc s t \<and> t \<in> set (scenario_states sc) \<and> \<not> next_step s t)
     (BILLING_STATE_TRANSITIONS s)"
  by (cases sc; cases s; simp add: scenario_states_def allowed_iff_adjacent next_step_def)

lemma scenario_completable:
  "completable (is_transition_allowed sc) (\<lambda>s. s \<in> set (scenario_states sc)) state_rank SETTLED"
proof
  fix s assume "s \<in> set (scenario_states sc)" "s \<noteq> SETTLED"
  from next_on_path [OF this] obtain t where "is_transition_allowed sc s t"
    "t \<in> set (scenario_states sc)" "\<not> next_step s t"
    by (auto simp: list_ex_iff)
  with billing_map.forward_less [OF allowed_edge]
  show "\<exists>t. is_transition_allowed sc s t \<and> t \<in> set (scenario_states sc) \<and> state_rank t < state_rank s"
    by blast
qed

section \<open>Properties\<close>

text \<open>A transition is allowed in a scenario exactly when its two states are consecutive, at
  whatever position, on one of the scenario's paths: looking only at the first occurrence of the
  current state loses nothing, and no path leaves the global transition map.\<close>

lemma allowed_iff_consecutive:
  "is_transition_allowed sc s t \<longleftrightarrow>
   (\<exists>path us vs. path \<in> set (ALLOWED_STATE_PATHS sc) \<and> path = us @ s # t # vs)"
  using allowed_iff_adjacent [of sc s t] adjacent_iff [of s t] by auto



text \<open>C25. No billing task can get stuck: from every state that a scenario can visit, some sequence
  of at most 14 transitions allowed in that scenario leads to \<open>SETTLED\<close>.\<close>

theorem scenario_can_settle:
  assumes "s \<in> set (scenario_states sc)"
  shows "\<exists>ts. follows (is_transition_allowed sc) s ts \<and> last (s # ts) = SETTLED \<and> length ts \<le> 14"
proof -
  have "state_rank s \<le> 14" by (cases s) simp_all
  with completable.reaches_goal [OF scenario_completable assms] show ?thesis
    by (meson order_trans)
qed

theorem scenario_can_settle_witness:
  "\<exists>ts. follows (is_transition_allowed S8_DISPUTE) REFUND_PENDING ts
     \<and> last (REFUND_PENDING # ts) = SETTLED \<and> length ts \<le> 14"
  by (rule scenario_can_settle) (simp add: scenario_states_def)

end
