(* ===== verification/Billing_Machine.thy ===== *)
theory Billing_Machine
  imports Billing_Transitions
begin

text \<open>
  The enforcement core of billing (\<^verbatim>\<open>packages/karma_billing/state_machine.py\<close>): the in-memory
  audit log and \<^verbatim>\<open>ImmutableBillingStateMachine\<close>, whose state is a record of its dicts and of
  the log it writes. \<open>execute_transition\<close> returns the exception or the record together with
  the machine afterwards, which the code has changed also on its error path. The per-task
  lock makes a call one atomic step; the uuid and the clock of a record are arguments.

  \<open>mstep\<close> is one call of the public interface. The lemmas interpret the contract \<open>audited\<close>:
  whatever calls are made, the log of a task is a run of legal transitions from \<open>INITIATED\<close> to
  the task's state, and it only grows.
\<close>

section \<open>The audit log\<close>

record security_event =
  ev_type :: string
  ev_severity :: string
  ev_task_id :: string
  ev_details :: "(string \<times> string) list"

record InMemoryAuditLog =
  al_transitions :: "StateTransitionRecord list"
  al_security_events :: "security_event list"

definition log_security_event ::
  "string \<Rightarrow> string \<Rightarrow> string \<Rightarrow> (string \<times> string) list \<Rightarrow> InMemoryAuditLog \<Rightarrow> InMemoryAuditLog" where
  "log_security_event event_type severity task_id details l =
     l\<lparr>al_security_events := al_security_events l @
        [\<lparr>ev_type = event_type, ev_severity = severity, ev_task_id = task_id, ev_details = details\<rparr>]\<rparr>"

definition log_transition :: "StateTransitionRecord \<Rightarrow> InMemoryAuditLog \<Rightarrow> InMemoryAuditLog" where
  "log_transition r l = l\<lparr>al_transitions := al_transitions l @ [r]\<rparr>"

section \<open>The machine\<close>

record ImmutableBillingStateMachine =
  bm_audit_log :: InMemoryAuditLog
  bm_task_states :: "string \<rightharpoonup> BillingState"
  bm_task_scenarios :: "string \<rightharpoonup> ScenarioType"
  bm_task_receipts :: "string \<rightharpoonup> string set"

definition create_state_machine :: ImmutableBillingStateMachine where
  "create_state_machine =
     \<lparr>bm_audit_log = \<lparr>al_transitions = [], al_security_events = []\<rparr>,
      bm_task_states = Map.empty, bm_task_scenarios = Map.empty, bm_task_receipts = Map.empty\<rparr>"

datatype machine_error =
    IllegalStateTransitionError string BillingState BillingState ScenarioType
  | ConcurrentTransitionError string BillingState BillingState

definition is_receipt_valid :: "ImmutableBillingStateMachine \<Rightarrow> string \<Rightarrow> string \<Rightarrow> bool" where
  "is_receipt_valid m task_id receipt_id =
     (case bm_task_receipts m task_id of None \<Rightarrow> False | Some receipts \<Rightarrow> receipt_id \<in> receipts)"

definition log_event ::
  "string \<Rightarrow> string \<Rightarrow> string \<Rightarrow> (string \<times> string) list \<Rightarrow> ImmutableBillingStateMachine
   \<Rightarrow> ImmutableBillingStateMachine" where
  "log_event ty sev task_id details m =
     m\<lparr>bm_audit_log := log_security_event ty sev task_id details (bm_audit_log m)\<rparr>"

definition validate_transition ::
  "string \<Rightarrow> ScenarioType \<Rightarrow> BillingState \<Rightarrow> BillingState \<Rightarrow> string \<Rightarrow> string
   \<Rightarrow> ImmutableBillingStateMachine \<Rightarrow> bool \<times> ImmutableBillingStateMachine" where
  "validate_transition task_id scenario from_state to_state receipt_id did m =
     (if to_state \<notin> set (BILLING_STATE_TRANSITIONS from_state) then
        (False, log_event ''ILLEGAL_TRANSITION_ATTEMPT'' ''CRITICAL'' task_id
           [(''from_state'', state_value from_state), (''to_state'', state_value to_state),
            (''triggered_by_receipt_id'', receipt_id), (''triggered_by_did'', did),
            (''reason'', ''Transition not in global transition map'')] m)
      else if \<not> is_transition_allowed scenario from_state to_state then
        (False, log_event ''ILLEGAL_TRANSITION_ATTEMPT'' ''CRITICAL'' task_id
           [(''from_state'', state_value from_state), (''to_state'', state_value to_state),
            (''scenario'', scenario_value scenario),
            (''triggered_by_receipt_id'', receipt_id), (''triggered_by_did'', did),
            (''reason'', ''Transition not on any allowed path for scenario'')] m)
      else if \<not> is_receipt_valid m task_id receipt_id then
        (False, log_event ''INVALID_RECEIPT'' ''CRITICAL'' task_id
           [(''receipt_id'', receipt_id),
            (''reason'', ''Receipt not found or not associated with this task'')] m)
      else (True, m))"

text \<open>The first transition of a task registers it as \<open>INITIATED\<close> under the given scenario.\<close>

definition ensure_task ::
  "string \<Rightarrow> ScenarioType \<Rightarrow> ImmutableBillingStateMachine
   \<Rightarrow> BillingState \<times> ImmutableBillingStateMachine" where
  "ensure_task task_id scenario m =
     (case bm_task_states m task_id of
        Some s \<Rightarrow> (s, m)
      | None \<Rightarrow>
          (INITIATED,
           m\<lparr>bm_task_states := (bm_task_states m)(task_id \<mapsto> INITIATED),
             bm_task_scenarios := (bm_task_scenarios m)(task_id \<mapsto> scenario),
             bm_task_receipts :=
               (if bm_task_receipts m task_id = None
                then (bm_task_receipts m)(task_id \<mapsto> {}) else bm_task_receipts m)\<rparr>))"

definition execute_transition ::
  "string \<Rightarrow> datetime \<Rightarrow> string \<Rightarrow> ScenarioType \<Rightarrow> BillingState \<Rightarrow> string \<Rightarrow> string
   \<Rightarrow> ImmutableBillingStateMachine
   \<Rightarrow> (machine_error + StateTransitionRecord) \<times> ImmutableBillingStateMachine" where
  "execute_transition uuid now task_id scenario to_state receipt_id did m =
     (let (from_state, m1) = ensure_task task_id scenario m;
          (is_valid, m2) = validate_transition task_id scenario from_state to_state receipt_id did m1
      in if \<not> is_valid then
           (Inl (IllegalStateTransitionError task_id from_state to_state scenario), m2)
         else
           let r = \<lparr>st_record_id = uuid, st_task_id = task_id, st_from_state = from_state,
                     st_to_state = to_state, st_triggered_by_receipt_id = receipt_id,
                     st_triggered_by_did = did, st_timestamp = now\<rparr>;
               m3 = m2\<lparr>bm_audit_log := log_transition r (bm_audit_log m2),
                       bm_task_states := (bm_task_states m2)(task_id \<mapsto> to_state)\<rparr>;
               needs_anchor = to_state \<in> set REQUIRE_IMMEDIATE_ANCHOR;
               m4 = (if needs_anchor
                     then log_event ''ANCHOR_REQUIRED'' ''INFO'' task_id
                            [(''state'', state_value to_state),
                             (''reason'', ''State requires immediate on-chain anchoring'')] m3
                     else m3)
           in (Inr r, m4))"

section \<open>Queries and registration\<close>

definition get_current_state :: "ImmutableBillingStateMachine \<Rightarrow> string \<Rightarrow> BillingState option" where
  "get_current_state m task_id = bm_task_states m task_id"

definition get_scenario :: "ImmutableBillingStateMachine \<Rightarrow> string \<Rightarrow> ScenarioType option" where
  "get_scenario m task_id = bm_task_scenarios m task_id"

definition get_snapshot :: "ImmutableBillingStateMachine \<Rightarrow> string \<Rightarrow> BillingSnapshot option" where
  "get_snapshot m task_id =
     (case bm_task_states m task_id of
        None \<Rightarrow> None
      | Some state \<Rightarrow>
          let scenario = (case bm_task_scenarios m task_id of Some s \<Rightarrow> s | None \<Rightarrow> S1_DELEGATION);
              receipt_ids = (case bm_task_receipts m task_id of Some rs \<Rightarrow> rs | None \<Rightarrow> {});
              anchored_count = card receipt_ids;
              paths = ALLOWED_STATE_PATHS scenario;
              primary_path = (case paths of p # _ \<Rightarrow> p | [] \<Rightarrow> []);
              current_step = (case list_index primary_path state of Some i \<Rightarrow> i + 1 | None \<Rightarrow> 0);
              total_steps = length primary_path;
              progress = (if total_steps > 0
                          then of_nat current_step / of_nat total_steps * 100 else 0 :: rat)
          in Some \<lparr>bs_task_id = task_id, bs_scenario = scenario, bs_billing_state = state,
                bs_current_step = current_step, bs_total_steps_estimated = total_steps,
                bs_cost_accrued_usdc = 0, bs_total_budget_usdc = 0,
                bs_progress_percent = of_int (round (progress * 100)) / 100,
                bs_anchored_receipts = anchored_count, bs_latest_merkle_root = None,
                bs_last_anchor_tx = None\<rparr>)"

definition register_receipt ::
  "string \<Rightarrow> string \<Rightarrow> ImmutableBillingStateMachine \<Rightarrow> ImmutableBillingStateMachine" where
  "register_receipt task_id receipt_id m =
     m\<lparr>bm_task_receipts := (bm_task_receipts m)
        (task_id \<mapsto> insert receipt_id (case bm_task_receipts m task_id of Some rs \<Rightarrow> rs | None \<Rightarrow> {}))\<rparr>"

lemmas machine_defs [billing_defs] =
  log_security_event_def log_transition_def log_event_def create_state_machine_def
  is_receipt_valid_def ensure_task_def register_receipt_def get_current_state_def get_scenario_def

section \<open>The effect of a call\<close>

text \<open>The state of a task, \<open>INITIATED\<close> before its first transition, and the transitions logged
  for it.\<close>

definition task_state :: "ImmutableBillingStateMachine \<Rightarrow> string \<Rightarrow> BillingState" where
  "task_state m task_id = (case bm_task_states m task_id of Some s \<Rightarrow> s | None \<Rightarrow> INITIATED)"

definition history :: "ImmutableBillingStateMachine \<Rightarrow> StateTransitionRecord list" where
  "history m = al_transitions (bm_audit_log m)"

definition security_events :: "ImmutableBillingStateMachine \<Rightarrow> security_event list" where
  "security_events m = al_security_events (bm_audit_log m)"

definition task_log :: "ImmutableBillingStateMachine \<Rightarrow> string \<Rightarrow> (BillingState \<times> BillingState) list" where
  "task_log m task_id =
     map (\<lambda>r. (st_from_state r, st_to_state r)) (filter (\<lambda>r. st_task_id r = task_id) (history m))"

lemma validate_result:
  "fst (validate_transition t sc f to rid did m) \<longleftrightarrow>
   is_transition_allowed sc f to \<and> is_receipt_valid m t rid"
  using allowed_legal [of sc f to] by (auto simp: validate_transition_def)

lemma validate_keeps:
  "bm_task_states (snd (validate_transition t sc f to rid did m)) = bm_task_states m"
  "bm_task_scenarios (snd (validate_transition t sc f to rid did m)) = bm_task_scenarios m"
  "bm_task_receipts (snd (validate_transition t sc f to rid did m)) = bm_task_receipts m"
  "history (snd (validate_transition t sc f to rid did m)) = history m"
  by (simp_all add: validate_transition_def log_event_def log_security_event_def history_def)

lemma validate_events:
  "fst (validate_transition t sc f to rid did m) \<Longrightarrow>
   snd (validate_transition t sc f to rid did m) = m"
  "\<not> fst (validate_transition t sc f to rid did m) \<Longrightarrow>
   \<exists>e. security_events (snd (validate_transition t sc f to rid did m)) = security_events m @ [e]
     \<and> ev_severity e = ''CRITICAL'' \<and> ev_task_id e = t"
  by (auto simp: validate_transition_def log_event_def log_security_event_def security_events_def
      split: if_splits)

lemma ensure_task_state: "fst (ensure_task t sc m) = task_state m t"
  by (simp add: ensure_task_def task_state_def split: option.splits)

lemma ensure_task_keeps:
  "task_state (snd (ensure_task t sc m)) u = task_state m u"
  "history (snd (ensure_task t sc m)) = history m"
  "security_events (snd (ensure_task t sc m)) = security_events m"
  "is_receipt_valid (snd (ensure_task t sc m)) u rid = is_receipt_valid m u rid"
  "bm_task_states (snd (ensure_task t sc m)) t = Some (task_state m t)"
  by (auto simp: ensure_task_def task_state_def history_def security_events_def is_receipt_valid_def
      split: option.splits)

lemma execute_unfold:
  "execute_transition uuid now t sc to rid did m =
     (let m1 = snd (ensure_task t sc m);
          v = validate_transition t sc (task_state m t) to rid did m1
      in if \<not> fst v then (Inl (IllegalStateTransitionError t (task_state m t) to sc), snd v)
         else
           let r = \<lparr>st_record_id = uuid, st_task_id = t, st_from_state = task_state m t,
                     st_to_state = to, st_triggered_by_receipt_id = rid,
                     st_triggered_by_did = did, st_timestamp = now\<rparr>;
               m3 = m1\<lparr>bm_audit_log := log_transition r (bm_audit_log m1),
                       bm_task_states := (bm_task_states m1)(t \<mapsto> to)\<rparr>
           in (Inr r, if to \<in> set REQUIRE_IMMEDIATE_ANCHOR
                     then log_event ''ANCHOR_REQUIRED'' ''INFO'' t
                            [(''state'', state_value to),
                             (''reason'', ''State requires immediate on-chain anchoring'')] m3
                     else m3))"
  using validate_events(1) [of t sc "task_state m t" to rid did "snd (ensure_task t sc m)"]
  by (simp add: execute_transition_def Let_def case_prod_beta ensure_task_state)

definition accepted ::
  "string \<Rightarrow> ScenarioType \<Rightarrow> BillingState \<Rightarrow> string \<Rightarrow> ImmutableBillingStateMachine \<Rightarrow> bool" where
  "accepted t sc to rid m \<longleftrightarrow> is_transition_allowed sc (task_state m t) to \<and> is_receipt_valid m t rid"

lemma validate_accepted:
  "fst (validate_transition t sc (task_state m t) to rid did (snd (ensure_task t sc m)))
   = accepted t sc to rid m"
  by (simp add: validate_result accepted_def ensure_task_keeps)

lemma execute_accepted:
  assumes "accepted t sc to rid m"
    and "execute_transition uuid now t sc to rid did m = (res, m')"
  shows "\<exists>r. res = Inr r \<and> history m' = history m @ [r] \<and> st_task_id r = t \<and>
      st_from_state r = task_state m t \<and> st_to_state r = to \<and>
      st_triggered_by_receipt_id r = rid \<and> st_triggered_by_did r = did \<and>
      (\<forall>u. task_state m' u = (if u = t then to else task_state m u)) \<and>
      security_events m' = security_events m @
        (if to \<in> set REQUIRE_IMMEDIATE_ANCHOR
         then [\<lparr>ev_type = ''ANCHOR_REQUIRED'', ev_severity = ''INFO'', ev_task_id = t,
                ev_details = [(''state'', state_value to),
                  (''reason'', ''State requires immediate on-chain anchoring'')]\<rparr>] else [])"
proof -
  let ?m1 = "snd (ensure_task t sc m)"
  let ?r = "\<lparr>st_record_id = uuid, st_task_id = t, st_from_state = task_state m t, st_to_state = to,
    st_triggered_by_receipt_id = rid, st_triggered_by_did = did, st_timestamp = now\<rparr>"
  let ?m3 = "?m1\<lparr>bm_audit_log := log_transition ?r (bm_audit_log ?m1),
    bm_task_states := (bm_task_states ?m1)(t \<mapsto> to)\<rparr>"
  have res: "res = Inr ?r"
    and m': "m' = (if to \<in> set REQUIRE_IMMEDIATE_ANCHOR
        then log_event ''ANCHOR_REQUIRED'' ''INFO'' t
          [(''state'', state_value to), (''reason'', ''State requires immediate on-chain anchoring'')] ?m3
        else ?m3)"
    using assms by (simp_all add: execute_unfold Let_def validate_accepted)
  have "bm_task_states m' = (bm_task_states ?m1)(t \<mapsto> to)"
    by (simp add: m' log_event_def)
  then have "task_state m' u = (if u = t then to else task_state m u)" for u
    using ensure_task_keeps(1) [of t sc m u] by (simp add: task_state_def)
  moreover have "history m' = history m @ [?r]"
    using ensure_task_keeps(2) [of t sc m]
    by (simp add: m' history_def log_event_def log_security_event_def log_transition_def)
  moreover have "security_events m' = security_events m @
        (if to \<in> set REQUIRE_IMMEDIATE_ANCHOR
         then [\<lparr>ev_type = ''ANCHOR_REQUIRED'', ev_severity = ''INFO'', ev_task_id = t,
                ev_details = [(''state'', state_value to),
                  (''reason'', ''State requires immediate on-chain anchoring'')]\<rparr>] else [])"
    using ensure_task_keeps(3) [of t sc m]
    by (simp add: m' security_events_def log_event_def log_security_event_def log_transition_def)
  ultimately show ?thesis using res by simp
qed

lemma execute_rejected:
  assumes "\<not> accepted t sc to rid m"
    and "execute_transition uuid now t sc to rid did m = (res, m')"
  shows "res = Inl (IllegalStateTransitionError t (task_state m t) to sc) \<and>
      (\<forall>u. task_state m' u = task_state m u) \<and> history m' = history m \<and>
      (\<exists>e. security_events m' = security_events m @ [e] \<and> ev_severity e = ''CRITICAL'' \<and> ev_task_id e = t)"
proof -
  let ?m1 = "snd (ensure_task t sc m)"
  let ?v = "validate_transition t sc (task_state m t) to rid did ?m1"
  have v: "\<not> fst ?v" using assms(1) by (simp add: validate_accepted)
  with assms(2) have "res = Inl (IllegalStateTransitionError t (task_state m t) to sc)" "m' = snd ?v"
    by (simp_all add: execute_unfold Let_def)
  moreover have "task_state (snd ?v) u = task_state m u" for u
    using ensure_task_keeps(1) [of t sc m u] by (simp add: task_state_def validate_keeps)
  moreover have "history (snd ?v) = history m" by (simp add: validate_keeps ensure_task_keeps)
  ultimately show ?thesis
    using validate_events(2) [OF v] by (simp add: ensure_task_keeps)
qed

section \<open>Calls as steps\<close>

text \<open>One call of the public interface. The callers choose the scenario of each call on their
  own; \<open>mstep_as plan\<close> are the calls of clients that keep to one scenario per task.\<close>

inductive mstep :: "ImmutableBillingStateMachine \<Rightarrow> ImmutableBillingStateMachine \<Rightarrow> bool" where
  register: "mstep m (register_receipt task_id receipt_id m)"
| validate: "mstep m (snd (validate_transition task_id sc from_state to_state receipt_id did m))"
| execute: "mstep m (snd (execute_transition uuid now task_id sc to_state receipt_id did m))"

inductive mstep_as ::
  "(string \<Rightarrow> ScenarioType) \<Rightarrow> ImmutableBillingStateMachine \<Rightarrow> ImmutableBillingStateMachine \<Rightarrow> bool"
  for plan where
  register_as: "mstep_as plan m (register_receipt task_id receipt_id m)"
| validate_as: "mstep_as plan m
    (snd (validate_transition task_id sc from_state to_state receipt_id did m))"
| execute_as: "mstep_as plan m
    (snd (execute_transition uuid now task_id (plan task_id) to_state receipt_id did m))"

lemma register_keeps:
  "task_state (register_receipt t rid m) = task_state m"
  "history (register_receipt t rid m) = history m"
  by (simp_all add: register_receipt_def task_state_def history_def fun_eq_iff)

lemma execute_step:
  fixes m uuid now t sc to rid did
  defines "m' \<equiv> snd (execute_transition uuid now t sc to rid did m)"
  shows "task_log m' u = task_log m u \<and> task_state m' u = task_state m u
       \<or> u = t \<and> task_log m' u = task_log m u @ [(task_state m u, task_state m' u)]
         \<and> is_transition_allowed sc (task_state m u) (task_state m' u)"
proof (cases "accepted t sc to rid m")
  case True
  from execute_accepted [OF True, of uuid now did "fst (execute_transition uuid now t sc to rid did m)" m']
  obtain r where "history m' = history m @ [r]" "st_task_id r = t" "st_from_state r = task_state m t"
    "st_to_state r = to" "\<forall>u. task_state m' u = (if u = t then to else task_state m u)"
    by (auto simp: m'_def)
  with True show ?thesis by (simp add: task_log_def accepted_def)
next
  case False
  from execute_rejected [OF False, of uuid now did "fst (execute_transition uuid now t sc to rid did m)" m']
  show ?thesis by (simp add: m'_def task_log_def)
qed

lemma mstep_cases:
  assumes "mstep m m'"
  shows "task_log m' u = task_log m u \<and> task_state m' u = task_state m u
       \<or> task_log m' u = task_log m u @ [(task_state m u, task_state m' u)]
         \<and> legal_edge (task_state m u) (task_state m' u)"
  using assms
proof cases
  case (execute uuid now t sc to rid did)
  then show ?thesis
    using execute_step [where m = m and u = u and uuid = uuid and now = now and t = t and sc = sc
        and to = to and rid = rid and did = did] allowed_edge by blast
qed (simp_all add: task_log_def task_state_def register_keeps [unfolded task_state_def] validate_keeps
     register_keeps)

lemma mstep_as_cases:
  assumes "mstep_as plan m m'"
  shows "task_log m' u = task_log m u \<and> task_state m' u = task_state m u
       \<or> task_log m' u = task_log m u @ [(task_state m u, task_state m' u)]
         \<and> is_transition_allowed (plan u) (task_state m u) (task_state m' u)"
  using assms
proof cases
  case (execute_as uuid now t to rid did)
  then show ?thesis
    using execute_step [where m = m and u = u and uuid = uuid and now = now and t = t
        and sc = "plan t" and to = to and rid = rid and did = did] by blast
qed (simp_all add: task_log_def task_state_def register_keeps [unfolded task_state_def] validate_keeps
     register_keeps)

lemma created_empty:
  "task_state create_state_machine u = INITIATED" "task_log create_state_machine u = []"
  by (simp_all add: create_state_machine_def task_state_def task_log_def history_def)

interpretation billing: audited "\<lambda>u. legal_edge" INITIATED task_state task_log mstep create_state_machine
  by unfold_locales (simp_all add: created_empty mstep_cases)

interpretation planned: audited "\<lambda>u. is_transition_allowed (plan u)" INITIATED task_state task_log
    "mstep_as plan" create_state_machine for plan
  by unfold_locales (simp_all add: created_empty mstep_as_cases)

section \<open>The receipts behind the history\<close>

definition receipts_known :: "ImmutableBillingStateMachine \<Rightarrow> bool" where
  "receipts_known m \<longleftrightarrow>
     list_all (\<lambda>r. is_receipt_valid m (st_task_id r) (st_triggered_by_receipt_id r)) (history m)"

lemma receipts_persist: "mstep m m' \<Longrightarrow> is_receipt_valid m t rid \<Longrightarrow> is_receipt_valid m' t rid"
proof (induction rule: mstep.induct)
  case (register m task_id receipt_id)
  then show ?case by (auto simp: register_receipt_def is_receipt_valid_def split: option.splits)
next
  case (validate m task_id sc from_state to_state receipt_id did)
  then show ?case by (simp add: is_receipt_valid_def validate_keeps)
next
  case (execute m uuid now task_id sc to_state receipt_id did)
  have "bm_task_receipts (snd (execute_transition uuid now task_id sc to_state receipt_id did m))
      = bm_task_receipts (snd (ensure_task task_id sc m))"
    by (simp add: execute_unfold Let_def validate_keeps log_event_def)
  with execute ensure_task_keeps(4) [of task_id sc m t rid] show ?case
    by (simp add: is_receipt_valid_def)
qed

lemma mstep_history:
  assumes "mstep m m'"
  shows "history m' = history m \<or>
    (\<exists>r. history m' = history m @ [r] \<and> is_receipt_valid m (st_task_id r) (st_triggered_by_receipt_id r))"
  using assms
proof cases
  case (execute uuid now t sc to rid did)
  show ?thesis
  proof (cases "accepted t sc to rid m")
    case True
    with execute_accepted [OF True, of uuid now did _ m'] execute show ?thesis
      by (metis accepted_def prod.collapse)
  next
    case False
    with execute_rejected [OF False, of uuid now did _ m'] execute show ?thesis
      by (metis prod.collapse)
  qed
qed (simp_all add: register_keeps validate_keeps)

lemma receipts_known_step: "mstep m m' \<Longrightarrow> receipts_known m \<Longrightarrow> receipts_known m'"
  using mstep_history [of m m'] receipts_persist [of m m']
  by (fastforce simp: receipts_known_def list_all_iff)

lemma receipts_known_reachable: "mstep\<^sup>*\<^sup>* create_state_machine m \<Longrightarrow> receipts_known m"
  by (induction rule: rtranclp_induct)
    (simp_all add: receipts_known_step, simp add: receipts_known_def history_def create_state_machine_def)

section \<open>Properties\<close>

text \<open>\<open>execute_transition\<close> does what the five rules of the module say. If the transition is on a
  path of the scenario and the receipt is registered for the task, exactly one record is appended to
  the history, only that task's state changes, and an \<open>ANCHOR_REQUIRED\<close> event is written exactly
  for the states that need immediate anchoring. Otherwise the call raises, no task's state and no
  part of the history changes, and exactly one CRITICAL event is written for the task.\<close>

lemma execute_transition_spec:
  assumes "execute_transition uuid now t sc to rid did m = (res, m')"
  shows "if is_transition_allowed sc (task_state m t) to \<and> is_receipt_valid m t rid
     then \<exists>r. res = Inr r \<and> history m' = history m @ [r] \<and> st_task_id r = t \<and>
      st_from_state r = task_state m t \<and> st_to_state r = to \<and>
      st_triggered_by_receipt_id r = rid \<and> st_triggered_by_did r = did \<and>
      (\<forall>u. task_state m' u = (if u = t then to else task_state m u)) \<and>
      security_events m' = security_events m @
        (if to \<in> set REQUIRE_IMMEDIATE_ANCHOR
         then [\<lparr>ev_type = ''ANCHOR_REQUIRED'', ev_severity = ''INFO'', ev_task_id = t,
                ev_details = [(''state'', state_value to),
                  (''reason'', ''State requires immediate on-chain anchoring'')]\<rparr>] else [])
     else res = Inl (IllegalStateTransitionError t (task_state m t) to sc) \<and>
      (\<forall>u. task_state m' u = task_state m u) \<and> history m' = history m \<and>
      (\<exists>e. security_events m' = security_events m @ [e] \<and> ev_severity e = ''CRITICAL'' \<and> ev_task_id e = t)"
  using execute_accepted [OF _ assms] execute_rejected [OF _ assms] by (simp add: accepted_def)

text \<open>C4. Whatever calls are made on a new machine, in whatever order and with whatever arguments,
  the history of every task is a run of legal transitions that starts in \<open>INITIATED\<close> and ends in
  the task's current state, and every record of the history was triggered by a receipt that is
  registered for its task.\<close>

theorem history_is_legal_run:
  assumes "mstep\<^sup>*\<^sup>* create_state_machine m"
  shows "chain legal_edge INITIATED (task_log m t) \<and> chain_end INITIATED (task_log m t) = task_state m t
    \<and> list_all (\<lambda>r. is_receipt_valid m (st_task_id r) (st_triggered_by_receipt_id r)) (history m)"
  using billing.log_is_run [OF assms, of t] receipts_known_reachable [OF assms]
  by (simp_all add: receipts_known_def)

theorem history_is_legal_run_witness:
  "mstep\<^sup>*\<^sup>* create_state_machine (register_receipt ''t1'' ''r1'' create_state_machine)
   \<and> chain_end INITIATED (task_log (register_receipt ''t1'' ''r1'' create_state_machine) ''t1'')
     = task_state (register_receipt ''t1'' ''r1'' create_state_machine) ''t1''"
proof -
  have "mstep\<^sup>*\<^sup>* create_state_machine (register_receipt ''t1'' ''r1'' create_state_machine)"
    by (rule r_into_rtranclp) (rule mstep.register)
  with history_is_legal_run [of "register_receipt ''t1'' ''r1'' create_state_machine" "''t1''"]
  show ?thesis by simp
qed

text \<open>The history only grows, and a settled task is final: after any further calls the old
  history of a task is a prefix of the new one, and once the task's state is \<open>SETTLED\<close> neither
  its state nor its history changes again.\<close>

lemma history_append_only:
  assumes "mstep\<^sup>*\<^sup>* m m'"
  shows "(\<exists>new. task_log m' t = task_log m t @ new) \<and>
    (task_state m t = SETTLED \<longrightarrow> task_state m' t = SETTLED \<and> task_log m' t = task_log m t)"
  using billing.log_grows [OF assms, of t]
    billing.final_frozen [OF billing_map.absorbing_axioms _ assms, of t] by blast

definition settled_machine :: ImmutableBillingStateMachine where
  "settled_machine = create_state_machine\<lparr>bm_task_states := [''t1'' \<mapsto> SETTLED]\<rparr>"

text \<open>If the callers keep to one scenario per task, every task stays on the paths of its
  scenario: its history is a run of transitions that the scenario allows.\<close>

lemma planned_history_on_path:
  assumes "(mstep_as plan)\<^sup>*\<^sup>* create_state_machine m"
  shows "chain (is_transition_allowed (plan t)) INITIATED (task_log m t)
    \<and> chain_end INITIATED (task_log m t) = task_state m t"
  by (rule planned.log_is_run [OF assms])

definition bid_machine :: ImmutableBillingStateMachine where
  "bid_machine =
     snd (execute_transition ''u2'' utc_epoch ''t1'' S2_BIDDING INTENT_VALIDATED ''r1'' ''d''
       (snd (execute_transition ''u1'' utc_epoch ''t1'' S2_BIDDING INTENT_RECEIVED ''r1'' ''d''
         (register_receipt ''t1'' ''r1'' create_state_machine))))"

lemma bid_machine_reachable:
  "(mstep_as (\<lambda>t. S2_BIDDING))\<^sup>*\<^sup>* create_state_machine bid_machine"
proof -
  let ?p = "\<lambda>t. S2_BIDDING"
  let ?m1 = "register_receipt ''t1'' ''r1'' create_state_machine"
  let ?m2 = "snd (execute_transition ''u1'' utc_epoch ''t1'' S2_BIDDING INTENT_RECEIVED ''r1'' ''d'' ?m1)"
  have s1: "mstep_as ?p create_state_machine ?m1" by (rule register_as)
  have s2: "mstep_as ?p ?m1 ?m2" by (rule execute_as [of ?p])
  have s3: "mstep_as ?p ?m2 bid_machine" unfolding bid_machine_def by (rule execute_as [of ?p])
  have "(mstep_as ?p)\<^sup>*\<^sup>* create_state_machine ?m1" by (rule r_into_rtranclp) (rule s1)
  then have "(mstep_as ?p)\<^sup>*\<^sup>* create_state_machine ?m2"
    by (rule rtranclp.rtrancl_into_rtrancl) (rule s2)
  then show ?thesis by (rule rtranclp.rtrancl_into_rtrancl) (rule s3)
qed

lemma mstep_as_mstep: "mstep_as plan m m' \<Longrightarrow> mstep m m'"
  by (auto elim!: mstep_as.cases intro: mstep.intros)

lemma bid_machine_state:
  "task_log bid_machine ''t1'' = [(INITIATED, INTENT_RECEIVED), (INTENT_RECEIVED, INTENT_VALIDATED)]"
  "task_state bid_machine ''t1'' = INTENT_VALIDATED"
  "get_scenario bid_machine ''t1'' = Some S2_BIDDING"
  "is_receipt_valid bid_machine ''t1'' ''r1''"
proof -
  let ?m1 = "register_receipt ''t1'' ''r1'' create_state_machine"
  define m2 where "m2 = snd (execute_transition ''u1'' utc_epoch ''t1'' S2_BIDDING INTENT_RECEIVED ''r1'' ''d'' ?m1)"
  have m2: "m2 = ?m1\<lparr>bm_audit_log := \<lparr>al_transitions = [\<lparr>st_record_id = ''u1'', st_task_id = ''t1'',
      st_from_state = INITIATED, st_to_state = INTENT_RECEIVED, st_triggered_by_receipt_id = ''r1'',
      st_triggered_by_did = ''d'', st_timestamp = utc_epoch\<rparr>], al_security_events = []\<rparr>,
      bm_task_states := [''t1'' \<mapsto> INTENT_RECEIVED], bm_task_scenarios := [''t1'' \<mapsto> S2_BIDDING]\<rparr>"
    unfolding m2_def
    by (simp add: execute_transition_def validate_transition_def machine_defs transition_defs Let_def)
  have bid: "bid_machine = snd (execute_transition ''u2'' utc_epoch ''t1'' S2_BIDDING INTENT_VALIDATED ''r1'' ''d'' m2)"
    by (simp only: bid_machine_def m2_def)
  note defs = bid m2 execute_transition_def validate_transition_def machine_defs transition_defs Let_def
    task_log_def history_def task_state_def
  show "task_log bid_machine ''t1'' = [(INITIATED, INTENT_RECEIVED), (INTENT_RECEIVED, INTENT_VALIDATED)]"
    "task_state bid_machine ''t1'' = INTENT_VALIDATED" "get_scenario bid_machine ''t1'' = Some S2_BIDDING"
    "is_receipt_valid bid_machine ''t1'' ''r1''"
    by (simp_all add: defs)
qed

text \<open>The scenario under which a task was registered is not enforced: \<open>execute_transition\<close>
  checks the scenario of its own argument and never reads the registered one. A task registered
  as bidding can be moved to \<open>DELEGATION_ACCEPTED\<close>, which no bidding path contains, by a call that
  names single delegation.\<close>

lemma registered_scenario_not_enforced:
  "\<exists>m. mstep\<^sup>*\<^sup>* create_state_machine m \<and> get_scenario m ''t1'' = Some S2_BIDDING
     \<and> (INTENT_VALIDATED, DELEGATION_ACCEPTED) \<in> set (task_log m ''t1'')
     \<and> DELEGATION_ACCEPTED \<notin> set (scenario_states S2_BIDDING)"
proof -
  let ?m = "snd (execute_transition ''u3'' utc_epoch ''t1'' S1_DELEGATION DELEGATION_ACCEPTED ''r1'' ''d'' bid_machine)"
  have acc: "accepted ''t1'' S1_DELEGATION DELEGATION_ACCEPTED ''r1'' bid_machine"
    by (simp add: accepted_def bid_machine_state transition_defs)
  have "mstep\<^sup>*\<^sup>* create_state_machine bid_machine"
    by (rule mono_rtranclp [rule_format, OF _ bid_machine_reachable]) (rule mstep_as_mstep)
  then have "mstep\<^sup>*\<^sup>* create_state_machine ?m"
    by (rule rtranclp.rtrancl_into_rtrancl) (rule mstep.execute)
  moreover have "bm_task_states bid_machine ''t1'' \<noteq> None"
    using bid_machine_state(2) by (cases "bm_task_states bid_machine ''t1''") (auto simp: task_state_def)
  then have "get_scenario ?m ''t1'' = Some S2_BIDDING"
    using bid_machine_state(3)
    by (auto simp: execute_unfold Let_def ensure_task_def log_event_def get_scenario_def validate_keeps)
  moreover from execute_accepted [OF acc, of "''u3''" utc_epoch "''d''", OF prod.collapse [symmetric]]
  obtain r where "history ?m = history bid_machine @ [r]" "st_task_id r = ''t1''"
    "st_from_state r = INTENT_VALIDATED" "st_to_state r = DELEGATION_ACCEPTED"
    by (auto simp: bid_machine_state)
  then have "(INTENT_VALIDATED, DELEGATION_ACCEPTED) \<in> set (task_log ?m ''t1'')"
    by (simp add: task_log_def)
  ultimately show ?thesis by (auto simp: scenario_states_def)
qed

end
