(* ===== verification/Billing_Scenarios.thy ===== *)
theory Billing_Scenarios
  imports Billing_Transitions
begin

text \<open>
  The scenario registry and the scenarios registered on import
  (\<^verbatim>\<open>packages/karma_billing/scenarios/\<close>): the registry as its dict of configurations in
  insertion order, and for each scenario its receipt types, state path, transition pairs and
  receipt-to-state map as the module lists them.

  The registry's transition pairs and the paths that the state machine enforces are two separate
  tables; the lemmas compare them pair by pair.
\<close>

section \<open>The registry\<close>

record anchoring_policy =
  ap_anchoring_threshold :: int
  ap_mandatory_anchor_states :: "string list"

record ScenarioConfig =
  sc_scenario_type :: ScenarioType
  sc_receipt_types :: "ReceiptType list"
  sc_state_path :: "BillingState list"
  sc_allowed_transitions :: "(BillingState \<times> BillingState) list"
  sc_anchoring_policy_overrides :: "anchoring_policy option"

definition start_state :: "ScenarioConfig \<Rightarrow> BillingState" where
  "start_state c = (case sc_state_path c of s # _ \<Rightarrow> s | [] \<Rightarrow> INITIATED)"

definition terminal_state :: "ScenarioConfig \<Rightarrow> BillingState" where
  "terminal_state c = (if sc_state_path c = [] then SETTLED else last (sc_state_path c))"

type_synonym ScenarioRegistry = "(ScenarioType \<times> ScenarioConfig) list"

datatype registry_error = ValueError ScenarioType | KeyError ScenarioType

definition register_scenario ::
  "ScenarioType \<Rightarrow> ScenarioConfig \<Rightarrow> ScenarioRegistry \<Rightarrow> registry_error + ScenarioRegistry" where
  "register_scenario scenario config reg =
     (if scenario \<in> fst ` set reg then Inl (ValueError scenario) else Inr (reg @ [(scenario, config)]))"

definition get_config :: "ScenarioRegistry \<Rightarrow> ScenarioType \<Rightarrow> registry_error + ScenarioConfig" where
  "get_config reg scenario =
     (case map_of reg scenario of None \<Rightarrow> Inl (KeyError scenario) | Some c \<Rightarrow> Inr c)"

definition list_all_configs :: "ScenarioRegistry \<Rightarrow> ScenarioConfig list" where
  "list_all_configs reg = map snd reg"

definition is_registered :: "ScenarioRegistry \<Rightarrow> ScenarioType \<Rightarrow> bool" where
  "is_registered reg scenario \<longleftrightarrow> scenario \<in> fst ` set reg"

definition count_configs :: "ScenarioRegistry \<Rightarrow> nat" where
  "count_configs reg = length reg"

section \<open>The scenarios\<close>

definition S1_RECEIPT_TYPES :: "ReceiptType list" where
  "S1_RECEIPT_TYPES =
     [ReceiptType.S1_INTENT_CREATED, ReceiptType.S1_INTENT_SIGNED,
      ReceiptType.S1_DELEGATION_ACCEPTED, ReceiptType.S1_TASK_STARTED,
      ReceiptType.S1_STEP_EXECUTED, ReceiptType.S1_TASK_COMPLETED,
      ReceiptType.S1_INVOICE_GENERATED, ReceiptType.S1_PAYMENT_AUTHORIZED,
      ReceiptType.S1_PAYMENT_SETTLED, ReceiptType.S1_RECEIPT_FINAL]"

definition S1_STATE_PATH :: "BillingState list" where
  "S1_STATE_PATH =
     [INITIATED, INTENT_RECEIVED, INTENT_VALIDATED, DELEGATION_ACCEPTED, TASK_STARTED,
      STEP_IN_PROGRESS, STEP_COMPLETED, TASK_COMPLETED, INVOICE_GENERATED,
      PAYMENT_AUTHORIZED, PAYMENT_PENDING, PAYMENT_SETTLING, SETTLED]"

definition S1_ALLOWED_TRANSITIONS :: "(BillingState \<times> BillingState) list" where
  "S1_ALLOWED_TRANSITIONS =
     [(INITIATED, INTENT_RECEIVED), (INTENT_RECEIVED, INTENT_VALIDATED),
      (INTENT_VALIDATED, DELEGATION_ACCEPTED), (DELEGATION_ACCEPTED, TASK_STARTED),
      (TASK_STARTED, STEP_IN_PROGRESS), (STEP_IN_PROGRESS, STEP_COMPLETED),
      (STEP_COMPLETED, STEP_IN_PROGRESS), (STEP_IN_PROGRESS, TASK_COMPLETED),
      (STEP_COMPLETED, TASK_COMPLETED), (TASK_COMPLETED, INVOICE_GENERATED),
      (INVOICE_GENERATED, PAYMENT_AUTHORIZED), (PAYMENT_AUTHORIZED, PAYMENT_PENDING),
      (PAYMENT_PENDING, PAYMENT_SETTLING), (PAYMENT_SETTLING, SETTLED)]"

definition S1_RECEIPT_TO_STATE_MAP :: "(ReceiptType \<times> BillingState) list" where
  "S1_RECEIPT_TO_STATE_MAP =
     [(ReceiptType.S1_INTENT_CREATED, INTENT_RECEIVED),
      (ReceiptType.S1_INTENT_SIGNED, INTENT_VALIDATED),
      (ReceiptType.S1_DELEGATION_ACCEPTED, DELEGATION_ACCEPTED),
      (ReceiptType.S1_TASK_STARTED, TASK_STARTED),
      (ReceiptType.S1_STEP_EXECUTED, STEP_IN_PROGRESS),
      (ReceiptType.S1_TASK_COMPLETED, TASK_COMPLETED),
      (ReceiptType.S1_INVOICE_GENERATED, INVOICE_GENERATED),
      (ReceiptType.S1_PAYMENT_AUTHORIZED, PAYMENT_AUTHORIZED),
      (ReceiptType.S1_PAYMENT_SETTLED, PAYMENT_SETTLING),
      (ReceiptType.S1_RECEIPT_FINAL, SETTLED)]"

definition S1_ANCHORING_POLICY :: anchoring_policy where
  "S1_ANCHORING_POLICY =
     \<lparr>ap_anchoring_threshold = 3,
      ap_mandatory_anchor_states =
        [state_value INTENT_VALIDATED, state_value TASK_COMPLETED,
         state_value INVOICE_GENERATED, state_value SETTLED]\<rparr>"

definition register_s1 :: "ScenarioRegistry \<Rightarrow> registry_error + ScenarioRegistry" where
  "register_s1 =
     register_scenario S1_DELEGATION
       \<lparr>sc_scenario_type = S1_DELEGATION, sc_receipt_types = S1_RECEIPT_TYPES,
        sc_state_path = S1_STATE_PATH, sc_allowed_transitions = S1_ALLOWED_TRANSITIONS,
        sc_anchoring_policy_overrides = Some S1_ANCHORING_POLICY\<rparr>"

definition S2_RECEIPT_TYPES :: "ReceiptType list" where
  "S2_RECEIPT_TYPES =
     [ReceiptType.S2_BID_OPENED, ReceiptType.S2_BID_PLACED, ReceiptType.S2_BID_EVALUATED,
      ReceiptType.S2_BID_ACCEPTED, ReceiptType.S2_TASK_EXECUTED,
      ReceiptType.S2_INVOICE_GENERATED, ReceiptType.S2_PAYMENT_SETTLED]"

definition S2_STATE_PATH :: "BillingState list" where
  "S2_STATE_PATH =
     [INITIATED, INTENT_RECEIVED, INTENT_VALIDATED, BID_EVALUATING, BID_ACCEPTED,
      TASK_STARTED, STEP_IN_PROGRESS, STEP_COMPLETED, TASK_COMPLETED, INVOICE_GENERATED,
      PAYMENT_AUTHORIZED, PAYMENT_SETTLING, SETTLED]"

definition S2_ALLOWED_TRANSITIONS :: "(BillingState \<times> BillingState) list" where
  "S2_ALLOWED_TRANSITIONS =
     [(INITIATED, INTENT_RECEIVED), (INTENT_RECEIVED, INTENT_VALIDATED),
      (INTENT_VALIDATED, BID_EVALUATING), (BID_EVALUATING, BID_ACCEPTED),
      (BID_EVALUATING, INVOICE_GENERATED), (BID_ACCEPTED, TASK_STARTED),
      (TASK_STARTED, STEP_IN_PROGRESS), (STEP_IN_PROGRESS, STEP_COMPLETED),
      (STEP_COMPLETED, TASK_COMPLETED), (TASK_COMPLETED, INVOICE_GENERATED),
      (INVOICE_GENERATED, PAYMENT_AUTHORIZED), (PAYMENT_AUTHORIZED, PAYMENT_SETTLING),
      (PAYMENT_SETTLING, SETTLED)]"

definition S2_RECEIPT_TO_STATE_MAP :: "(ReceiptType \<times> BillingState) list" where
  "S2_RECEIPT_TO_STATE_MAP =
     [(ReceiptType.S2_BID_OPENED, BID_EVALUATING),
      (ReceiptType.S2_BID_PLACED, BID_EVALUATING),
      (ReceiptType.S2_BID_EVALUATED, BID_EVALUATING),
      (ReceiptType.S2_BID_ACCEPTED, BID_ACCEPTED),
      (ReceiptType.S2_TASK_EXECUTED, TASK_COMPLETED),
      (ReceiptType.S2_INVOICE_GENERATED, INVOICE_GENERATED),
      (ReceiptType.S2_PAYMENT_SETTLED, SETTLED)]"

definition register_s2 :: "ScenarioRegistry \<Rightarrow> registry_error + ScenarioRegistry" where
  "register_s2 =
     register_scenario S2_BIDDING
       \<lparr>sc_scenario_type = S2_BIDDING, sc_receipt_types = S2_RECEIPT_TYPES,
        sc_state_path = S2_STATE_PATH, sc_allowed_transitions = S2_ALLOWED_TRANSITIONS,
        sc_anchoring_policy_overrides = Some \<lparr>ap_anchoring_threshold = 5,
         ap_mandatory_anchor_states = [state_value BID_ACCEPTED, state_value INVOICE_GENERATED, state_value SETTLED]\<rparr>\<rparr>"

definition S3_RECEIPT_TYPES :: "ReceiptType list" where
  "S3_RECEIPT_TYPES =
     [ReceiptType.S3_PIPELINE_CREATED, ReceiptType.S3_STAGE_STARTED,
      ReceiptType.S3_STAGE_COMPLETED, ReceiptType.S3_PIPELINE_COMPLETED,
      ReceiptType.S3_INVOICE_AGGREGATED, ReceiptType.S3_PAYMENT_SETTLED]"

definition S3_STATE_PATH :: "BillingState list" where
  "S3_STATE_PATH =
     [INITIATED, INTENT_RECEIVED, INTENT_VALIDATED, PIPELINE_STAGING, STEP_IN_PROGRESS,
      STEP_COMPLETED, TASK_COMPLETED, INVOICE_GENERATED, PAYMENT_AUTHORIZED,
      PAYMENT_SETTLING, SETTLED]"

definition S3_ALLOWED_TRANSITIONS :: "(BillingState \<times> BillingState) list" where
  "S3_ALLOWED_TRANSITIONS =
     [(INITIATED, INTENT_RECEIVED), (INTENT_RECEIVED, INTENT_VALIDATED),
      (INTENT_VALIDATED, PIPELINE_STAGING), (PIPELINE_STAGING, STEP_IN_PROGRESS),
      (PIPELINE_STAGING, TASK_COMPLETED), (STEP_IN_PROGRESS, STEP_COMPLETED),
      (STEP_COMPLETED, STEP_IN_PROGRESS), (STEP_COMPLETED, TASK_COMPLETED),
      (TASK_COMPLETED, INVOICE_GENERATED), (INVOICE_GENERATED, PAYMENT_AUTHORIZED),
      (PAYMENT_AUTHORIZED, PAYMENT_SETTLING), (PAYMENT_SETTLING, SETTLED)]"

definition S3_RECEIPT_TO_STATE_MAP :: "(ReceiptType \<times> BillingState) list" where
  "S3_RECEIPT_TO_STATE_MAP =
     [(ReceiptType.S3_PIPELINE_CREATED, PIPELINE_STAGING),
      (ReceiptType.S3_STAGE_STARTED, STEP_IN_PROGRESS),
      (ReceiptType.S3_STAGE_COMPLETED, STEP_COMPLETED),
      (ReceiptType.S3_PIPELINE_COMPLETED, TASK_COMPLETED),
      (ReceiptType.S3_INVOICE_AGGREGATED, INVOICE_GENERATED),
      (ReceiptType.S3_PAYMENT_SETTLED, SETTLED)]"

definition register_s3 :: "ScenarioRegistry \<Rightarrow> registry_error + ScenarioRegistry" where
  "register_s3 =
     register_scenario S3_PIPELINE
       \<lparr>sc_scenario_type = S3_PIPELINE, sc_receipt_types = S3_RECEIPT_TYPES,
        sc_state_path = S3_STATE_PATH, sc_allowed_transitions = S3_ALLOWED_TRANSITIONS,
        sc_anchoring_policy_overrides = Some \<lparr>ap_anchoring_threshold = 5,
         ap_mandatory_anchor_states = [state_value TASK_COMPLETED, state_value INVOICE_GENERATED, state_value SETTLED]\<rparr>\<rparr>"

definition S5_RECEIPT_TYPES :: "ReceiptType list" where
  "S5_RECEIPT_TYPES =
     [ReceiptType.S5_DATA_REQUESTED, ReceiptType.S5_DATA_DELIVERED,
      ReceiptType.S5_DATA_VERIFIED, ReceiptType.S5_ROYALTY_CALCULATED,
      ReceiptType.S5_PAYMENT_SETTLED]"

definition S5_STATE_PATH :: "BillingState list" where
  "S5_STATE_PATH =
     [INITIATED, INTENT_RECEIVED, INTENT_VALIDATED, DELEGATION_ACCEPTED, TASK_STARTED,
      TASK_COMPLETED, INVOICE_GENERATED, PAYMENT_AUTHORIZED, PAYMENT_SETTLING, SETTLED]"

definition S5_ALLOWED_TRANSITIONS :: "(BillingState \<times> BillingState) list" where
  "S5_ALLOWED_TRANSITIONS =
     [(INITIATED, INTENT_RECEIVED), (INTENT_RECEIVED, INTENT_VALIDATED),
      (INTENT_VALIDATED, DELEGATION_ACCEPTED), (DELEGATION_ACCEPTED, TASK_STARTED),
      (TASK_STARTED, TASK_COMPLETED), (TASK_COMPLETED, INVOICE_GENERATED),
      (INVOICE_GENERATED, PAYMENT_AUTHORIZED), (PAYMENT_AUTHORIZED, PAYMENT_SETTLING),
      (PAYMENT_SETTLING, SETTLED)]"

definition S5_RECEIPT_TO_STATE_MAP :: "(ReceiptType \<times> BillingState) list" where
  "S5_RECEIPT_TO_STATE_MAP =
     [(ReceiptType.S5_DATA_REQUESTED, INTENT_VALIDATED),
      (ReceiptType.S5_DATA_DELIVERED, TASK_COMPLETED),
      (ReceiptType.S5_DATA_VERIFIED, TASK_COMPLETED),
      (ReceiptType.S5_ROYALTY_CALCULATED, INVOICE_GENERATED),
      (ReceiptType.S5_PAYMENT_SETTLED, SETTLED)]"

definition register_s5 :: "ScenarioRegistry \<Rightarrow> registry_error + ScenarioRegistry" where
  "register_s5 =
     register_scenario S5_DATA
       \<lparr>sc_scenario_type = S5_DATA, sc_receipt_types = S5_RECEIPT_TYPES,
        sc_state_path = S5_STATE_PATH, sc_allowed_transitions = S5_ALLOWED_TRANSITIONS,
        sc_anchoring_policy_overrides = Some \<lparr>ap_anchoring_threshold = 5,
         ap_mandatory_anchor_states = [state_value INVOICE_GENERATED, state_value SETTLED]\<rparr>\<rparr>"

definition S8_RECEIPT_TYPES :: "ReceiptType list" where
  "S8_RECEIPT_TYPES =
     [ReceiptType.S8_DISPUTE_FILED, ReceiptType.S8_EVIDENCE_SUBMITTED,
      ReceiptType.S8_ARBITRATION_STARTED, ReceiptType.S8_RESOLUTION_PROPOSED,
      ReceiptType.S8_RESOLUTION_ACCEPTED, ReceiptType.S8_REFUND_ISSUED]"

definition S8_STATE_PATH :: "BillingState list" where
  "S8_STATE_PATH =
     [INITIATED, INTENT_RECEIVED, INTENT_VALIDATED, DELEGATION_ACCEPTED, TASK_STARTED,
      TASK_COMPLETED, INVOICE_GENERATED, PAYMENT_AUTHORIZED, PAYMENT_SETTLING,
      REFUND_PENDING, SETTLED]"

definition S8_ALLOWED_TRANSITIONS :: "(BillingState \<times> BillingState) list" where
  "S8_ALLOWED_TRANSITIONS =
     [(INITIATED, INTENT_RECEIVED), (INTENT_RECEIVED, INTENT_VALIDATED),
      (INTENT_VALIDATED, DELEGATION_ACCEPTED), (DELEGATION_ACCEPTED, TASK_STARTED),
      (TASK_STARTED, TASK_COMPLETED), (TASK_COMPLETED, INVOICE_GENERATED),
      (INVOICE_GENERATED, PAYMENT_AUTHORIZED), (PAYMENT_AUTHORIZED, PAYMENT_SETTLING),
      (PAYMENT_SETTLING, REFUND_PENDING), (REFUND_PENDING, SETTLED),
      (PAYMENT_SETTLING, SETTLED)]"

definition S8_RECEIPT_TO_STATE_MAP :: "(ReceiptType \<times> BillingState) list" where
  "S8_RECEIPT_TO_STATE_MAP =
     [(ReceiptType.S8_DISPUTE_FILED, PAYMENT_SETTLING),
      (ReceiptType.S8_EVIDENCE_SUBMITTED, PAYMENT_SETTLING),
      (ReceiptType.S8_ARBITRATION_STARTED, PAYMENT_SETTLING),
      (ReceiptType.S8_RESOLUTION_PROPOSED, REFUND_PENDING),
      (ReceiptType.S8_RESOLUTION_ACCEPTED, REFUND_PENDING),
      (ReceiptType.S8_REFUND_ISSUED, SETTLED)]"

definition register_s8 :: "ScenarioRegistry \<Rightarrow> registry_error + ScenarioRegistry" where
  "register_s8 =
     register_scenario S8_DISPUTE
       \<lparr>sc_scenario_type = S8_DISPUTE, sc_receipt_types = S8_RECEIPT_TYPES,
        sc_state_path = S8_STATE_PATH, sc_allowed_transitions = S8_ALLOWED_TRANSITIONS,
        sc_anchoring_policy_overrides = Some \<lparr>ap_anchoring_threshold = 2,
         ap_mandatory_anchor_states = [state_value REFUND_PENDING, state_value SETTLED]\<rparr>\<rparr>"

text \<open>Importing the package registers the five scenarios in turn; a raise would stop it.\<close>

definition then_register ::
  "registry_error + ScenarioRegistry \<Rightarrow> (ScenarioRegistry \<Rightarrow> registry_error + ScenarioRegistry)
   \<Rightarrow> registry_error + ScenarioRegistry" where
  "then_register r f = (case r of Inl e \<Rightarrow> Inl e | Inr reg \<Rightarrow> f reg)"

definition import_scenarios :: "ScenarioRegistry \<Rightarrow> registry_error + ScenarioRegistry" where
  "import_scenarios reg =
     foldl then_register (Inr reg) [register_s1, register_s2, register_s3, register_s5, register_s8]"

lemmas scenario_defs [billing_defs] =
  S1_RECEIPT_TYPES_def S1_STATE_PATH_def S1_ALLOWED_TRANSITIONS_def S1_RECEIPT_TO_STATE_MAP_def
  S2_RECEIPT_TYPES_def S2_STATE_PATH_def S2_ALLOWED_TRANSITIONS_def S2_RECEIPT_TO_STATE_MAP_def
  S3_RECEIPT_TYPES_def S3_STATE_PATH_def S3_ALLOWED_TRANSITIONS_def S3_RECEIPT_TO_STATE_MAP_def
  S5_RECEIPT_TYPES_def S5_STATE_PATH_def S5_ALLOWED_TRANSITIONS_def S5_RECEIPT_TO_STATE_MAP_def
  S8_RECEIPT_TYPES_def S8_STATE_PATH_def S8_ALLOWED_TRANSITIONS_def S8_RECEIPT_TO_STATE_MAP_def

section \<open>The registry and the enforced paths\<close>

definition enforced :: "ScenarioType \<Rightarrow> (BillingState \<times> BillingState) set" where
  "enforced sc = {(s, t). is_transition_allowed sc s t}"

lemma enforced_pairs: "enforced sc = set (concat (map adjacent (ALLOWED_STATE_PATHS sc)))"
  by (auto simp: enforced_def allowed_iff_adjacent)

lemma enforcedI:
  assumes "list_all (\<lambda>p. p \<in> set ys) (concat (map adjacent (ALLOWED_STATE_PATHS sc)))"
    and "list_all (\<lambda>p. p \<in> set (concat (map adjacent (ALLOWED_STATE_PATHS sc)))) ys"
  shows "enforced sc = set ys"
  using assms by (auto simp: enforced_pairs list_all_iff)

lemma enforced_S1: "enforced S1_DELEGATION = set ((PAYMENT_AUTHORIZED, PAYMENT_SETTLING) # S1_ALLOWED_TRANSITIONS)"
  by (rule enforcedI) (simp_all add: S1_ALLOWED_TRANSITIONS_def)

lemma enforced_S2: "enforced S2_BIDDING = set ((INVOICE_GENERATED, PAYMENT_SETTLING) # S2_ALLOWED_TRANSITIONS)"
  by (rule enforcedI) (simp_all add: S2_ALLOWED_TRANSITIONS_def)

lemma enforced_S3:
  "enforced S3_PIPELINE = set (filter (\<lambda>p. p \<notin> {(PIPELINE_STAGING, TASK_COMPLETED),
     (STEP_COMPLETED, STEP_IN_PROGRESS)}) S3_ALLOWED_TRANSITIONS)"
  by (rule enforcedI) (simp_all add: S3_ALLOWED_TRANSITIONS_def)

lemma enforced_S5: "enforced S5_DATA = set S5_ALLOWED_TRANSITIONS"
  by (rule enforcedI) (simp_all add: S5_ALLOWED_TRANSITIONS_def)

lemma enforced_S8: "enforced S8_DISPUTE = set S8_ALLOWED_TRANSITIONS"
  by (rule enforcedI) (simp_all add: S8_ALLOWED_TRANSITIONS_def)

lemma imported:
  "\<exists>reg. import_scenarios [] = Inr reg
     \<and> map fst reg = [S1_DELEGATION, S2_BIDDING, S3_PIPELINE, S5_DATA, S8_DISPUTE]
     \<and> map (sc_allowed_transitions \<circ> snd) reg
       = [S1_ALLOWED_TRANSITIONS, S2_ALLOWED_TRANSITIONS, S3_ALLOWED_TRANSITIONS,
          S5_ALLOWED_TRANSITIONS, S8_ALLOWED_TRANSITIONS]
     \<and> list_all (\<lambda>(sc, c). start_state c = INITIATED \<and> terminal_state c = SETTLED) reg"
  by (simp add: import_scenarios_def then_register_def register_scenario_def register_s1_def
      register_s2_def register_s3_def register_s5_def register_s8_def start_state_def
      terminal_state_def S1_STATE_PATH_def S2_STATE_PATH_def S3_STATE_PATH_def S5_STATE_PATH_def
      S8_STATE_PATH_def)

section \<open>Properties\<close>

text \<open>Importing the scenarios raises nothing and registers five of them, each from
  \<open>INITIATED\<close> to \<open>SETTLED\<close>. The transitions that the state machine enforces are exactly the
  registered ones for data marketplace and dispute; for delegation and bidding the machine allows
  one direct way to \<open>PAYMENT_SETTLING\<close> that the registry does not list; for pipelines it forbids
  two registered transitions, among them the one to the next stage, so that a pipeline never has a
  second stage.\<close>

lemma registry_against_machine:
  "(\<exists>reg. import_scenarios [] = Inr reg
      \<and> map fst reg = [S1_DELEGATION, S2_BIDDING, S3_PIPELINE, S5_DATA, S8_DISPUTE]
      \<and> map (sc_allowed_transitions \<circ> snd) reg
        = [S1_ALLOWED_TRANSITIONS, S2_ALLOWED_TRANSITIONS, S3_ALLOWED_TRANSITIONS,
           S5_ALLOWED_TRANSITIONS, S8_ALLOWED_TRANSITIONS]
      \<and> list_all (\<lambda>(sc, c). start_state c = INITIATED \<and> terminal_state c = SETTLED) reg)
   \<and> enforced S5_DATA = set S5_ALLOWED_TRANSITIONS
   \<and> enforced S8_DISPUTE = set S8_ALLOWED_TRANSITIONS
   \<and> enforced S1_DELEGATION = insert (PAYMENT_AUTHORIZED, PAYMENT_SETTLING) (set S1_ALLOWED_TRANSITIONS)
   \<and> enforced S2_BIDDING = insert (INVOICE_GENERATED, PAYMENT_SETTLING) (set S2_ALLOWED_TRANSITIONS)
   \<and> enforced S3_PIPELINE = set S3_ALLOWED_TRANSITIONS
       - {(PIPELINE_STAGING, TASK_COMPLETED), (STEP_COMPLETED, STEP_IN_PROGRESS)}
   \<and> {(PIPELINE_STAGING, TASK_COMPLETED), (STEP_COMPLETED, STEP_IN_PROGRESS)} \<subseteq> set S3_ALLOWED_TRANSITIONS"
proof (intro conjI)
  show "enforced S3_PIPELINE = set S3_ALLOWED_TRANSITIONS
       - {(PIPELINE_STAGING, TASK_COMPLETED), (STEP_COMPLETED, STEP_IN_PROGRESS)}"
    unfolding enforced_S3 by (simp only: set_filter set_diff_eq)
  show "{(PIPELINE_STAGING, TASK_COMPLETED), (STEP_COMPLETED, STEP_IN_PROGRESS)}
      \<subseteq> set S3_ALLOWED_TRANSITIONS"
    by (simp add: S3_ALLOWED_TRANSITIONS_def)
qed (simp_all only: imported enforced_S1 enforced_S2 enforced_S5 enforced_S8 list.set)

text \<open>The documented receipt flow of single delegation is executable: the receipts of S1, in
  the order of the module, map to states that the machine lets a task visit one after the other
  from \<open>INITIATED\<close>, ending \<open>SETTLED\<close>; and every receipt type of the five scenarios is mapped to a
  state of its scenario.\<close>

lemma receipt_flow_executable:
  "follows (is_transition_allowed S1_DELEGATION) INITIATED (map snd S1_RECEIPT_TO_STATE_MAP)
   \<and> last (map snd S1_RECEIPT_TO_STATE_MAP) = SETTLED
   \<and> list_all (\<lambda>(types, mp, sc). map fst mp = types \<and> set (map snd mp) \<subseteq> set (scenario_states sc))
       [(S1_RECEIPT_TYPES, S1_RECEIPT_TO_STATE_MAP, S1_DELEGATION),
        (S2_RECEIPT_TYPES, S2_RECEIPT_TO_STATE_MAP, S2_BIDDING),
        (S3_RECEIPT_TYPES, S3_RECEIPT_TO_STATE_MAP, S3_PIPELINE),
        (S5_RECEIPT_TYPES, S5_RECEIPT_TO_STATE_MAP, S5_DATA),
        (S8_RECEIPT_TYPES, S8_RECEIPT_TO_STATE_MAP, S8_DISPUTE)]"
  by (simp add: scenario_defs scenario_states_def allowed_iff_adjacent)

end
