(* ===== verification/Billing_Sync.thy ===== *)
theory Billing_Sync
  imports Billing_Schema
begin

text \<open>
  The receipt sync service (\<^verbatim>\<open>packages/karma_billing/sync_service.py\<close>): the in-memory pub/sub, the
  Merkle accumulator and the three-route fan-out of a receipt. Callbacks are named by the values of
  a type; publishing returns the callbacks that are invoked, in order, whatever they raise, since
  the code swallows their exceptions. The insert hook of route 1 is a function that raises (a
  message) or returns.

  The lemmas show that a Merkle root binds the leaves for a fixed number of leaves, how far it does
  not bind their number, that the routes are independent, and when anchoring is triggered.
\<close>

section \<open>Pub/sub\<close>

type_synonym 'cb InMemoryPubSub = "(string \<times> 'cb list) list"

definition subscribe :: "string \<Rightarrow> 'cb \<Rightarrow> 'cb InMemoryPubSub \<Rightarrow> 'cb InMemoryPubSub" where
  "subscribe channel callback ps =
     (if channel \<in> fst ` set ps
      then map (\<lambda>(c, cbs). (c, if c = channel then cbs @ [callback] else cbs)) ps
      else ps @ [(channel, [callback])])"

definition unsubscribe :: "string \<Rightarrow> 'cb \<Rightarrow> 'cb InMemoryPubSub \<Rightarrow> 'cb InMemoryPubSub" where
  "unsubscribe channel callback ps =
     filter (\<lambda>(c, cbs). c \<noteq> channel \<or> cbs \<noteq> [])
       (map (\<lambda>(c, cbs). (c, if c = channel then filter (\<lambda>cb. cb \<noteq> callback) cbs else cbs)) ps)"

text \<open>The callbacks that a message on the channel is delivered to.\<close>

definition publish :: "'cb InMemoryPubSub \<Rightarrow> string \<Rightarrow> 'cb list" where
  "publish ps channel = (case map_of ps channel of Some cbs \<Rightarrow> cbs | None \<Rightarrow> [])"

definition publish_async :: "'cb InMemoryPubSub \<Rightarrow> string \<Rightarrow> 'cb list" where
  "publish_async ps channel = publish ps channel"

definition subscriber_count :: "'cb InMemoryPubSub \<Rightarrow> (string \<times> nat) list" where
  "subscriber_count ps = map (\<lambda>(c, cbs). (c, length cbs)) ps"

section \<open>The Merkle accumulator\<close>

record IncrementalMerkleAccumulator =
  ma_leaves :: "string list"
  ma_anchor_count :: nat

definition append_leaf ::
  "string \<Rightarrow> IncrementalMerkleAccumulator \<Rightarrow> nat \<times> IncrementalMerkleAccumulator" where
  "append_leaf leaf_hash a = (length (ma_leaves a), a\<lparr>ma_leaves := ma_leaves a @ [leaf_hash]\<rparr>)"

text \<open>One round of pairing; an unpaired last node is paired with itself.\<close>

fun next_level :: "(string \<Rightarrow> string) \<Rightarrow> string list \<Rightarrow> string list" where
  "next_level sha [] = []"
| "next_level sha [left] = [sha (left @ left)]"
| "next_level sha (left # right # rest) = sha (left @ right) # next_level sha rest"

lemma length_next_level: "length (next_level sha xs) = (length xs + 1) div 2"
  by (induction sha xs rule: next_level.induct) auto

function reduce_levels :: "(string \<Rightarrow> string) \<Rightarrow> string list \<Rightarrow> string list" where
  "reduce_levels sha level =
     (if length level > 1 then reduce_levels sha (next_level sha level) else level)"
  by pat_completeness auto
termination
  by (relation "measure (\<lambda>(sha, level). length level)") (auto simp: length_next_level)

declare reduce_levels.simps [simp del]

definition compute_root :: "(string \<Rightarrow> string) \<Rightarrow> IncrementalMerkleAccumulator \<Rightarrow> string option" where
  "compute_root sha a =
     (if ma_leaves a = [] then None
      else case reduce_levels sha (ma_leaves a) of [] \<Rightarrow> None | node # _ \<Rightarrow> Some (hex node))"

definition leaf_count :: "IncrementalMerkleAccumulator \<Rightarrow> nat" where
  "leaf_count a = length (ma_leaves a)"

definition mark_anchored ::
  "(string \<Rightarrow> string) \<Rightarrow> IncrementalMerkleAccumulator \<Rightarrow> string \<times> IncrementalMerkleAccumulator" where
  "mark_anchored sha a =
     (case compute_root sha a of Some r \<Rightarrow> r | None \<Rightarrow> [],
      a\<lparr>ma_anchor_count := ma_anchor_count a + 1\<rparr>)"

section \<open>The fan-out\<close>

datatype SyncRouteStatus = SUCCESS | FAILED | SKIPPED

record SyncResult =
  sr_receipt_id :: string
  sr_pg_status :: SyncRouteStatus
  sr_pubsub_status :: SyncRouteStatus
  sr_merkle_status :: SyncRouteStatus
  sr_anchoring_triggered :: bool
  sr_errors :: "string list"

definition all_succeeded :: "SyncResult \<Rightarrow> bool" where
  "all_succeeded r =
     list_all (\<lambda>s. s \<in> {SUCCESS, SKIPPED}) [sr_pg_status r, sr_pubsub_status r, sr_merkle_status r]"

record 'cb ReceiptSyncService =
  rs_pubsub :: "'cb InMemoryPubSub"
  rs_merkle :: IncrementalMerkleAccumulator
  rs_anchoring_threshold :: int
  rs_pg_insert_hook :: "(UniversalReceipt \<Rightarrow> string + unit) option"
  rs_task_receipt_count :: "string \<rightharpoonup> int"

datatype sync_error = ZeroDivisionError

definition new_sync_service :: "int \<Rightarrow> 'cb ReceiptSyncService" where
  "new_sync_service threshold =
     \<lparr>rs_pubsub = [], rs_merkle = \<lparr>ma_leaves = [], ma_anchor_count = 0\<rparr>,
      rs_anchoring_threshold = threshold, rs_pg_insert_hook = None,
      rs_task_receipt_count = Map.empty\<rparr>"

definition set_pg_insert_hook ::
  "(UniversalReceipt \<Rightarrow> string + unit) \<Rightarrow> 'cb ReceiptSyncService \<Rightarrow> 'cb ReceiptSyncService" where
  "set_pg_insert_hook hook s = s\<lparr>rs_pg_insert_hook := Some hook\<rparr>"

definition receipts_channel :: "UniversalReceipt \<Rightarrow> string" where
  "receipts_channel r = ''karma:billing:receipts:'' @ ur_task_id r"

text \<open>Returns the result or the exception, the callbacks notified, and the service afterwards.\<close>

definition sync ::
  "(string \<Rightarrow> string) \<Rightarrow> UniversalReceipt \<Rightarrow> 'cb ReceiptSyncService
   \<Rightarrow> (sync_error + SyncResult) \<times> 'cb list \<times> 'cb ReceiptSyncService" where
  "sync sha receipt s =
     (let (pg_status, pg_errors) =
            (case rs_pg_insert_hook s of
               Some hook \<Rightarrow>
                 (case hook receipt of
                    Inr _ \<Rightarrow> (SUCCESS, [])
                  | Inl e \<Rightarrow> (FAILED, [''PG: '' @ e]))
             | None \<Rightarrow> (SKIPPED, []));
          delivered = publish (rs_pubsub s) (receipts_channel receipt);
          leaf = compute_leaf sha receipt;
          (index, merkle) = append_leaf leaf (rs_merkle s);
          task_id = ur_task_id receipt;
          count = (case rs_task_receipt_count s task_id of Some n \<Rightarrow> n | None \<Rightarrow> 0) + 1;
          s' = s\<lparr>rs_merkle := merkle,
                 rs_task_receipt_count := (rs_task_receipt_count s)(task_id \<mapsto> count)\<rparr>
      in if rs_anchoring_threshold s = 0 then (Inl ZeroDivisionError, delivered, s')
         else
           (Inr \<lparr>sr_receipt_id = ur_receipt_id receipt, sr_pg_status = pg_status,
                 sr_pubsub_status = SUCCESS, sr_merkle_status = SUCCESS,
                 sr_anchoring_triggered = (count mod rs_anchoring_threshold s = 0),
                 sr_errors = pg_errors\<rparr>, delivered, s'))"

definition get_merkle_root :: "(string \<Rightarrow> string) \<Rightarrow> 'cb ReceiptSyncService \<Rightarrow> string option" where
  "get_merkle_root sha s = compute_root sha (rs_merkle s)"

text \<open>A sequence of receipts, one after the other, with the results in order.\<close>

fun sync_all ::
  "(string \<Rightarrow> string) \<Rightarrow> UniversalReceipt list \<Rightarrow> 'cb ReceiptSyncService
   \<Rightarrow> (UniversalReceipt \<times> (sync_error + SyncResult)) list \<times> 'cb ReceiptSyncService" where
  "sync_all sha [] s = ([], s)"
| "sync_all sha (r # rs) s =
     (let (res, _, s1) = sync sha r s; (out, s2) = sync_all sha rs s1 in ((r, res) # out, s2))"

section \<open>Merkle roots\<close>

text \<open>The strings hashed in one round, and in all rounds of a reduction.\<close>

fun level_inputs :: "string list \<Rightarrow> string set" where
  "level_inputs [] = {}"
| "level_inputs [left] = {left @ left}"
| "level_inputs (left # right # rest) = insert (left @ right) (level_inputs rest)"

function merkle_inputs :: "(string \<Rightarrow> string) \<Rightarrow> string list \<Rightarrow> string set" where
  "merkle_inputs sha level =
     (if length level > 1 then level_inputs level \<union> merkle_inputs sha (next_level sha level) else {})"
  by pat_completeness auto
termination
  by (relation "measure (\<lambda>(sha, level). length level)") (auto simp: length_next_level)

declare merkle_inputs.simps [simp del]

lemma append_same_length:
  "a @ b = c @ d \<Longrightarrow> length a = n \<Longrightarrow> length c = n \<Longrightarrow> a = c \<and> b = d"
  by simp

lemma next_level_inject:
  assumes "next_level sha xs = next_level sha ys" "length xs = length ys"
    and "inj_on sha (level_inputs xs \<union> level_inputs ys)"
    and "\<And>x. x \<in> set xs \<union> set ys \<Longrightarrow> length x = n"
  shows "xs = ys"
  using assms
proof (induction sha xs arbitrary: ys rule: next_level.induct)
  case (2 sha left)
  from 2(2) obtain y where y: "ys = [y]" by (cases ys) auto
  have "left @ left = y @ y"
    by (rule inj_onD [OF 2(3)]) (use 2(1) y in simp_all)
  moreover have "length left = n" "length y = n" using 2(4) y by simp_all
  ultimately have "left = y" using append_same_length by blast
  with y show ?case by simp
next
  case (3 sha left right rest)
  from 3(3) [symmetric] obtain l r q where ys: "ys = l # r # q" by (auto simp: length_Suc_conv)
  from 3(2) ys have h: "sha (left @ right) = sha (l @ r)" and t: "next_level sha rest = next_level sha q"
    by simp_all
  have "left @ right = l @ r"
    by (rule inj_onD [OF 3(4) h]) (simp_all add: ys)
  moreover have "length left = n" "length l = n" using 3(5) ys by simp_all
  ultimately have "left = l" "right = r" using append_same_length by blast+
  moreover have "inj_on sha (level_inputs rest \<union> level_inputs q)"
    by (rule inj_on_subset [OF 3(4)]) (auto simp: ys)
  then have "rest = q"
    by (rule 3(1) [OF t, rotated]) (use 3(3,5) ys in auto)
  ultimately show ?case using ys by simp
qed auto

lemma next_level_lengths:
  "(\<And>x. length (sha x) = n) \<Longrightarrow> x \<in> set (next_level sha xs) \<Longrightarrow> length x = n"
  by (induction sha xs rule: next_level.induct) auto

lemma reduce_levels_inject:
  assumes "reduce_levels sha xs = reduce_levels sha ys" "length xs = length ys"
    and "inj_on sha (merkle_inputs sha xs \<union> merkle_inputs sha ys)"
    and len: "\<And>x. length (sha x) = n"
    and "\<And>x. x \<in> set xs \<union> set ys \<Longrightarrow> length x = n"
  shows "xs = ys"
  using assms(1-3,5)
proof (induction "length xs" arbitrary: xs ys rule: less_induct)
  case less
  show ?case
  proof (cases "length xs > 1")
    case True
    let ?xs = "next_level sha xs" and ?ys = "next_level sha ys"
    have "?xs = ?ys"
    proof (rule less.hyps)
      show "length ?xs < length xs" using True by (simp add: length_next_level)
      show "reduce_levels sha ?xs = reduce_levels sha ?ys"
        using less.prems(1,2) True by (simp add: reduce_levels.simps [of sha xs] reduce_levels.simps [of sha ys])
      show "length ?xs = length ?ys" using less.prems(2) by (simp add: length_next_level)
      show "inj_on sha (merkle_inputs sha ?xs \<union> merkle_inputs sha ?ys)"
        by (rule inj_on_subset [OF less.prems(3)])
          (use True less.prems(2) in \<open>auto simp: merkle_inputs.simps [of sha xs] merkle_inputs.simps [of sha ys]\<close>)
      show "length x = n" if "x \<in> set ?xs \<union> set ?ys" for x
        using that next_level_lengths [of sha n, OF len] by blast
    qed
    moreover have "inj_on sha (level_inputs xs \<union> level_inputs ys)"
      by (rule inj_on_subset [OF less.prems(3)])
        (use True less.prems(2) in \<open>auto simp: merkle_inputs.simps [of sha xs] merkle_inputs.simps [of sha ys]\<close>)
    ultimately show ?thesis
      using next_level_inject [of sha xs ys n] less.prems(2,4) by blast
  next
    case False
    with less.prems(1,2) show ?thesis
      by (simp add: reduce_levels.simps [of sha xs] reduce_levels.simps [of sha ys])
  qed
qed

lemma reduce_levels_single: "xs \<noteq> [] \<Longrightarrow> \<exists>node. reduce_levels sha xs = [node]"
proof (induction "length xs" arbitrary: xs rule: less_induct)
  case less
  show ?case
  proof (cases "length xs > 1")
    case True
    then have "length (next_level sha xs) < length xs" "next_level sha xs \<noteq> []"
      by (simp_all add: length_next_level flip: length_greater_0_conv)
    with less.hyps True show ?thesis by (simp add: reduce_levels.simps [of sha xs])
  next
    case False
    with less.prems obtain x where "xs = [x]" by (cases xs) auto
    then show ?thesis by (simp add: reduce_levels.simps)
  qed
qed

lemma next_level_odd: "odd (length xs) \<Longrightarrow> next_level sha (xs @ [last xs]) = next_level sha xs"
  by (induction sha xs rule: next_level.induct) auto

section \<open>The routes and the anchoring policy\<close>

definition receipt_count :: "'cb ReceiptSyncService \<Rightarrow> string \<Rightarrow> int" where
  "receipt_count s t = (case rs_task_receipt_count s t of Some n \<Rightarrow> n | None \<Rightarrow> 0)"

definition pg_outcome ::
  "(UniversalReceipt \<Rightarrow> string + unit) option \<Rightarrow> UniversalReceipt \<Rightarrow> SyncRouteStatus" where
  "pg_outcome h r =
     (case h of
        None \<Rightarrow> SKIPPED | Some hook \<Rightarrow> (case hook r of Inr _ \<Rightarrow> SUCCESS | Inl _ \<Rightarrow> FAILED))"

definition triggered :: "sync_error + SyncResult \<Rightarrow> bool" where
  "triggered res = (case res of Inr x \<Rightarrow> sr_anchoring_triggered x | Inl _ \<Rightarrow> False)"

lemma sync_state:
  assumes "sync sha r s = (res, cbs, s')"
  shows "ma_leaves (rs_merkle s') = ma_leaves (rs_merkle s) @ [compute_leaf sha r]"
    and "receipt_count s' t = receipt_count s t + (if t = ur_task_id r then 1 else 0)"
    and "rs_anchoring_threshold s' = rs_anchoring_threshold s"
    and "rs_pg_insert_hook s' = rs_pg_insert_hook s"
    and "rs_pubsub s' = rs_pubsub s"
  using assms
  by (auto simp: sync_def append_leaf_def receipt_count_def Let_def case_prod_beta split: if_splits)

lemma sync_result:
  assumes "sync sha r s = (res, cbs, s')" "rs_anchoring_threshold s \<noteq> 0"
  shows "\<exists>x. res = Inr x \<and> sr_receipt_id x = ur_receipt_id r \<and> sr_pg_status x = pg_outcome (rs_pg_insert_hook s) r \<and>
      sr_pubsub_status x = SUCCESS \<and> sr_merkle_status x = SUCCESS \<and>
      (sr_anchoring_triggered x \<longleftrightarrow> (receipt_count s (ur_task_id r) + 1) mod rs_anchoring_threshold s = 0)"
  using assms
  by (auto simp: sync_def append_leaf_def receipt_count_def pg_outcome_def Let_def case_prod_beta
      split: option.splits sum.splits)

lemma sync_delivers: "sync sha r s = (res, cbs, s') \<Longrightarrow> cbs = publish (rs_pubsub s) (receipts_channel r)"
  by (auto simp: sync_def Let_def case_prod_beta split: if_splits)

lemma div_step:
  fixes c k :: int
  assumes "0 < k"
  shows "(c + 1) div k = c div k + (if (c + 1) mod k = 0 then 1 else 0)"
proof (cases "(c + 1) mod k = 0")
  case True
  then obtain q where q: "c + 1 = k * q" by auto
  with assms have "c div k = q - 1" by (intro div_pos_neg_trivial int_div_pos_eq [of _ _ _ "k - 1"]) (auto simp: algebra_simps)
  with q assms True show ?thesis by simp
next
  case False
  have "c = k * ((c + 1) div k) + ((c + 1) mod k - 1)" by (simp add: algebra_simps)
  moreover have "0 \<le> (c + 1) mod k - 1" "(c + 1) mod k - 1 < k"
    using False assms pos_mod_sign [of k "c + 1"] pos_mod_bound [of k "c + 1"] by linarith+
  ultimately have "c div k = (c + 1) div k" by (rule int_div_pos_eq)
  with False show ?thesis by simp
qed

text \<open>A service configured with the threshold 0 raises on every receipt, after the receipt has
  been stored, published, appended to the Merkle tree and counted.\<close>

lemma sync_zero_threshold_raises:
  "\<exists>cbs s'. sync sha r (new_sync_service 0) = (Inl ZeroDivisionError, cbs, s')
     \<and> ma_leaves (rs_merkle s') = [compute_leaf sha r] \<and> rs_task_receipt_count s' (ur_task_id r) = Some 1"
  by (simp add: sync_def new_sync_service_def append_leaf_def Let_def case_prod_beta)

text \<open>What a result says of a receipt, and how often anchoring was triggered for a task.\<close>

definition routed ::
  "(UniversalReceipt \<Rightarrow> string + unit) option \<Rightarrow> UniversalReceipt \<times> (sync_error + SyncResult) \<Rightarrow> bool" where
  "routed h p =
     (case snd p of
        Inl _ \<Rightarrow> False
      | Inr x \<Rightarrow> sr_receipt_id x = ur_receipt_id (fst p) \<and> sr_pg_status x = pg_outcome h (fst p) \<and>
               sr_pubsub_status x = SUCCESS \<and> sr_merkle_status x = SUCCESS)"

definition anchors :: "string \<Rightarrow> (UniversalReceipt \<times> (sync_error + SyncResult)) list \<Rightarrow> int" where
  "anchors t out = int (length (filter (\<lambda>p. ur_task_id (fst p) = t \<and> triggered (snd p)) out))"

definition occurrences :: "string \<Rightarrow> UniversalReceipt list \<Rightarrow> int" where
  "occurrences t rs = int (length (filter (\<lambda>r. ur_task_id r = t) rs))"

lemma sync_all_ConsE:
  assumes "sync_all sha (r # rs) s = (out, s')"
  obtains res cbs s1 out1 where "sync sha r s = (res, cbs, s1)" "sync_all sha rs s1 = (out1, s')"
    "out = (r, res) # out1"
  using assms by (auto simp: case_prod_beta Let_def prod_eq_iff)

lemma sync_all_leaves:
  "sync_all sha rs s = (out, s') \<Longrightarrow>
   map fst out = rs \<and> ma_leaves (rs_merkle s') = ma_leaves (rs_merkle s) @ map (compute_leaf sha) rs"
proof (induction rs arbitrary: s out)
  case (Cons r rs)
  from Cons.prems show ?case
    by (rule sync_all_ConsE) (use Cons.IH sync_state(1) in fastforce)
qed simp

lemma sync_all_routed:
  "sync_all sha rs s = (out, s') \<Longrightarrow> rs_anchoring_threshold s \<noteq> 0 \<Longrightarrow> list_all (routed (rs_pg_insert_hook s)) out"
proof (induction rs arbitrary: s out)
  case (Cons r rs)
  from Cons.prems(1) obtain res cbs s1 out1 where step: "sync sha r s = (res, cbs, s1)"
    and rest: "sync_all sha rs s1 = (out1, s')" and out: "out = (r, res) # out1"
    by (rule sync_all_ConsE)
  from Cons.IH [OF rest] Cons.prems(2) have "list_all (routed (rs_pg_insert_hook s)) out1"
    by (simp add: sync_state [OF step])
  moreover have "routed (rs_pg_insert_hook s) (r, res)"
    using sync_result [OF step Cons.prems(2)] by (auto simp: routed_def)
  ultimately show ?case by (simp add: out)
qed simp

lemma sync_all_anchors:
  "sync_all sha rs s = (out, s') \<Longrightarrow> 0 < rs_anchoring_threshold s \<Longrightarrow>
   anchors t out = (receipt_count s t + occurrences t rs) div rs_anchoring_threshold s
     - receipt_count s t div rs_anchoring_threshold s"
proof (induction rs arbitrary: s out)
  case Nil
  then show ?case by (simp add: anchors_def occurrences_def)
next
  case (Cons r rs)
  from Cons.prems(1) obtain res cbs s1 out1 where step: "sync sha r s = (res, cbs, s1)"
    and rest: "sync_all sha rs s1 = (out1, s')" and out: "out = (r, res) # out1"
    by (rule sync_all_ConsE)
  note st = sync_state [OF step]
  have trig: "triggered res \<longleftrightarrow> (receipt_count s (ur_task_id r) + 1) mod rs_anchoring_threshold s = 0"
    using sync_result [OF step] Cons.prems(2) by (auto simp: triggered_def)
  from Cons.IH [OF rest] Cons.prems(2)
  have "anchors t out1 = (receipt_count s1 t + occurrences t rs) div rs_anchoring_threshold s
     - receipt_count s1 t div rs_anchoring_threshold s" by (simp add: st)
  moreover have "anchors t out = (if t = ur_task_id r \<and> triggered res then 1 else 0) + anchors t out1"
    by (auto simp: anchors_def out)
  moreover have "occurrences t (r # rs) = (if t = ur_task_id r then 1 else 0) + occurrences t rs"
    by (auto simp: occurrences_def)
  ultimately show ?case
    using trig st(2) [of t] div_step [OF Cons.prems(2), of "receipt_count s t"]
    by (cases "t = ur_task_id r") (simp_all add: add.assoc)
qed

section \<open>What a root binds\<close>

lemma compute_root_inject:
  assumes "compute_root sha a = compute_root sha b"
    and "length (ma_leaves a) = length (ma_leaves b)"
    and "inj_on sha (merkle_inputs sha (ma_leaves a) \<union> merkle_inputs sha (ma_leaves b))"
    and "\<And>x. length (sha x) = n" "\<And>x. x \<in> set (ma_leaves a) \<union> set (ma_leaves b) \<Longrightarrow> length x = n"
  shows "ma_leaves a = ma_leaves b"
proof (cases "ma_leaves a = []")
  case False
  with assms(2) have ne: "ma_leaves b \<noteq> []" by auto
  with False obtain p q where "reduce_levels sha (ma_leaves a) = [p]" "reduce_levels sha (ma_leaves b) = [q]"
    using reduce_levels_single by metis
  with assms(1) False ne have "reduce_levels sha (ma_leaves a) = reduce_levels sha (ma_leaves b)"
    by (simp add: compute_root_def)
  from reduce_levels_inject [OF this assms(2-5)] show ?thesis .
qed (use assms(2) in simp)

text \<open>The fields of a receipt that its leaf covers.\<close>

definition receipt_key :: "(string \<Rightarrow> string) \<Rightarrow> UniversalReceipt \<Rightarrow> string \<times> string \<times> int \<times> string \<times> datetime" where
  "receipt_key sha r =
     (ur_receipt_id r, ur_task_id r, ur_step_index r, leaf_payload sha r, ur_created_at r)"

lemma leaves_determine_keys:
  assumes "map (compute_leaf sha) rs = map (compute_leaf sha) rs'" "list_all (separable sha) (rs @ rs')"
    and "inj_on sha (leaf_text sha ` set (rs @ rs'))"
  shows "map (receipt_key sha) rs = map (receipt_key sha) rs'"
proof (rule nth_equalityI)
  show len: "length (map (receipt_key sha) rs) = length (map (receipt_key sha) rs')"
    using assms(1) map_eq_imp_length_eq by fastforce
  fix i assume "i < length (map (receipt_key sha) rs)"
  then have i: "i < length rs" "i < length rs'" using len by simp_all
  then have mem: "rs ! i \<in> set (rs @ rs')" "rs' ! i \<in> set (rs @ rs')" by simp_all
  have "compute_leaf sha (rs ! i) = compute_leaf sha (rs' ! i)"
    using assms(1) i by (metis nth_map)
  then have "sha (leaf_text sha (rs ! i)) = sha (leaf_text sha (rs' ! i))"
    by (simp only: compute_leaf_text)
  then have "leaf_text sha (rs ! i) = leaf_text sha (rs' ! i)"
    by (rule inj_onD [OF assms(3)]) (use mem in \<open>simp_all only: imageI\<close>)
  then have "receipt_key sha (rs ! i) = receipt_key sha (rs' ! i)"
    using leaf_text_inject [of sha "rs ! i" "rs' ! i"] assms(2) mem
    by (simp only: receipt_key_def list_all_iff)
  with i show "map (receipt_key sha) rs ! i = map (receipt_key sha) rs' ! i" by simp
qed

text \<open>Concrete values: a stand-in digest of 32 bytes and a receipt.\<close>

definition digest32 :: "string \<Rightarrow> string" where
  "digest32 x = take 32 (x @ replicate 32 (CHR ''0''))"

definition sample_receipt :: "string \<Rightarrow> UniversalReceipt" where
  "sample_receipt rid =
     \<lparr>ur_receipt_id = rid, ur_task_id = ''t1'', ur_scenario = S1_DELEGATION, ur_step_index = 0,
      ur_generator_did = ''g'', ur_buyer_did = ''b'', ur_seller_did = ''s'',
      ur_receipt_type = S1_STEP_EXECUTED, ur_input_hash = ''i'', ur_output_hash = ''o'',
      ur_payload_hash = ''p'', ur_created_at = utc_epoch, ur_execution_duration_ms = 0,
      ur_parent_receipt_id = None, ur_previous_payload_hash = None, ur_scenario_data = None,
      ur_status = GENERATED, ur_signature = [], ur_signature_algorithm = ''ECDSA-secp256k1'',
      ur_anchor_tx = None, ur_anchor_leaf_index = None, ur_anchor_root = None\<rparr>"

section \<open>Properties\<close>

text \<open>C20. The Merkle root binds the receipts: two sequences of the same number of receipts that
  differ, at some position, in the receipt id, the task, the step, the payload hash or the creation
  time have different roots, if the ids and payload hashes contain no separator, digests have 32
  bytes and none of the strings hashed for the two trees collide.\<close>

theorem merkle_root_binds_receipts:
  assumes "length rs = length rs'" "map (receipt_key sha) rs \<noteq> map (receipt_key sha) rs'"
    and "list_all (separable sha) (rs @ rs')"
    and "\<And>x. length (sha x) = 32"
    and "inj_on sha (merkle_inputs sha (map (compute_leaf sha) rs)
          \<union> merkle_inputs sha (map (compute_leaf sha) rs') \<union> leaf_text sha ` set (rs @ rs'))"
  shows "compute_root sha \<lparr>ma_leaves = map (compute_leaf sha) rs, ma_anchor_count = m\<rparr>
       \<noteq> compute_root sha \<lparr>ma_leaves = map (compute_leaf sha) rs', ma_anchor_count = n\<rparr>"
proof -
  have "map (compute_leaf sha) rs \<noteq> map (compute_leaf sha) rs'"
  proof
    assume eq: "map (compute_leaf sha) rs = map (compute_leaf sha) rs'"
    have "inj_on sha (leaf_text sha ` set (rs @ rs'))" by (rule inj_on_subset [OF assms(5)]) blast
    from leaves_determine_keys [OF eq assms(3) this] assms(2) show False by simp
  qed
  moreover have "inj_on sha (merkle_inputs sha (map (compute_leaf sha) rs)
          \<union> merkle_inputs sha (map (compute_leaf sha) rs'))"
    by (rule inj_on_subset [OF assms(5)]) blast
  ultimately show ?thesis
    using compute_root_inject [of sha "\<lparr>ma_leaves = map (compute_leaf sha) rs, ma_anchor_count = m\<rparr>"
        "\<lparr>ma_leaves = map (compute_leaf sha) rs', ma_anchor_count = n\<rparr>" 32] assms(1,4)
    by (auto simp: compute_leaf_text)
qed

theorem merkle_root_binds_receipts_witness:
  "compute_root digest32 \<lparr>ma_leaves = map (compute_leaf digest32) [sample_receipt ''r1''], ma_anchor_count = 0\<rparr>
   \<noteq> compute_root digest32 \<lparr>ma_leaves = map (compute_leaf digest32) [sample_receipt ''r2''], ma_anchor_count = 0\<rparr>"
proof (rule merkle_root_binds_receipts)
  have "digest32 (leaf_text digest32 (sample_receipt ''r1'')) \<noteq> digest32 (leaf_text digest32 (sample_receipt ''r2''))"
    by code_simp
  then show "inj_on digest32 (merkle_inputs digest32 (map (compute_leaf digest32) [sample_receipt ''r1''])
      \<union> merkle_inputs digest32 (map (compute_leaf digest32) [sample_receipt ''r2''])
      \<union> leaf_text digest32 ` set ([sample_receipt ''r1''] @ [sample_receipt ''r2'']))"
    by (auto simp: merkle_inputs.simps)
qed (simp_all add: digest32_def receipt_key_def sample_receipt_def separable_def leaf_payload_def
      datetime_ok_def utc_epoch_def)

text \<open>The Merkle root does not bind the number of receipts: repeating the last leaf of a tree
  with an odd number of at least three leaves gives another tree with the same root, whatever the
  hash function.\<close>

lemma merkle_root_repeats_last:
  assumes "odd (leaf_count a)" "3 \<le> leaf_count a"
  shows "compute_root sha (snd (append_leaf (last (ma_leaves a)) a)) = compute_root sha a"
proof -
  have "ma_leaves a \<noteq> []" using assms by (auto simp: leaf_count_def)
  then have "reduce_levels sha (ma_leaves a @ [last (ma_leaves a)]) = reduce_levels sha (ma_leaves a)"
    using assms next_level_odd [of "ma_leaves a" sha]
    by (simp add: leaf_count_def reduce_levels.simps [of sha "ma_leaves a"]
        reduce_levels.simps [of sha "ma_leaves a @ [last (ma_leaves a)]"])
  with assms show ?thesis by (auto simp: compute_root_def append_leaf_def leaf_count_def)
qed

text \<open>Whatever sequence of receipts is synced, with a positive threshold: every receipt's leaf
  is appended in order, the pub/sub and Merkle routes succeed whatever the insert hook does and its
  failure shows only in the status of its own route, and anchoring is triggered for a task exactly
  once every \<open>threshold\<close> receipts of that task.\<close>

lemma sync_routes_and_anchoring:
  assumes "sync_all sha rs (new_sync_service k\<lparr>rs_pg_insert_hook := h\<rparr>) = (out, s')" "0 < k"
  shows "map fst out = rs \<and> ma_leaves (rs_merkle s') = map (compute_leaf sha) rs
    \<and> list_all (routed h) out
    \<and> anchors t out = occurrences t rs div k"
  using sync_all_leaves [OF assms(1)] sync_all_routed [OF assms(1)] sync_all_anchors [OF assms(1), of t] assms(2)
  by (simp add: new_sync_service_def receipt_count_def)

end
