(* ===== verification/Billing_Anchoring.thy ===== *)
theory Billing_Anchoring
  imports Complex_Main Json
begin

text \<open>
  The anchoring bridge (\<^verbatim>\<open>packages/karma_billing/bridge.py\<close>): the in-memory receipt service and the
  policy that decides when a batch of receipts goes to the on-chain anchor. A receipt is the dict
  of its items, ids are strings or other scalars. The anchor client is external: \<open>append_batch\<close> is
  a parameter that raises a message or returns a result for a batch, and the bridge state lists
  the batches it has accepted. The clock readings of a call are arguments.

  The lemmas show that receipts with distinct ids are submitted at most once, in batches within the
  policy's limit, over any sequence of operations.
\<close>

section \<open>Policy and state\<close>

type_synonym receipt_dict = "(string \<times> json) list"

record AnchoringPolicy =
  po_anchor_every_n_receipts :: int
  po_anchor_every_n_seconds :: int
  po_anchor_on_state_change :: bool
  po_anchor_on_milestone :: bool
  po_force_anchor_states :: "string list"
  po_max_batch_size :: int
  po_min_batch_size :: int

definition default_policy :: AnchoringPolicy where
  "default_policy =
     \<lparr>po_anchor_every_n_receipts = 3, po_anchor_every_n_seconds = 30, po_anchor_on_state_change = True,
      po_anchor_on_milestone = True,
      po_force_anchor_states =
        [''funded'', ''delivered'', ''verified'', ''settled'', ''disputed'', ''frozen''],
      po_max_batch_size = 10, po_min_batch_size = 1\<rparr>"

record 'res AnchoringState =
  an_task_id :: string
  an_unanchored_count :: int
  an_last_anchor_time :: rat
  an_last_state :: string
  an_total_anchored :: int
  an_last_result :: "'res option"

definition new_anchoring_state :: "string \<Rightarrow> 'res AnchoringState" where
  "new_anchoring_state task_id =
     \<lparr>an_task_id = task_id, an_unanchored_count = 0, an_last_anchor_time = 0, an_last_state = [],
      an_total_anchored = 0, an_last_result = None\<rparr>"

section \<open>The in-memory receipt service\<close>

record SimpleMemReceiptSync =
  me_receipts :: "string \<rightharpoonup> receipt_dict list"
  me_states :: "string \<rightharpoonup> string"
  me_anchored :: "string \<rightharpoonup> json set"

definition empty_sync :: SimpleMemReceiptSync where
  "empty_sync = \<lparr>me_receipts = Map.empty, me_states = Map.empty, me_anchored = Map.empty\<rparr>"

definition add_receipt :: "string \<Rightarrow> receipt_dict \<Rightarrow> SimpleMemReceiptSync \<Rightarrow> SimpleMemReceiptSync" where
  "add_receipt task_id receipt s =
     s\<lparr>me_receipts := (me_receipts s)
        (task_id \<mapsto> (case me_receipts s task_id of Some rs \<Rightarrow> rs | None \<Rightarrow> []) @ [receipt])\<rparr>"

definition set_state :: "string \<Rightarrow> string \<Rightarrow> SimpleMemReceiptSync \<Rightarrow> SimpleMemReceiptSync" where
  "set_state task_id state s = s\<lparr>me_states := (me_states s)(task_id \<mapsto> state)\<rparr>"

text \<open>\<^verbatim>\<open>xs[:limit]\<close>\<close>

definition slice_to :: "int \<Rightarrow> 'a list \<Rightarrow> 'a list" where
  "slice_to limit xs = take (nat (if limit < 0 then int (length xs) + limit else limit)) xs"

definition get_or :: "receipt_dict \<Rightarrow> string \<Rightarrow> json \<Rightarrow> json" where
  "get_or d k dflt = (case dict_get d k of Some v \<Rightarrow> v | None \<Rightarrow> dflt)"

definition listed_id :: "nat \<times> receipt_dict \<Rightarrow> json" where
  "listed_id ir = get_or (snd ir) ''id'' (JStr (''rec-'' @ nat_str (fst ir)))"

definition get_unanchored_receipts :: "SimpleMemReceiptSync \<Rightarrow> string \<Rightarrow> int \<Rightarrow> receipt_dict list" where
  "get_unanchored_receipts s task_id limit =
     (let all_receipts = (case me_receipts s task_id of Some rs \<Rightarrow> rs | None \<Rightarrow> []);
          anchored = (case me_anchored s task_id of Some a \<Rightarrow> a | None \<Rightarrow> {});
          unanchored = map snd (filter (\<lambda>ir. listed_id ir \<notin> anchored) (enumerate 0 all_receipts))
      in slice_to limit unanchored)"

definition get_task_state :: "SimpleMemReceiptSync \<Rightarrow> string \<Rightarrow> string" where
  "get_task_state s task_id = (case me_states s task_id of Some st \<Rightarrow> st | None \<Rightarrow> ''unknown'')"

definition mark_receipts_anchored ::
  "string \<Rightarrow> json list \<Rightarrow> SimpleMemReceiptSync \<Rightarrow> SimpleMemReceiptSync" where
  "mark_receipts_anchored task_id receipt_ids s =
     s\<lparr>me_anchored := (me_anchored s)
        (task_id \<mapsto> (case me_anchored s task_id of Some a \<Rightarrow> a | None \<Rightarrow> {}) \<union> set receipt_ids)\<rparr>"

section \<open>The bridge\<close>

record 'res AnchoringBridge =
  ab_sync :: SimpleMemReceiptSync
  ab_policy :: AnchoringPolicy
  ab_states :: "string \<rightharpoonup> 'res AnchoringState"
  ab_submitted :: "(string \<times> receipt_dict list) list"

definition new_bridge :: "AnchoringPolicy \<Rightarrow> SimpleMemReceiptSync \<Rightarrow> 'res AnchoringBridge" where
  "new_bridge p s = \<lparr>ab_sync = s, ab_policy = p, ab_states = Map.empty, ab_submitted = []\<rparr>"

definition do_anchor ::
  "(receipt_dict list \<Rightarrow> string + 'res) \<Rightarrow> rat \<Rightarrow> string \<Rightarrow> receipt_dict list \<Rightarrow> 'res AnchoringBridge
   \<Rightarrow> (string + 'res option) \<times> 'res AnchoringBridge" where
  "do_anchor append_batch now task_id receipts b =
     (if receipts = [] then (Inr None, b)
      else case append_batch receipts of
        Inl e \<Rightarrow> (Inl e, b)
      | Inr result \<Rightarrow>
          let state = (case ab_states b task_id of Some st \<Rightarrow> st | None \<Rightarrow> new_anchoring_state task_id);
              receipt_ids = map (\<lambda>r. get_or r ''id'' (JStr [])) receipts;
              state' = state\<lparr>an_last_anchor_time := now,
                             an_total_anchored := an_total_anchored state + int (length receipts),
                             an_unanchored_count := 0, an_last_result := Some result\<rparr>
          in (Inr (Some result),
              b\<lparr>ab_sync := mark_receipts_anchored task_id receipt_ids (ab_sync b),
                ab_states := (ab_states b)(task_id \<mapsto> state'),
                ab_submitted := ab_submitted b @ [(task_id, receipts)]\<rparr>))"

definition force_anchor ::
  "(receipt_dict list \<Rightarrow> string + 'res) \<Rightarrow> rat \<Rightarrow> string \<Rightarrow> 'res AnchoringBridge
   \<Rightarrow> (string + 'res option) \<times> 'res AnchoringBridge" where
  "force_anchor append_batch now task_id b =
     (let receipts = get_unanchored_receipts (ab_sync b) task_id (po_max_batch_size (ab_policy b))
      in if receipts = [] then (Inr None, b) else do_anchor append_batch now task_id receipts b)"

text \<open>The clock is read once for the decision and once more when a batch is submitted.\<close>

definition check_and_anchor ::
  "(receipt_dict list \<Rightarrow> string + 'res) \<Rightarrow> rat \<Rightarrow> rat \<Rightarrow> string \<Rightarrow> 'res AnchoringBridge
   \<Rightarrow> (string + 'res option) \<times> 'res AnchoringBridge" where
  "check_and_anchor append_batch now now' task_id b0 =
     (let b = (if ab_states b0 task_id = None
               then b0\<lparr>ab_states := (ab_states b0)(task_id \<mapsto> new_anchoring_state task_id)\<rparr> else b0);
          state = the (ab_states b task_id);
          policy = ab_policy b;
          current_state = get_task_state (ab_sync b) task_id;
          state_changed = (current_state \<noteq> an_last_state state)
      in if state_changed \<and> current_state \<in> set (po_force_anchor_states policy)
         then force_anchor append_batch now' task_id b
         else if po_anchor_on_milestone policy \<and> state_changed \<and>
                 current_state \<in> set (po_force_anchor_states policy)
         then force_anchor append_batch now' task_id b
         else
           let receipts = get_unanchored_receipts (ab_sync b) task_id (po_max_batch_size policy);
               count = int (length receipts);
               b1 = b\<lparr>ab_states := (ab_states b)
                   (task_id \<mapsto> state\<lparr>an_unanchored_count := count, an_last_state := current_state\<rparr>)\<rparr>
           in if po_anchor_every_n_receipts policy > 0 \<and> count \<ge> po_anchor_every_n_receipts policy
              then do_anchor append_batch now' task_id receipts b1
              else if po_anchor_every_n_seconds policy > 0 \<and> an_last_anchor_time state > 0 \<and>
                      now - an_last_anchor_time state \<ge> of_int (po_anchor_every_n_seconds policy) \<and>
                      count \<ge> po_min_batch_size policy
              then do_anchor append_batch now' task_id receipts b1
              else if po_anchor_on_state_change policy \<and> state_changed
              then do_anchor append_batch now' task_id receipts b1
              else (Inr None, b1))"

definition get_state :: "'res AnchoringBridge \<Rightarrow> string \<Rightarrow> 'res AnchoringState option" where
  "get_state b task_id = ab_states b task_id"

text \<open>The periodic checker catches what a check raises; this is the first \<open>n\<close> rounds of its loop,
  given the clock readings of each.\<close>

fun periodic_check ::
  "(receipt_dict list \<Rightarrow> string + 'res) \<Rightarrow> (rat \<times> rat) list \<Rightarrow> string \<Rightarrow> 'res AnchoringBridge
   \<Rightarrow> 'res AnchoringBridge" where
  "periodic_check append_batch [] task_id b = b"
| "periodic_check append_batch ((now, now') # clocks) task_id b =
     periodic_check append_batch clocks task_id (snd (check_and_anchor append_batch now now' task_id b))"

section \<open>Helpers\<close>

definition str_to_fixed_bytes :: "string \<Rightarrow> nat \<Rightarrow> string" where
  "str_to_fixed_bytes s len = (let b = take len (utf8 s) in b @ replicate (len - length b) (CHR 0x00))"

lemma length_str_to_fixed_bytes: "length (str_to_fixed_bytes s n) = n"
  by (simp add: str_to_fixed_bytes_def Let_def)

section \<open>One call submits a batch or nothing\<close>

definition ids_of :: "receipt_dict list \<Rightarrow> json list" where
  "ids_of rs = map (\<lambda>r. get_or r ''id'' (JStr [])) rs"

definition all_of :: "SimpleMemReceiptSync \<Rightarrow> string \<Rightarrow> receipt_dict list" where
  "all_of s t = (case me_receipts s t of Some rs \<Rightarrow> rs | None \<Rightarrow> [])"

definition anchored_of :: "SimpleMemReceiptSync \<Rightarrow> string \<Rightarrow> json set" where
  "anchored_of s t = (case me_anchored s t of Some a \<Rightarrow> a | None \<Rightarrow> {})"

definition has_id :: "receipt_dict \<Rightarrow> bool" where
  "has_id r \<longleftrightarrow> dict_get r ''id'' \<noteq> None"

text \<open>The batches accepted for a task, one after the other.\<close>

definition submitted_for :: "'res AnchoringBridge \<Rightarrow> string \<Rightarrow> receipt_dict list" where
  "submitted_for b t = concat (map snd (filter (\<lambda>p. fst p = t) (ab_submitted b)))"

lemma do_anchor_effect:
  assumes "do_anchor ap now t rs b = (res, b')"
  shows "ab_policy b' = ab_policy b"
    and "(ab_sync b' = ab_sync b \<and> ab_submitted b' = ab_submitted b)
       \<or> (rs \<noteq> [] \<and> ab_sync b' = mark_receipts_anchored t (ids_of rs) (ab_sync b)
          \<and> ab_submitted b' = ab_submitted b @ [(t, rs)])"
  using assms by (auto simp: do_anchor_def Let_def ids_of_def split: if_splits sum.splits)

text \<open>The decision of a check in one condition each: a forced batch, or a due one.\<close>

definition tracked :: "'res AnchoringBridge \<Rightarrow> string \<Rightarrow> 'res AnchoringState" where
  "tracked b t = (case ab_states b t of Some st \<Rightarrow> st | None \<Rightarrow> new_anchoring_state t)"

definition forced :: "'res AnchoringBridge \<Rightarrow> string \<Rightarrow> bool" where
  "forced b t \<longleftrightarrow> get_task_state (ab_sync b) t \<noteq> an_last_state (tracked b t) \<and>
     get_task_state (ab_sync b) t \<in> set (po_force_anchor_states (ab_policy b))"

definition due :: "'res AnchoringBridge \<Rightarrow> rat \<Rightarrow> string \<Rightarrow> bool" where
  "due b now t \<longleftrightarrow>
     (let p = ab_policy b; st = tracked b t;
          count = int (length (get_unanchored_receipts (ab_sync b) t (po_max_batch_size p)))
      in po_anchor_every_n_receipts p > 0 \<and> count \<ge> po_anchor_every_n_receipts p
       \<or> po_anchor_every_n_seconds p > 0 \<and> an_last_anchor_time st > 0 \<and>
         now - an_last_anchor_time st \<ge> of_int (po_anchor_every_n_seconds p) \<and> count \<ge> po_min_batch_size p
       \<or> po_anchor_on_state_change p \<and> get_task_state (ab_sync b) t \<noteq> an_last_state st)"

definition noted :: "'res AnchoringBridge \<Rightarrow> string \<Rightarrow> 'res AnchoringBridge" where
  "noted b t = b\<lparr>ab_states := (ab_states b)(t \<mapsto> (tracked b t)
     \<lparr>an_unanchored_count := int (length (get_unanchored_receipts (ab_sync b) t (po_max_batch_size (ab_policy b)))),
      an_last_state := get_task_state (ab_sync b) t\<rparr>)\<rparr>"

lemma force_anchor_eq:
  "force_anchor ap now t b =
   do_anchor ap now t (get_unanchored_receipts (ab_sync b) t (po_max_batch_size (ab_policy b))) b"
  by (simp add: force_anchor_def do_anchor_def Let_def)

lemma check_cases:
  "check_and_anchor ap now now' t b =
     (let rs = get_unanchored_receipts (ab_sync b) t (po_max_batch_size (ab_policy b))
      in if forced b t then do_anchor ap now' t rs (b\<lparr>ab_states := (ab_states b)(t \<mapsto> tracked b t)\<rparr>)
         else if due b now t then do_anchor ap now' t rs (noted b t)
         else (Inr None, noted b t))"
proof -
  have same: "b\<lparr>ab_states := (ab_states b)(t \<mapsto> x)\<rparr> = b" if "ab_states b t = Some x" for x
    using that by (cases b) (simp add: map_upd_triv)
  show ?thesis
    by (cases "ab_states b t")
      (auto simp add: check_and_anchor_def force_anchor_eq forced_def due_def noted_def tracked_def
        Let_def same)
qed

lemma check_effect:
  assumes "check_and_anchor ap now now' t b = (res, b')"
    and "rs = get_unanchored_receipts (ab_sync b) t (po_max_batch_size (ab_policy b))"
  shows "ab_policy b' = ab_policy b"
    and "(ab_sync b' = ab_sync b \<and> ab_submitted b' = ab_submitted b)
       \<or> (rs \<noteq> [] \<and> ab_sync b' = mark_receipts_anchored t (ids_of rs) (ab_sync b)
          \<and> ab_submitted b' = ab_submitted b @ [(t, rs)])"
  using assms do_anchor_effect [of ap now' t rs "b\<lparr>ab_states := (ab_states b)(t \<mapsto> tracked b t)\<rparr>" res b']
    do_anchor_effect [of ap now' t rs "noted b t" res b']
  by (auto simp: check_cases Let_def noted_def split: if_splits)

section \<open>Receipts with distinct ids are submitted at most once\<close>

text \<open>Operations of the receipt service and the bridge in some order.\<close>

datatype bridge_op =
    Add_receipt string receipt_dict
  | Set_state string string
  | Check string rat rat
  | Force string rat

fun run_op :: "(receipt_dict list \<Rightarrow> string + 'res) \<Rightarrow> bridge_op \<Rightarrow> 'res AnchoringBridge \<Rightarrow> 'res AnchoringBridge" where
  "run_op ap (Add_receipt t r) b = b\<lparr>ab_sync := add_receipt t r (ab_sync b)\<rparr>"
| "run_op ap (Set_state t st) b = b\<lparr>ab_sync := set_state t st (ab_sync b)\<rparr>"
| "run_op ap (Check t now now') b = snd (check_and_anchor ap now now' t b)"
| "run_op ap (Force t now) b = snd (force_anchor ap now t b)"

definition run_ops ::
  "(receipt_dict list \<Rightarrow> string + 'res) \<Rightarrow> bridge_op list \<Rightarrow> 'res AnchoringBridge \<Rightarrow> 'res AnchoringBridge" where
  "run_ops ap ops b = fold (run_op ap) ops b"

definition bridge_inv :: "'res AnchoringBridge \<Rightarrow> bool" where
  "bridge_inv b \<longleftrightarrow> (\<forall>t.
     set (submitted_for b t) \<subseteq> set (all_of (ab_sync b) t) \<and>
     anchored_of (ab_sync b) t = set (ids_of (submitted_for b t)) \<and>
     distinct (ids_of (submitted_for b t)))"

text \<open>The receipts of a task all have an id, and no two of them the same.\<close>

definition well_identified :: "receipt_dict list \<Rightarrow> bool" where
  "well_identified rs \<longleftrightarrow> list_all has_id rs \<and> distinct (ids_of rs)"

lemma listed_id_has_id: "has_id r \<Longrightarrow> listed_id (i, r) = get_or r ''id'' (JStr [])"
  by (auto simp: listed_id_def get_or_def has_id_def)

lemma unanchored_filter:
  assumes "list_all has_id (all_of s t)"
  shows "get_unanchored_receipts s t n
    = slice_to n (filter (\<lambda>r. get_or r ''id'' (JStr []) \<notin> anchored_of s t) (all_of s t))"
proof -
  have "map snd (filter (\<lambda>ir. listed_id ir \<notin> A) (enumerate i rs))
      = filter (\<lambda>r. get_or r ''id'' (JStr []) \<notin> A) rs" if "list_all has_id rs" for i rs A
    using that by (induction rs arbitrary: i) (auto simp: listed_id_has_id)
  from this [OF assms] show ?thesis
    by (simp add: get_unanchored_receipts_def all_of_def anchored_of_def Let_def)
qed

lemma slice_to_prefix: "\<exists>ys. xs = slice_to n xs @ ys"
  by (metis slice_to_def append_take_drop_id)

lemma unanchored_fresh:
  assumes "well_identified (all_of s t)"
    and rs: "rs = get_unanchored_receipts s t n"
  shows "set rs \<subseteq> set (all_of s t)" "distinct (ids_of rs)"
    and "set (ids_of rs) \<inter> anchored_of s t = {}"
proof -
  let ?f = "filter (\<lambda>r. get_or r ''id'' (JStr []) \<notin> anchored_of s t) (all_of s t)"
  from assms obtain ys where ys: "?f = rs @ ys"
    using slice_to_prefix [of ?f n] by (auto simp: well_identified_def unanchored_filter)
  have "distinct (ids_of ?f)"
    using assms(1) by (auto simp: well_identified_def ids_of_def intro: distinct_map_filter)
  with ys show "distinct (ids_of rs)" by (simp add: ids_of_def)
  have sub: "set rs \<subseteq> set ?f" unfolding ys by simp
  then show "set rs \<subseteq> set (all_of s t)" "set (ids_of rs) \<inter> anchored_of s t = {}"
    by (auto simp: ids_of_def)
qed

lemma mark_all_of: "all_of (mark_receipts_anchored t ids s) u = all_of s u"
  by (simp add: mark_receipts_anchored_def all_of_def)

lemma mark_anchored_of:
  "anchored_of (mark_receipts_anchored t ids s) u = anchored_of s u \<union> (if u = t then set ids else {})"
  by (simp add: mark_receipts_anchored_def anchored_of_def)

lemma bridge_inv_submit:
  assumes "bridge_inv b" "well_identified (all_of (ab_sync b) t)"
    and "rs = get_unanchored_receipts (ab_sync b) t n"
    and "ab_sync b' = mark_receipts_anchored t (ids_of rs) (ab_sync b)"
    and "ab_submitted b' = ab_submitted b @ [(t, rs)]"
  shows "bridge_inv b'"
proof -
  have sub: "submitted_for b' u = submitted_for b u @ (if u = t then rs else [])" for u
    using assms(5) by (simp add: submitted_for_def)
  show ?thesis
    unfolding bridge_inv_def
  proof
    fix u
    note inv = assms(1) [unfolded bridge_inv_def, THEN spec, of u]
    show "set (submitted_for b' u) \<subseteq> set (all_of (ab_sync b') u) \<and>
       anchored_of (ab_sync b') u = set (ids_of (submitted_for b' u)) \<and>
       distinct (ids_of (submitted_for b' u))"
      using inv unanchored_fresh [OF assms(2,3)]
      by (cases "u = t") (auto simp: sub assms(4) mark_all_of mark_anchored_of ids_of_def)
  qed
qed

lemma bridge_inv_same:
  assumes "bridge_inv b" "ab_submitted b' = ab_submitted b"
    and "\<And>u. anchored_of (ab_sync b') u = anchored_of (ab_sync b) u"
    and "\<And>u. set (all_of (ab_sync b) u) \<subseteq> set (all_of (ab_sync b') u)"
  shows "bridge_inv b'"
  unfolding bridge_inv_def
proof
  fix u
  have "submitted_for b' u = submitted_for b u" using assms(2) by (simp add: submitted_for_def)
  with assms(1) [unfolded bridge_inv_def, THEN spec, of u] assms(3,4) [of u]
  show "set (submitted_for b' u) \<subseteq> set (all_of (ab_sync b') u) \<and>
       anchored_of (ab_sync b') u = set (ids_of (submitted_for b' u)) \<and>
       distinct (ids_of (submitted_for b' u))" by auto
qed

lemma bridge_inv_effect:
  assumes "bridge_inv b" "well_identified (all_of (ab_sync b) t)"
    and "rs = get_unanchored_receipts (ab_sync b) t n"
    and "(ab_sync b' = ab_sync b \<and> ab_submitted b' = ab_submitted b)
       \<or> (rs \<noteq> [] \<and> ab_sync b' = mark_receipts_anchored t (ids_of rs) (ab_sync b)
          \<and> ab_submitted b' = ab_submitted b @ [(t, rs)])"
  shows "bridge_inv b'"
  using assms(4)
proof
  assume "ab_sync b' = ab_sync b \<and> ab_submitted b' = ab_submitted b"
  then show ?thesis by (intro bridge_inv_same [OF assms(1)]) simp_all
next
  assume "rs \<noteq> [] \<and> ab_sync b' = mark_receipts_anchored t (ids_of rs) (ab_sync b)
          \<and> ab_submitted b' = ab_submitted b @ [(t, rs)]"
  then show ?thesis by (intro bridge_inv_submit [OF assms(1-3)]) simp_all
qed

lemma force_effect:
  assumes "rs = get_unanchored_receipts (ab_sync b) t (po_max_batch_size (ab_policy b))"
    and "b' = snd (force_anchor ap now t b)"
  shows "(ab_sync b' = ab_sync b \<and> ab_submitted b' = ab_submitted b)
       \<or> (rs \<noteq> [] \<and> ab_sync b' = mark_receipts_anchored t (ids_of rs) (ab_sync b)
          \<and> ab_submitted b' = ab_submitted b @ [(t, rs)])"
  using do_anchor_effect(2) [of ap now t rs b, OF prod.collapse [symmetric]] assms
  by (simp add: force_anchor_eq)

lemma run_op_inv:
  assumes "bridge_inv b" "\<And>t. well_identified (all_of (ab_sync b) t)"
  shows "bridge_inv (run_op ap op b)"
proof (cases op)
  case (Add_receipt t r)
  show ?thesis
    by (rule bridge_inv_same [OF assms(1)])
      (auto simp: Add_receipt add_receipt_def anchored_of_def all_of_def split: option.splits)
next
  case (Set_state t st)
  show ?thesis
    by (rule bridge_inv_same [OF assms(1)]) (auto simp: Set_state set_state_def anchored_of_def all_of_def)
next
  case (Check t now now')
  show ?thesis
    unfolding Check run_op.simps
    by (rule bridge_inv_effect [OF assms refl check_effect(2) [OF prod.collapse [symmetric] refl]])
next
  case (Force t now)
  show ?thesis
    unfolding Force run_op.simps by (rule bridge_inv_effect [OF assms refl force_effect [OF refl refl]])
qed

lemma run_op_all_of: "\<exists>xs. all_of (ab_sync (run_op ap op b)) t = all_of (ab_sync b) t @ xs"
proof (cases op)
  case (Check u now now')
  from check_effect(2) [of ap now now' u b, OF prod.collapse [symmetric] refl] show ?thesis
    by (auto simp: Check mark_all_of)
next
  case (Force u now)
  from force_effect [where b = b and t = u and ap = ap and now = now, OF refl refl] show ?thesis by (auto simp: Force mark_all_of)
qed (auto simp: add_receipt_def set_state_def all_of_def split: option.splits)

lemma well_identified_prefix: "well_identified (xs @ ys) \<Longrightarrow> well_identified xs"
  by (simp add: well_identified_def ids_of_def)

lemma run_ops_inv:
  assumes "bridge_inv b" "\<And>t. well_identified (all_of (ab_sync (run_ops ap ops b)) t)"
  shows "bridge_inv (run_ops ap ops b)"
  using assms
proof (induction ops rule: rev_induct)
  case (snoc op ops)
  let ?b = "run_ops ap ops b"
  have step: "run_ops ap (ops @ [op]) b = run_op ap op ?b" by (simp add: run_ops_def)
  have "well_identified (all_of (ab_sync ?b) t)" for t
    using snoc.prems(2) [of t] run_op_all_of [of ap op ?b t] well_identified_prefix by (auto simp: step)
  with snoc.IH snoc.prems(1) show ?case unfolding step by (blast intro: run_op_inv)
qed (simp add: run_ops_def)

definition batches_bounded :: "'res AnchoringBridge \<Rightarrow> bool" where
  "batches_bounded b \<longleftrightarrow>
     list_all (\<lambda>p. snd p \<noteq> [] \<and> int (length (snd p)) \<le> po_max_batch_size (ab_policy b)) (ab_submitted b)"

lemma unanchored_bounded:
  "0 \<le> n \<Longrightarrow> int (length (get_unanchored_receipts s t n)) \<le> n"
  by (simp add: get_unanchored_receipts_def slice_to_def Let_def)

lemma run_op_bounded:
  assumes "batches_bounded b" "0 \<le> po_max_batch_size (ab_policy b)"
  shows "batches_bounded (run_op ap op b) \<and> ab_policy (run_op ap op b) = ab_policy b"
proof -
  note bd = unanchored_bounded [OF assms(2)]
  show ?thesis
  proof (cases op)
    case (Check u now now')
    from check_effect [of ap now now' u b, OF prod.collapse [symmetric] refl] assms(1) bd show ?thesis
      by (auto simp: Check batches_bounded_def)
  next
    case (Force u now)
    from do_anchor_effect(1) [of ap now u _ b, OF prod.collapse [symmetric]]
    have "ab_policy (snd (force_anchor ap now u b)) = ab_policy b" by (simp add: force_anchor_eq)
    with force_effect [where b = b and t = u and ap = ap and now = now, OF refl refl] assms(1) bd show ?thesis
      by (auto simp: Force batches_bounded_def)
  qed (use assms(1) in \<open>simp_all add: batches_bounded_def\<close>)
qed

lemma run_ops_bounded:
  assumes "batches_bounded b" "0 \<le> po_max_batch_size (ab_policy b)"
  shows "batches_bounded (run_ops ap ops b) \<and> ab_policy (run_ops ap ops b) = ab_policy b"
  using assms
proof (induction ops rule: rev_induct)
  case (snoc op ops)
  then show ?case using run_op_bounded [of "run_ops ap ops b" ap op] by (simp add: run_ops_def)
qed (simp add: run_ops_def)

lemma new_bridge_inv: "bridge_inv (new_bridge p empty_sync)" "batches_bounded (new_bridge p empty_sync)"
  by (simp_all add: bridge_inv_def batches_bounded_def new_bridge_def empty_sync_def submitted_for_def
      anchored_of_def ids_of_def)

section \<open>A forced state is never recorded\<close>

lemma forced_again:
  assumes "forced b t"
  shows "forced (snd (check_and_anchor ap now now' t b)) t"
proof -
  let ?rs = "get_unanchored_receipts (ab_sync b) t (po_max_batch_size (ab_policy b))"
  let ?b = "b\<lparr>ab_states := (ab_states b)(t \<mapsto> tracked b t)\<rparr>"
  have "get_task_state (ab_sync (snd (do_anchor ap now' t ?rs ?b))) t = get_task_state (ab_sync b) t"
    "an_last_state (tracked (snd (do_anchor ap now' t ?rs ?b)) t) = an_last_state (tracked b t)"
    "ab_policy (snd (do_anchor ap now' t ?rs ?b)) = ab_policy b"
    by (simp_all add: do_anchor_def Let_def get_task_state_def mark_receipts_anchored_def tracked_def
        split: sum.splits)
  with assms show ?thesis by (simp add: check_cases Let_def forced_def)
qed

section \<open>Properties\<close>


definition sample_ops :: "bridge_op list" where
  "sample_ops = [Add_receipt ''t'' [(''id'', JStr ''a'')], Check ''t'' 1 1, Check ''t'' 2 2]"

definition sample_bridge :: "unit AnchoringBridge" where
  "sample_bridge = run_ops (\<lambda>rs. Inr ()) sample_ops (new_bridge default_policy empty_sync)"

lemma sample_bridge_all: "all_of (ab_sync sample_bridge) t = (if t = ''t'' then [[(''id'', JStr ''a'')]] else [])"
  by (simp add: sample_bridge_def sample_ops_def run_ops_def check_cases Let_def do_anchor_def noted_def
      all_of_def add_receipt_def new_bridge_def empty_sync_def mark_receipts_anchored_def)


text \<open>A receipt without an id is anchored again and again: it is listed as unanchored under its
  position but marked as anchored under the empty string.\<close>

lemma receipt_without_id_anchored_twice:
  "submitted_for (run_ops (\<lambda>rs. Inr ()) [Add_receipt ''t'' [], Check ''t'' 1 1, Check ''t'' 40 40]
     (new_bridge default_policy empty_sync)) ''t'' = [[], []]"
  by code_simp

text \<open>When the billing state is one that forces anchoring and differs from the recorded one, no
  number of checks records it: every later check is forced again, so that the count and time
  thresholds are never consulted for the task.\<close>

lemma forced_state_never_recorded:
  assumes "forced b t"
  shows "forced (periodic_check ap clocks t b) t"
  using assms
proof (induction clocks arbitrary: b)
  case (Cons c clocks)
  then show ?case by (cases c) (simp add: forced_again)
qed simp

end
