(* ===== verification/Billing_Hub.thy ===== *)
theory Billing_Hub
  imports Billing_Machine
begin

text \<open>
  The WebSocket hub (\<^verbatim>\<open>packages/karma_billing/ws_hub.py\<close>): connections with their queues, the
  subscriptions of a task and the events pushed to them. A queue is the list of its messages with
  its capacity, 0 for an unbounded one; \<open>put_nowait\<close> raises on a full queue.

  \<^verbatim>\<open>WSConnection\<close> is declared with \<^verbatim>\<open>@dataclass\<close>, which generates \<^verbatim>\<open>__eq__\<close> and, without
  \<^verbatim>\<open>frozen\<close> or \<^verbatim>\<open>unsafe_hash\<close>, sets \<^verbatim>\<open>__hash__\<close> to None: adding a connection to a set, or
  discarding one from it, raises TypeError. The lemmas follow this through to its consequence.
\<close>

section \<open>Messages and connections\<close>

record WSPayload =
  wp_receipt :: "UniversalReceipt option"
  wp_billing_state :: "string option"
  wp_step_current :: nat
  wp_step_total :: nat
  wp_cost_accrued_usdc :: rat
  wp_latest_merkle_root :: "string option"
  wp_anchored_count :: nat

record WSMessage =
  wm_event :: string
  wm_task_id :: string
  wm_timestamp :: string
  wm_payload :: WSPayload

record WSConnection =
  wc_task_id :: string
  wc_role :: string
  wc_token :: string
  wc_queue :: "WSMessage list"
  wc_maxsize :: nat

definition empty_payload :: WSPayload where
  "empty_payload =
     \<lparr>wp_receipt = None, wp_billing_state = None, wp_step_current = 0, wp_step_total = 0,
      wp_cost_accrued_usdc = 0, wp_latest_merkle_root = None, wp_anchored_count = 0\<rparr>"

section \<open>Subscriptions\<close>

datatype hub_error = TypeError | QueueFull

type_synonym WebSocketHub = "(string \<times> WSConnection list) list"

definition connection_hashable :: bool where
  "connection_hashable = False"

definition subscribers :: "WebSocketHub \<Rightarrow> string \<Rightarrow> WSConnection list" where
  "subscribers h task_id = (case map_of h task_id of Some cs \<Rightarrow> cs | None \<Rightarrow> [])"

definition put_set :: "string \<Rightarrow> WSConnection list \<Rightarrow> WebSocketHub \<Rightarrow> WebSocketHub" where
  "put_set task_id cs h =
     (if task_id \<in> fst ` set h then map (\<lambda>(t, ds). (t, if t = task_id then cs else ds)) h
      else h @ [(task_id, cs)])"

definition subscribe_conn :: "WSConnection \<Rightarrow> WebSocketHub \<Rightarrow> (hub_error + unit) \<times> WebSocketHub" where
  "subscribe_conn conn h =
     (let h1 = (if wc_task_id conn \<in> fst ` set h then h else put_set (wc_task_id conn) [] h)
      in if \<not> connection_hashable then (Inl TypeError, h1)
         else (Inr (), put_set (wc_task_id conn)
                 (List.insert conn (subscribers h1 (wc_task_id conn))) h1))"

definition unsubscribe_conn :: "WSConnection \<Rightarrow> WebSocketHub \<Rightarrow> (hub_error + unit) \<times> WebSocketHub" where
  "unsubscribe_conn conn h =
     (if wc_task_id conn \<notin> fst ` set h then (Inr (), h)
      else if \<not> connection_hashable then (Inl TypeError, h)
      else
        let rest = removeAll conn (subscribers h (wc_task_id conn))
        in (Inr (), if rest = [] then filter (\<lambda>(t, _). t \<noteq> wc_task_id conn) h
                    else put_set (wc_task_id conn) rest h))"

section \<open>Events\<close>

definition put_nowait :: "WSMessage \<Rightarrow> WSConnection \<Rightarrow> hub_error + WSConnection" where
  "put_nowait message conn =
     (if 0 < wc_maxsize conn \<and> wc_maxsize conn \<le> length (wc_queue conn) then Inl QueueFull
      else Inr (conn\<lparr>wc_queue := wc_queue conn @ [message]\<rparr>))"

text \<open>The delivery loop: the connections afterwards and those whose queue is full.\<close>

fun deliver :: "WSMessage \<Rightarrow> WSConnection list \<Rightarrow> WSConnection list \<times> WSConnection list" where
  "deliver message [] = ([], [])"
| "deliver message (c # cs) =
     (let (live, dead) = deliver message cs in
      case put_nowait message c of
        Inr c' \<Rightarrow> (c' # live, dead)
      | Inl _ \<Rightarrow> (c # live, c # dead))"

fun unsubscribe_all :: "WSConnection list \<Rightarrow> WebSocketHub \<Rightarrow> (hub_error + unit) \<times> WebSocketHub" where
  "unsubscribe_all [] h = (Inr (), h)"
| "unsubscribe_all (c # cs) h =
     (case unsubscribe_conn c h of
        (Inl e, h') \<Rightarrow> (Inl e, h')
      | (Inr _, h') \<Rightarrow> unsubscribe_all cs h')"

definition push_event :: "string \<Rightarrow> WSMessage \<Rightarrow> WebSocketHub \<Rightarrow> (hub_error + unit) \<times> WebSocketHub" where
  "push_event task_id message h =
     (if subscribers h task_id = [] then (Inr (), h)
      else
        let (conns, dead) = deliver message (subscribers h task_id)
        in unsubscribe_all dead (put_set task_id conns h))"

definition push_receipt ::
  "datetime \<Rightarrow> UniversalReceipt \<Rightarrow> BillingSnapshot option \<Rightarrow> WebSocketHub
   \<Rightarrow> (hub_error + unit) \<times> WebSocketHub" where
  "push_receipt now receipt snapshot h =
     (let payload =
        (case snapshot of
           None \<Rightarrow> empty_payload\<lparr>wp_receipt := Some receipt\<rparr>
         | Some s \<Rightarrow>
             \<lparr>wp_receipt = Some receipt, wp_billing_state = Some (state_value (bs_billing_state s)),
              wp_step_current = bs_current_step s, wp_step_total = bs_total_steps_estimated s,
              wp_cost_accrued_usdc = bs_cost_accrued_usdc s,
              wp_latest_merkle_root = bs_latest_merkle_root s,
              wp_anchored_count = bs_anchored_receipts s\<rparr>)
      in push_event (ur_task_id receipt)
           \<lparr>wm_event = ''receipt.created'', wm_task_id = ur_task_id receipt,
            wm_timestamp = isoformat now, wm_payload = payload\<rparr> h)"

definition push_state_change ::
  "datetime \<Rightarrow> string \<Rightarrow> string \<Rightarrow> string \<Rightarrow> BillingSnapshot option \<Rightarrow> WebSocketHub
   \<Rightarrow> (hub_error + unit) \<times> WebSocketHub" where
  "push_state_change now task_id previous_state new_state snapshot h =
     (let payload =
        (case snapshot of
           None \<Rightarrow> empty_payload\<lparr>wp_billing_state := Some new_state\<rparr>
         | Some s \<Rightarrow>
             \<lparr>wp_receipt = None, wp_billing_state = Some new_state,
              wp_step_current = bs_current_step s, wp_step_total = bs_total_steps_estimated s,
              wp_cost_accrued_usdc = bs_cost_accrued_usdc s,
              wp_latest_merkle_root = bs_latest_merkle_root s,
              wp_anchored_count = bs_anchored_receipts s\<rparr>)
      in push_event task_id
           \<lparr>wm_event = ''state.changed'', wm_task_id = task_id, wm_timestamp = isoformat now,
            wm_payload = payload\<rparr> h)"

definition request_proof ::
  "datetime \<Rightarrow> string \<Rightarrow> string \<Rightarrow> WebSocketHub \<Rightarrow> (hub_error + WSMessage) \<times> WebSocketHub" where
  "request_proof now task_id receipt_id h =
     (let response = \<lparr>wm_event = ''proof.response'', wm_task_id = task_id,
                      wm_timestamp = isoformat now, wm_payload = empty_payload\<rparr>
      in case push_event task_id response h of
           (Inl e, h') \<Rightarrow> (Inl e, h')
         | (Inr _, h') \<Rightarrow> (Inr response, h'))"

definition subscriber_total :: "WebSocketHub \<Rightarrow> string option \<Rightarrow> nat" where
  "subscriber_total h task_id =
     (case task_id of
        Some t \<Rightarrow> if t = [] then sum_list (map (length \<circ> snd) h) else length (subscribers h t)
      | None \<Rightarrow> sum_list (map (length \<circ> snd) h))"

definition active_tasks :: "WebSocketHub \<Rightarrow> string list" where
  "active_tasks h = map fst h"

section \<open>What can be reached\<close>

inductive hub_step :: "WebSocketHub \<Rightarrow> WebSocketHub \<Rightarrow> bool" where
  sub: "hub_step h (snd (subscribe_conn c h))"
| unsub: "hub_step h (snd (unsubscribe_conn c h))"
| push: "hub_step h (snd (push_event t m h))"

definition no_subscribers :: "WebSocketHub \<Rightarrow> bool" where
  "no_subscribers h = list_all (\<lambda>(t, cs). cs = []) h"

lemma no_subscribers_lookup: "no_subscribers h \<Longrightarrow> subscribers h t = []"
  by (auto simp: no_subscribers_def subscribers_def list_all_iff split: option.splits dest: map_of_SomeD)

lemma hub_step_none: "hub_step h h' \<Longrightarrow> no_subscribers h \<Longrightarrow> no_subscribers h'"
proof (induction rule: hub_step.induct)
  case (sub h c)
  then show ?case
    by (auto simp: subscribe_conn_def connection_hashable_def put_set_def no_subscribers_def list_all_iff Let_def)
next
  case (unsub h c)
  then show ?case by (simp add: unsubscribe_conn_def connection_hashable_def)
next
  case (push h t m)
  then show ?case by (simp add: push_event_def no_subscribers_lookup)
qed

lemma hub_reachable_none: "hub_step\<^sup>*\<^sup>* [] h \<Longrightarrow> no_subscribers h"
  by (induction rule: rtranclp_induct) (auto simp: no_subscribers_def intro: hub_step_none [unfolded no_subscribers_def])

section \<open>Properties\<close>

text \<open>No client can ever be subscribed: whatever calls are made on a new hub, every
  \<open>subscribe\<close> raises, the hub never has a subscriber, and every push of an event delivers nothing
  and leaves the hub as it is.\<close>

lemma hub_never_delivers:
  assumes "hub_step\<^sup>*\<^sup>* [] h"
  shows "fst (subscribe_conn c h) = Inl TypeError \<and> subscriber_total h None = 0
    \<and> push_event t m h = (Inr (), h)"
proof -
  note none = hub_reachable_none [OF assms]
  have "sum_list (map (length \<circ> snd) h) = 0"
    using none by (induction h) (auto simp: no_subscribers_def)
  then show ?thesis
    using no_subscribers_lookup [OF none]
    by (simp add: subscribe_conn_def connection_hashable_def subscriber_total_def push_event_def Let_def)
qed

end
