(* ===== verification/Evidence_Schemas.thy ===== *)
theory Evidence_Schemas
  imports Json Datetime
begin

text \<open>
  The records of the evidence runtime (\<^verbatim>\<open>evidence_runtime/schemas.py\<close>), their canonical dicts and
  hashes (\<^verbatim>\<open>hashing.py\<close>, the hash functions of \<^verbatim>\<open>evidence_adapter.py\<close>) and the operational
  switches (\<^verbatim>\<open>operational_controls.py\<close>). SHA-256 is the parameter \<open>sha\<close>.

  Each record interprets the contract \<open>canonical_record\<close>: its canonical dict determines it, so
  that its hash is a commitment to the whole record.
\<close>

section \<open>Records\<close>

record TaskContract =
  tc_task_id :: string
  tc_agent_id :: string
  tc_runtime_id :: string
  tc_description :: string
  tc_schema_version :: string
  tc_trace_id :: string

record ExecutionReceipt =
  er_receipt_id :: string
  er_task_id :: string
  er_agent_id :: string
  er_runtime_id :: string
  er_step_index :: int
  er_tool_name :: string
  er_input_hash :: string
  er_output_hash :: string
  er_started_at :: string
  er_ended_at :: string
  er_duration_ms :: int
  er_status :: string
  er_error_code :: string
  er_evidence_refs :: "string list"
  er_signer :: string
  er_signature :: string
  er_schema_version :: string
  er_prev_receipt_hash :: string
  er_trace_id :: string

record EvidenceBundle =
  eb_bundle_id :: string
  eb_task_id :: string
  eb_task_contract_hash :: string
  eb_receipt_hashes :: "string list"
  eb_final_result_hash :: string
  eb_evidence_storage_refs :: "string list"
  eb_created_at :: string
  eb_signer :: string
  eb_signature :: string
  eb_schema_version :: string
  eb_trace_id :: string

datatype VerificationDecision = STRUCT_OK | STRUCT_FAIL

record VerificationResult =
  vr_verification_id :: string
  vr_task_id :: string
  vr_evidence_bundle_digest :: string
  vr_decision :: VerificationDecision
  vr_public_reasons :: "string list"
  vr_verified_at :: string
  vr_verifier :: string
  vr_signature :: string
  vr_trace_id :: string

section \<open>Canonical dicts\<close>

text \<open>A trace id is written only when it is not empty.\<close>

definition trace_field :: "string \<Rightarrow> (string \<times> json) list" where
  "trace_field trace_id = (if trace_id \<noteq> [] then [(''trace_id'', JStr trace_id)] else [])"

definition task_contract_fields :: "TaskContract \<Rightarrow> (string \<times> json) list" where
  "task_contract_fields task =
     [(''agent_id'', JStr (tc_agent_id task)),
      (''description'', JStr (tc_description task)),
      (''runtime_id'', JStr (tc_runtime_id task)),
      (''schema_version'', JStr (tc_schema_version task)),
      (''task_id'', JStr (tc_task_id task))] @ trace_field (tc_trace_id task)"

definition receipt_fields :: "ExecutionReceipt \<Rightarrow> (string \<times> json) list" where
  "receipt_fields r =
     [(''agent_id'', JStr (er_agent_id r)),
      (''duration_ms'', JInt (er_duration_ms r)),
      (''ended_at'', JStr (er_ended_at r)),
      (''error_code'', JStr (er_error_code r)),
      (''evidence_refs'', jstrs (er_evidence_refs r)),
      (''input_hash'', JStr (er_input_hash r)),
      (''output_hash'', JStr (er_output_hash r)),
      (''receipt_id'', JStr (er_receipt_id r)),
      (''runtime_id'', JStr (er_runtime_id r)),
      (''schema_version'', JStr (er_schema_version r)),
      (''signer'', JStr (er_signer r)),
      (''signature'', JStr (er_signature r)),
      (''started_at'', JStr (er_started_at r)),
      (''status'', JStr (er_status r)),
      (''step_index'', JInt (er_step_index r)),
      (''task_id'', JStr (er_task_id r)),
      (''tool_name'', JStr (er_tool_name r)),
      (''prev_receipt_hash'', JStr (er_prev_receipt_hash r))] @ trace_field (er_trace_id r)"

definition bundle_fields :: "EvidenceBundle \<Rightarrow> (string \<times> json) list" where
  "bundle_fields b =
     [(''bundle_id'', JStr (eb_bundle_id b)),
      (''created_at'', JStr (eb_created_at b)),
      (''evidence_storage_refs'', jstrs (eb_evidence_storage_refs b)),
      (''final_result_hash'', JStr (eb_final_result_hash b)),
      (''receipt_hashes'', jstrs (eb_receipt_hashes b)),
      (''schema_version'', JStr (eb_schema_version b)),
      (''signature'', JStr (eb_signature b)),
      (''signer'', JStr (eb_signer b)),
      (''task_contract_hash'', JStr (eb_task_contract_hash b)),
      (''task_id'', JStr (eb_task_id b))] @ trace_field (eb_trace_id b)"

section \<open>Hashes\<close>

definition canonical_json_bytes :: "(string \<times> json) list \<Rightarrow> string" where
  "canonical_json_bytes obj = utf8 (dumps (JObj obj))"

definition sha256_hex :: "(string \<Rightarrow> string) \<Rightarrow> string \<Rightarrow> string" where
  "sha256_hex sha data = hex (sha data)"

definition sha256_bytes32_hex :: "(string \<Rightarrow> string) \<Rightarrow> string \<Rightarrow> string" where
  "sha256_bytes32_hex sha data = hex (sha data)"

definition karma_proof_hash_pointer :: "string \<Rightarrow> string" where
  "karma_proof_hash_pointer bundle_digest_hex = ''karma-ta:v1/sha256/'' @ lower bundle_digest_hex"

definition task_contract_hash :: "(string \<Rightarrow> string) \<Rightarrow> TaskContract \<Rightarrow> string" where
  "task_contract_hash sha task = sha256_hex sha (canonical_json_bytes (task_contract_fields task))"

definition receipt_record_hash :: "(string \<Rightarrow> string) \<Rightarrow> ExecutionReceipt \<Rightarrow> string" where
  "receipt_record_hash sha receipt = sha256_hex sha (canonical_json_bytes (receipt_fields receipt))"

definition hash_evidence_bundle :: "(string \<Rightarrow> string) \<Rightarrow> EvidenceBundle \<Rightarrow> string" where
  "hash_evidence_bundle sha bundle = sha256_hex sha (canonical_json_bytes (bundle_fields bundle))"

section \<open>Operational switches\<close>

record OperationalControls =
  oc_pause_settlement :: bool
  oc_pause_payout :: bool
  oc_pause_verification :: bool
  oc_frozen_task_ids :: "string list"
  oc_frozen_agent_ids :: "string list"

definition verification_block_reason :: "OperationalControls \<Rightarrow> TaskContract \<Rightarrow> string option" where
  "verification_block_reason c task =
     (if oc_pause_verification c then Some ''pause_verification''
      else if tc_task_id task \<in> set (oc_frozen_task_ids c) then Some ''freeze_task''
      else if tc_agent_id task \<in> set (oc_frozen_agent_ids c) then Some ''freeze_agent''
      else None)"

definition settlement_block_reason :: "OperationalControls \<Rightarrow> TaskContract \<Rightarrow> string option" where
  "settlement_block_reason c task =
     (if oc_pause_settlement c then Some ''pause_settlement''
      else if tc_task_id task \<in> set (oc_frozen_task_ids c) then Some ''freeze_task''
      else if tc_agent_id task \<in> set (oc_frozen_agent_ids c) then Some ''freeze_agent''
      else None)"

lemmas hash_defs [evidence_defs] =
  task_contract_hash_def receipt_record_hash_def hash_evidence_bundle_def sha256_hex_def
  canonical_json_bytes_def

section \<open>The records are determined by their dicts\<close>

lemma trace_field_lookup:
  "map_of (trace_field t) ''trace_id'' = (if t = [] then None else Some (JStr t))"
  "k \<noteq> ''trace_id'' \<Longrightarrow> map_of (trace_field t) k = None"
  by (simp_all add: trace_field_def)

lemma trace_inject:
  "map_option canon (map_of (trace_field s) ''trace_id'') = map_option canon (map_of (trace_field t) ''trace_id'')
   \<Longrightarrow> s = t"
  by (auto simp: trace_field_def split: if_splits)

interpretation task_contract: canonical_record task_contract_fields
proof
  fix x y
  assume eq: "canon (JObj (task_contract_fields x)) = canon (JObj (task_contract_fields y))"
  note get = canon_dict_get [OF eq, unfolded task_contract_fields_def]
  have "tc_agent_id x = tc_agent_id y" using get [of "''agent_id''"] by simp
  moreover have "tc_description x = tc_description y" using get [of "''description''"] by simp
  moreover have "tc_runtime_id x = tc_runtime_id y" using get [of "''runtime_id''"] by simp
  moreover have "tc_schema_version x = tc_schema_version y" using get [of "''schema_version''"] by simp
  moreover have "tc_task_id x = tc_task_id y" using get [of "''task_id''"] by simp
  moreover have "tc_trace_id x = tc_trace_id y" using get [of "''trace_id''"] trace_inject by simp
  ultimately show "x = y" by simp
qed

interpretation execution_receipt: canonical_record receipt_fields
proof
  fix x y
  assume eq: "canon (JObj (receipt_fields x)) = canon (JObj (receipt_fields y))"
  note get = canon_dict_get [OF eq, unfolded receipt_fields_def]
  have "er_agent_id x = er_agent_id y" using get [of "''agent_id''"] by simp
  moreover have "er_duration_ms x = er_duration_ms y" using get [of "''duration_ms''"] by simp
  moreover have "er_ended_at x = er_ended_at y" using get [of "''ended_at''"] by simp
  moreover have "er_error_code x = er_error_code y" using get [of "''error_code''"] by simp
  moreover have "er_evidence_refs x = er_evidence_refs y" using get [of "''evidence_refs''"] by simp
  moreover have "er_input_hash x = er_input_hash y" using get [of "''input_hash''"] by simp
  moreover have "er_output_hash x = er_output_hash y" using get [of "''output_hash''"] by simp
  moreover have "er_receipt_id x = er_receipt_id y" using get [of "''receipt_id''"] by simp
  moreover have "er_runtime_id x = er_runtime_id y" using get [of "''runtime_id''"] by simp
  moreover have "er_schema_version x = er_schema_version y" using get [of "''schema_version''"] by simp
  moreover have "er_signer x = er_signer y" using get [of "''signer''"] by simp
  moreover have "er_signature x = er_signature y" using get [of "''signature''"] by simp
  moreover have "er_started_at x = er_started_at y" using get [of "''started_at''"] by simp
  moreover have "er_status x = er_status y" using get [of "''status''"] by simp
  moreover have "er_step_index x = er_step_index y" using get [of "''step_index''"] by simp
  moreover have "er_task_id x = er_task_id y" using get [of "''task_id''"] by simp
  moreover have "er_tool_name x = er_tool_name y" using get [of "''tool_name''"] by simp
  moreover have "er_prev_receipt_hash x = er_prev_receipt_hash y" using get [of "''prev_receipt_hash''"] by simp
  moreover have "er_trace_id x = er_trace_id y" using get [of "''trace_id''"] trace_inject by simp
  ultimately show "x = y" by simp
qed

interpretation evidence_bundle: canonical_record bundle_fields
proof
  fix x y
  assume eq: "canon (JObj (bundle_fields x)) = canon (JObj (bundle_fields y))"
  note get = canon_dict_get [OF eq, unfolded bundle_fields_def]
  have "eb_bundle_id x = eb_bundle_id y" using get [of "''bundle_id''"] by simp
  moreover have "eb_created_at x = eb_created_at y" using get [of "''created_at''"] by simp
  moreover have "eb_evidence_storage_refs x = eb_evidence_storage_refs y" using get [of "''evidence_storage_refs''"] by simp
  moreover have "eb_final_result_hash x = eb_final_result_hash y" using get [of "''final_result_hash''"] by simp
  moreover have "eb_receipt_hashes x = eb_receipt_hashes y" using get [of "''receipt_hashes''"] by simp
  moreover have "eb_schema_version x = eb_schema_version y" using get [of "''schema_version''"] by simp
  moreover have "eb_signature x = eb_signature y" using get [of "''signature''"] by simp
  moreover have "eb_signer x = eb_signer y" using get [of "''signer''"] by simp
  moreover have "eb_task_contract_hash x = eb_task_contract_hash y" using get [of "''task_contract_hash''"] by simp
  moreover have "eb_task_id x = eb_task_id y" using get [of "''task_id''"] by simp
  moreover have "eb_trace_id x = eb_trace_id y" using get [of "''trace_id''"] trace_inject by simp
  ultimately show "x = y" by simp
qed

text \<open>The hashed texts, and what equal hashes without a collision say.\<close>

definition receipt_text :: "ExecutionReceipt \<Rightarrow> string" where
  "receipt_text r = canonical_json_bytes (receipt_fields r)"

definition contract_text :: "TaskContract \<Rightarrow> string" where
  "contract_text t = canonical_json_bytes (task_contract_fields t)"

definition bundle_text :: "EvidenceBundle \<Rightarrow> string" where
  "bundle_text b = canonical_json_bytes (bundle_fields b)"

lemma contract_hash_binds:
  assumes "inj_on sha A" "contract_text x \<in> A" "contract_text y \<in> A"
    and "task_contract_hash sha x = task_contract_hash sha y"
  shows "x = y"
  using task_contract.hash_binds [of sha A x y] assms by (simp only: contract_text_def hash_defs)

lemma bundle_hash_binds:
  assumes "inj_on sha A" "bundle_text x \<in> A" "bundle_text y \<in> A"
    and "hash_evidence_bundle sha x = hash_evidence_bundle sha y"
  shows "x = y"
  using evidence_bundle.hash_binds [of sha A x y] assms by (simp only: bundle_text_def hash_defs)

lemma receipt_hash_binds:
  assumes "inj_on sha A" "receipt_text x \<in> A" "receipt_text y \<in> A"
    and "receipt_record_hash sha x = receipt_record_hash sha y"
  shows "x = y"
  using execution_receipt.hash_binds [of sha A x y] assms by (simp only: receipt_text_def hash_defs)

lemma receipt_hashes_bind:
  assumes "inj_on sha (receipt_text ` set (xs @ ys))"
    and "map (receipt_record_hash sha) xs = map (receipt_record_hash sha) ys"
  shows "xs = ys"
proof (rule nth_equalityI)
  show len: "length xs = length ys" using assms(2) map_eq_imp_length_eq by blast
  fix i assume i: "i < length xs"
  then have "xs ! i \<in> set (xs @ ys)" "ys ! i \<in> set (xs @ ys)" using len by simp_all
  moreover have "receipt_record_hash sha (xs ! i) = receipt_record_hash sha (ys ! i)"
    using assms(2) i len by (metis nth_map)
  ultimately show "xs ! i = ys ! i"
    using receipt_hash_binds [OF assms(1)] by blast
qed

end
