(* ===== verification/Stores.thy ===== *)
theory Stores
  imports Prelude
begin

text \<open>
  Contracts of the keyed stores of the program. \<open>write_once\<close> is a store that keeps the first value
  written under a key, accepts the same value again without effect and refuses a different one.
  \<open>dict_set\<close> is assignment to a key of a Python dict.
\<close>

section \<open>Dicts\<close>

text \<open>\<^verbatim>\<open>d[k] = v\<close> on a dict as its list of items: an existing key keeps its place.\<close>

definition dict_set :: "'k \<Rightarrow> 'v \<Rightarrow> ('k \<times> 'v) list \<Rightarrow> ('k \<times> 'v) list" where
  "dict_set k v d =
     (if k \<in> fst ` set d then map (\<lambda>(j, x). (j, if j = k then v else x)) d else d @ [(k, v)])"

lemma map_of_replace:
  "map_of (map (\<lambda>(j, x). (j, if j = k then v else x)) d) j
   = (if j = k then map_option (\<lambda>_. v) (map_of d j) else map_of d j)"
  by (induction d) auto

lemma map_of_append_new: "k \<notin> fst ` set d \<Longrightarrow> map_of (d @ [(k, v)]) j = (if j = k then Some v else map_of d j)"
  using map_of_eq_None_iff [of d k] by (auto simp: map_add_def split: option.split)

lemma map_of_dict_set [simp]: "map_of (dict_set k v d) j = (if j = k then Some v else map_of d j)"
proof (cases "k \<in> fst ` set d")
  case True
  then have "map_of d k \<noteq> None" by (simp add: map_of_eq_None_iff)
  with True show ?thesis by (auto simp: dict_set_def map_of_replace)
next
  case False
  then show ?thesis by (simp add: dict_set_def map_of_append_new del: map_of_append)
qed

lemma keys_dict_set: "map fst (dict_set k v d) = (if k \<in> fst ` set d then map fst d else map fst d @ [k])"
  by (simp add: dict_set_def comp_def case_prod_beta)

lemma distinct_dict_set: "distinct (map fst d) \<Longrightarrow> distinct (map fst (dict_set k v d))"
  by (auto simp: keys_dict_set)

section \<open>Stores that keep the first value\<close>

text \<open>Writing a list of values, stopping at the first that is refused.\<close>

fun put_all :: "('v \<Rightarrow> 's \<Rightarrow> 'e + 's) \<Rightarrow> 'v list \<Rightarrow> 's \<Rightarrow> 'e + 's" where
  "put_all put [] s = Inr s"
| "put_all put (v # vs) s = (case put v s of Inl e \<Rightarrow> Inl e | Inr s' \<Rightarrow> put_all put vs s')"

locale write_once =
  fixes get :: "'s \<Rightarrow> 'k \<Rightarrow> 'v option" and key :: "'v \<Rightarrow> 'k" and put :: "'v \<Rightarrow> 's \<Rightarrow> 'e + 's"
    and same :: "'v \<Rightarrow> 'v \<Rightarrow> bool"
  assumes put_new: "get s (key v) = None \<Longrightarrow> \<exists>s'. put v s = Inr s' \<and> get s' = (get s)(key v \<mapsto> v)"
    and put_same: "get s (key v) = Some w \<Longrightarrow> same w v \<Longrightarrow> put v s = Inr s"
    and put_conflict: "get s (key v) = Some w \<Longrightarrow> \<not> same w v \<Longrightarrow> \<exists>e. put v s = Inl e"
    and same_refl: "same v v"
begin

lemma put_get:
  assumes "put v s = Inr s'"
  shows "get s' k = (case get s k of Some w \<Rightarrow> Some w | None \<Rightarrow> if k = key v then Some v else None)"
proof (cases "get s (key v)")
  case None
  with put_new [of s v] assms have "get s' = (get s)(key v \<mapsto> v)" by auto
  with None show ?thesis by (auto split: option.splits)
next
  case (Some w)
  with assms put_conflict [of s v w] put_same [of s v w] have "s' = s" by fastforce
  with Some show ?thesis by (auto split: option.splits)
qed

lemma put_all_get:
  "put_all put vs s = Inr s' \<Longrightarrow>
   get s' k = (case get s k of Some w \<Rightarrow> Some w | None \<Rightarrow> find (\<lambda>v. key v = k) vs)"
proof (induction vs arbitrary: s)
  case (Cons v vs)
  then obtain s1 where s1: "put v s = Inr s1" "put_all put vs s1 = Inr s'"
    by (auto split: sum.splits)
  with Cons.IH put_get [OF s1(1), of k] show ?case by (auto split: option.splits)
qed (simp split: option.splits)

lemma put_all_stored:
  assumes "put_all put vs s = Inr s'" "v \<in> set vs"
  shows "\<exists>w. get s' (key v) = Some w \<and> same w v"
  using assms
proof (induction vs arbitrary: s)
  case (Cons u vs)
  then obtain s1 where s1: "put u s = Inr s1" "put_all put vs s1 = Inr s'"
    by (auto split: sum.splits)
  show ?case
  proof (cases "v = u")
    case True
    have "\<exists>w. get s1 (key u) = Some w \<and> same w u"
    proof (cases "get s (key u)")
      case None
      with put_get [OF s1(1), of "key u"] same_refl show ?thesis by simp
    next
      case (Some w)
      with put_conflict [of s u w] s1(1) have "same w u" by auto
      with Some put_get [OF s1(1), of "key u"] show ?thesis by simp
    qed
    with put_all_get [OF s1(2), of "key u"] True show ?thesis by auto
  next
    case False
    with Cons.IH [OF s1(2)] Cons.prems(2) show ?thesis by simp
  qed
qed simp

end

end
