(* ===== verification/Evidence_Store.thy ===== *)
theory Evidence_Store
  imports Evidence_Schemas Stores
begin

text \<open>
  The receipt store, the diagnosis of receipt chains and the idempotency book of the evidence
  runtime (\<^verbatim>\<open>evidence_runtime/receipt_store.py\<close>, \<^verbatim>\<open>recovery.py\<close>,
  \<^verbatim>\<open>settlement_idempotency.py\<close>). The store is the list of its items in insertion order.

  The store interprets \<open>write_once\<close>. A chain without gaps is tamper-evident: the hash of its last
  receipt determines all of them.
\<close>

section \<open>The receipt store\<close>

type_synonym InMemoryReceiptStore = "(string \<times> ExecutionReceipt) list"

datatype store_error = ReceiptCollision string

definition receipt_fingerprint :: "(string \<Rightarrow> string) \<Rightarrow> ExecutionReceipt \<Rightarrow> string" where
  "receipt_fingerprint sha receipt = sha256_hex sha (canonical_json_bytes (receipt_fields receipt))"

definition get_receipt :: "InMemoryReceiptStore \<Rightarrow> string \<Rightarrow> ExecutionReceipt option" where
  "get_receipt s receipt_id = map_of s receipt_id"

definition save_receipt ::
  "(string \<Rightarrow> string) \<Rightarrow> ExecutionReceipt \<Rightarrow> InMemoryReceiptStore \<Rightarrow> store_error + InMemoryReceiptStore" where
  "save_receipt sha receipt s =
     (case map_of s (er_receipt_id receipt) of
        Some existing \<Rightarrow>
          if receipt_fingerprint sha existing \<noteq> receipt_fingerprint sha receipt
          then Inl (ReceiptCollision (er_receipt_id receipt)) else Inr s
      | None \<Rightarrow> Inr (s @ [(er_receipt_id receipt, receipt)]))"

definition list_receipts_by_task :: "InMemoryReceiptStore \<Rightarrow> string \<Rightarrow> ExecutionReceipt list" where
  "list_receipts_by_task s task_id =
     sort_key er_step_index (filter (\<lambda>r. er_task_id r = task_id) (map snd s))"

definition get_receipt_chain :: "InMemoryReceiptStore \<Rightarrow> string \<Rightarrow> ExecutionReceipt list" where
  "get_receipt_chain s task_id = list_receipts_by_task s task_id"

section \<open>Gaps in a chain\<close>

text \<open>The order of steps, ties broken by the receipt id.\<close>

definition chain_order :: "ExecutionReceipt list \<Rightarrow> ExecutionReceipt list" where
  "chain_order chain = sort_key (\<lambda>r. (er_step_index r, er_receipt_id r)) chain"

definition index_gaps :: "ExecutionReceipt list \<Rightarrow> string list" where
  "index_gaps rs =
     map (\<lambda>(i, r). ''non_contiguous_step_index:expected_'' @ nat_str i @ ''_got_'' @ int_str (er_step_index r))
       (filter (\<lambda>(i, r). er_step_index r \<noteq> int i) (enumerate 0 rs))"

fun link_gaps :: "(string \<Rightarrow> string) \<Rightarrow> ExecutionReceipt list \<Rightarrow> string list" where
  "link_gaps sha (prev # r # rs) =
     (if er_prev_receipt_hash r \<noteq> receipt_record_hash sha prev
      then [''prev_hash_mismatch_at_step_'' @ int_str (er_step_index r)] else []) @ link_gaps sha (r # rs)"
| "link_gaps sha _ = []"

definition first_gap :: "ExecutionReceipt \<Rightarrow> string list" where
  "first_gap r =
     (if er_step_index r = 0 \<and> er_prev_receipt_hash r \<noteq> [] then [''unexpected_prev_hash_on_first_step''] else [])"

definition describe_receipt_chain_gaps :: "(string \<Rightarrow> string) \<Rightarrow> ExecutionReceipt list \<Rightarrow> string list" where
  "describe_receipt_chain_gaps sha chain =
     (if chain = [] then [''empty_chain'']
      else let sorted_rs = chain_order chain
           in index_gaps sorted_rs @ first_gap (hd sorted_rs) @ link_gaps sha sorted_rs)"

section \<open>The idempotency book\<close>

type_synonym SettlementIdempotencyBook = "string list"

definition try_once :: "string \<Rightarrow> SettlementIdempotencyBook \<Rightarrow> bool \<times> SettlementIdempotencyBook" where
  "try_once key seen = (if key \<in> set seen then (False, seen) else (True, key # seen))"

definition settlement_step_key :: "string \<Rightarrow> string \<Rightarrow> string \<Rightarrow> string" where
  "settlement_step_key trace_id bundle_id function_name =
     (let tid = (if trace_id \<noteq> [] then trace_id else ''<no_trace>'')
      in tid @ ''|'' @ bundle_id @ ''|'' @ function_name)"

text \<open>The answers to a sequence of keys.\<close>

fun try_all :: "string list \<Rightarrow> SettlementIdempotencyBook \<Rightarrow> bool list" where
  "try_all [] seen = []"
| "try_all (k # ks) seen = (let (b, seen') = try_once k seen in b # try_all ks seen')"

lemmas store_defs [evidence_defs] =
  get_receipt_def save_receipt_def list_receipts_by_task_def get_receipt_chain_def

section \<open>The store keeps the first receipt of an id\<close>

definition same_fingerprint :: "(string \<Rightarrow> string) \<Rightarrow> ExecutionReceipt \<Rightarrow> ExecutionReceipt \<Rightarrow> bool" where
  "same_fingerprint sha x y \<longleftrightarrow> receipt_fingerprint sha x = receipt_fingerprint sha y"

interpretation receipt_store:
  write_once get_receipt er_receipt_id "save_receipt sha" "same_fingerprint sha" for sha
proof
  fix s and v :: ExecutionReceipt
  assume "get_receipt s (er_receipt_id v) = None"
  then show "\<exists>s'. save_receipt sha v s = Inr s' \<and> get_receipt s' = (get_receipt s)(er_receipt_id v \<mapsto> v)"
    by (auto simp: save_receipt_def get_receipt_def fun_eq_iff map_add_def split: option.splits)
qed (auto simp: save_receipt_def get_receipt_def same_fingerprint_def)

definition store_ok :: "InMemoryReceiptStore \<Rightarrow> bool" where
  "store_ok s \<longleftrightarrow> distinct (map fst s) \<and> list_all (\<lambda>(k, r). k = er_receipt_id r) s"

lemma save_receipt_ok: "save_receipt sha r s = Inr s' \<Longrightarrow> store_ok s \<Longrightarrow> store_ok s'"
  by (auto simp: save_receipt_def store_ok_def map_of_eq_None_iff split: option.splits if_splits)

lemma put_all_ok: "put_all (save_receipt sha) rs s = Inr s' \<Longrightarrow> store_ok s \<Longrightarrow> store_ok s'"
  by (induction rs arbitrary: s) (auto split: sum.splits dest: save_receipt_ok)

lemma store_get_values:
  assumes "store_ok s"
  shows "get_receipt s k = Some r \<longleftrightarrow> r \<in> set (map snd s) \<and> er_receipt_id r = k"
proof -
  have "get_receipt s k = Some r \<longleftrightarrow> (k, r) \<in> set s"
    using assms by (simp add: store_ok_def get_receipt_def map_of_eq_Some_iff)
  also have "\<dots> \<longleftrightarrow> r \<in> set (map snd s) \<and> er_receipt_id r = k"
    using assms by (force simp: store_ok_def list_all_iff)
  finally show ?thesis .
qed

section \<open>Chains without gaps\<close>

definition gapless :: "(string \<Rightarrow> string) \<Rightarrow> ExecutionReceipt list \<Rightarrow> bool" where
  "gapless sha rs \<longleftrightarrow> rs \<noteq> [] \<and> (\<forall>i < length rs. er_step_index (rs ! i) = int i) \<and>
     er_prev_receipt_hash (rs ! 0) = [] \<and>
     (\<forall>i. Suc i < length rs \<longrightarrow> er_prev_receipt_hash (rs ! Suc i) = receipt_record_hash sha (rs ! i))"

lemma index_gaps_Nil: "index_gaps rs = [] \<longleftrightarrow> (\<forall>i < length rs. er_step_index (rs ! i) = int i)"
  by (auto simp: index_gaps_def filter_empty_conv in_set_enumerate_eq)

lemma all_nat_split: "(\<forall>i::nat. P i) \<longleftrightarrow> P 0 \<and> (\<forall>i. P (Suc i))"
  by (metis nat.exhaust)

lemma link_gaps_Nil:
  "link_gaps sha rs = [] \<longleftrightarrow>
   (\<forall>i. Suc i < length rs \<longrightarrow> er_prev_receipt_hash (rs ! Suc i) = receipt_record_hash sha (rs ! i))"
proof (induction sha rs rule: link_gaps.induct)
  case (1 sha prev r rs)
  have "(\<forall>i. Suc i < length (prev # r # rs) \<longrightarrow>
       er_prev_receipt_hash ((prev # r # rs) ! Suc i) = receipt_record_hash sha ((prev # r # rs) ! i))
    \<longleftrightarrow> er_prev_receipt_hash r = receipt_record_hash sha prev \<and>
      (\<forall>i. Suc i < length (r # rs) \<longrightarrow>
        er_prev_receipt_hash ((r # rs) ! Suc i) = receipt_record_hash sha ((r # rs) ! i))"
    by (rule all_nat_split [THEN trans]) simp
  with 1 show ?case by simp
qed auto

lemma describe_gaps_Nil: "describe_receipt_chain_gaps sha chain = [] \<longleftrightarrow> gapless sha (chain_order chain)"
proof (cases "chain = []")
  case False
  then have ne: "chain_order chain \<noteq> []" by (metis chain_order_def length_0_conv length_sort)
  then have hd: "hd (chain_order chain) = chain_order chain ! 0" by (simp add: hd_conv_nth)
  have "first_gap (chain_order chain ! 0) = [] \<longleftrightarrow> er_prev_receipt_hash (chain_order chain ! 0) = []"
    if "\<forall>i < length (chain_order chain). er_step_index (chain_order chain ! i) = int i"
    using that ne by (simp add: first_gap_def)
  moreover have "describe_receipt_chain_gaps sha chain = [] \<longleftrightarrow>
      index_gaps (chain_order chain) = [] \<and> first_gap (chain_order chain ! 0) = []
      \<and> link_gaps sha (chain_order chain) = []"
    using False by (simp add: describe_receipt_chain_gaps_def Let_def hd)
  ultimately show ?thesis
    using ne unfolding index_gaps_Nil link_gaps_Nil gapless_def by blast
qed (simp add: describe_receipt_chain_gaps_def gapless_def chain_order_def)

text \<open>Two chains without gaps whose last receipts have the same hash are the same chain.\<close>

lemma gapless_snoc:
  assumes "gapless sha (rs @ [r])" "rs \<noteq> []"
  shows "gapless sha rs" "er_prev_receipt_hash r = receipt_record_hash sha (last rs)"
    and "er_step_index r = int (length rs)"
proof -
  have step: "er_step_index ((rs @ [r]) ! i) = int i" if "i < length (rs @ [r])" for i
    using assms(1) that by (simp add: gapless_def)
  have link: "er_prev_receipt_hash ((rs @ [r]) ! Suc i) = receipt_record_hash sha ((rs @ [r]) ! i)"
    if "Suc i < length (rs @ [r])" for i
    using assms(1) that by (simp add: gapless_def)
  have "er_prev_receipt_hash (rs ! 0) = []"
    using assms by (simp add: gapless_def nth_append)
  moreover have "er_step_index (rs ! i) = int i" if "i < length rs" for i
    using step [of i] that by (simp add: nth_append)
  moreover have "er_prev_receipt_hash (rs ! Suc i) = receipt_record_hash sha (rs ! i)" if "Suc i < length rs" for i
    using link [of i] that by (simp add: nth_append)
  ultimately show "gapless sha rs" using assms(2) unfolding gapless_def by blast
  show "er_prev_receipt_hash r = receipt_record_hash sha (last rs)"
    using link [of "length rs - 1"] assms(2) by (simp add: nth_append last_conv_nth)
  show "er_step_index r = int (length rs)"
    using step [of "length rs"] by simp
qed

lemma gapless_last_index: "gapless sha (rs @ [r]) \<Longrightarrow> er_step_index r = int (length rs)"
  unfolding gapless_def by (metis length_append_singleton lessI nth_append_length)

lemma gapless_unique:
  assumes "gapless sha xs" "gapless sha ys"
    and "inj_on sha (receipt_text ` set (xs @ ys))"
    and "receipt_record_hash sha (last xs) = receipt_record_hash sha (last ys)"
  shows "xs = ys"
  using assms
proof (induction xs arbitrary: ys rule: rev_induct)
  case Nil
  then show ?case by (simp add: gapless_def)
next
  case (snoc x xs)
  from snoc.prems(2) obtain zs y where ys: "ys = zs @ [y]"
    by (metis gapless_def rev_exhaust)
  have "x = y"
    using receipt_hash_binds [OF snoc.prems(3), of x y] snoc.prems(4) ys by simp
  then have len: "length xs = length zs"
    using gapless_last_index [OF snoc.prems(1)] gapless_last_index [of sha zs y] snoc.prems(2) ys by simp
  show ?case
  proof (cases "xs = []")
    case True
    with len ys \<open>x = y\<close> show ?thesis by simp
  next
    case False
    with len have "zs \<noteq> []" by auto
    have "xs = zs"
    proof (rule snoc.IH)
      show "gapless sha xs" by (rule gapless_snoc(1) [OF snoc.prems(1) False])
      show "gapless sha zs" using gapless_snoc(1) [of sha zs y] snoc.prems(2) ys \<open>zs \<noteq> []\<close> by simp
      show "inj_on sha (receipt_text ` set (xs @ zs))"
        by (rule inj_on_subset [OF snoc.prems(3)]) (auto simp: ys)
      show "receipt_record_hash sha (last xs) = receipt_record_hash sha (last zs)"
        using gapless_snoc(2) [OF snoc.prems(1) False] gapless_snoc(2) [of sha zs y] snoc.prems(2) ys
          \<open>zs \<noteq> []\<close> \<open>x = y\<close> by simp
    qed
    with ys \<open>x = y\<close> show ?thesis by simp
  qed
qed

section \<open>A key is accepted once\<close>

lemma try_all_nth:
  "i < length ks \<Longrightarrow> try_all ks seen ! i \<longleftrightarrow> ks ! i \<notin> set seen \<and> ks ! i \<notin> set (take i ks)"
proof (induction ks arbitrary: seen i)
  case (Cons k ks)
  then show ?case by (cases i) (auto simp: try_once_def)
qed simp

lemma length_try_all: "length (try_all ks seen) = length ks"
  by (induction ks arbitrary: seen) (auto simp: try_once_def Let_def)

section \<open>Properties\<close>

text \<open>The store keeps every receipt that was saved, unchanged: after a sequence of successful
  saves the receipt of an id is the first one saved under it, it equals every other receipt that
  was accepted under the same id, and the stored receipts are exactly the saved ones, if SHA-256
  does not collide on their canonical texts.\<close>

lemma saved_receipts_kept:
  assumes "put_all (save_receipt sha) rs [] = Inr s" "inj_on sha (receipt_text ` set rs)"
  shows "get_receipt s k = find (\<lambda>r. er_receipt_id r = k) rs
    \<and> (\<forall>r. r \<in> set rs \<longleftrightarrow> get_receipt s (er_receipt_id r) = Some r)"
proof -
  have first: "get_receipt s k = find (\<lambda>r. er_receipt_id r = k) rs" for k
    using receipt_store.put_all_get [OF assms(1), of k] by (simp add: get_receipt_def)
  have "get_receipt s (er_receipt_id r) = Some r" if r: "r \<in> set rs" for r
  proof -
    from receipt_store.put_all_stored [OF assms(1) r] obtain w where
      w: "get_receipt s (er_receipt_id r) = Some w" "same_fingerprint sha w r" by blast
    from w(1) first have "w \<in> set rs" by (metis find_Some_iff nth_mem)
    with w(2) r have "w = r"
      using receipt_hash_binds [OF assms(2), of w r]
      by (simp only: same_fingerprint_def receipt_fingerprint_def receipt_record_hash_def imageI)
    with w(1) show ?thesis by simp
  qed
  moreover have "r \<in> set rs" if "get_receipt s (er_receipt_id r) = Some r" for r
    using that first by (metis find_Some_iff nth_mem)
  ultimately show ?thesis using first by blast
qed

definition sample_exec :: "string \<Rightarrow> int \<Rightarrow> string \<Rightarrow> ExecutionReceipt" where
  "sample_exec rid step prev =
     \<lparr>er_receipt_id = rid, er_task_id = ''t1'', er_agent_id = ''a1'', er_runtime_id = ''rt'',
      er_step_index = step, er_tool_name = ''tool'', er_input_hash = ''i'', er_output_hash = ''o'',
      er_started_at = ''2026-01-01T00:00:00Z'', er_ended_at = ''2026-01-01T00:00:01Z'', er_duration_ms = 1000,
      er_status = ''ok'', er_error_code = [], er_evidence_refs = [], er_signer = [], er_signature = [],
      er_schema_version = ''karma.execution_receipt.v1'', er_prev_receipt_hash = prev, er_trace_id = []\<rparr>"

text \<open>C24. A receipt chain in which no gap is found is tamper-evident: two such chains that differ
  anywhere have last receipts with different hashes, if SHA-256 does not collide on the canonical
  texts of their receipts.\<close>

theorem gapless_chain_tamper_evident:
  assumes "describe_receipt_chain_gaps sha xs = []" "describe_receipt_chain_gaps sha ys = []"
    and "inj_on sha (receipt_text ` set (xs @ ys))" "chain_order xs \<noteq> chain_order ys"
  shows "receipt_record_hash sha (last (chain_order xs)) \<noteq> receipt_record_hash sha (last (chain_order ys))"
proof -
  have "set (chain_order xs @ chain_order ys) = set (xs @ ys)" by (simp add: chain_order_def)
  then have "inj_on sha (receipt_text ` set (chain_order xs @ chain_order ys))"
    using assms(3) by metis
  with gapless_unique [of sha "chain_order xs" "chain_order ys"] assms(1,2,4) show ?thesis
    by (auto simp: describe_gaps_Nil)
qed

theorem gapless_chain_tamper_evident_witness:
  "receipt_record_hash (\<lambda>x. x) (last (chain_order [sample_exec ''r1'' 0 []]))
   \<noteq> receipt_record_hash (\<lambda>x. x) (last (chain_order [sample_exec ''r2'' 0 []]))"
  by (rule gapless_chain_tamper_evident)
    (simp_all add: describe_gaps_Nil gapless_def chain_order_def sample_exec_def)

text \<open>The idempotency book accepts every key exactly once: of a sequence of attempts on a new
  book, exactly the first one for each key succeeds.\<close>

lemma first_attempt_wins:
  assumes "i < length ks"
  shows "try_all ks [] ! i \<longleftrightarrow> ks ! i \<notin> set (take i ks)"
  using try_all_nth [OF assms, of "[]"] by simp

end
