(* ===== verification/Evidence_Verification.thy ===== *)
theory Evidence_Verification
  imports Evidence_Store
begin

text \<open>
  Building evidence bundles and verifying them (\<^verbatim>\<open>evidence_runtime/evidence_adapter.py\<close>,
  \<^verbatim>\<open>verification.py\<close>) and the proof-hash pointer that goes on chain (\<^verbatim>\<open>proof_hash_format.py\<close>).
  Uuids and the clock are arguments.

  The lemmas give the exact conditions under which structural verification accepts, show that a
  bundle built from a well-formed chain is accepted, that an accepted bundle pins the chain down
  to the last byte, and that the pointer of a bundle passes its own validation.
\<close>

section \<open>Building a bundle\<close>

datatype adapter_error = MissingReceipt string

text \<open>\<^verbatim>\<open>datetime.now(utc).replace(microsecond=0).isoformat().replace("+00:00", "Z")\<close>\<close>

definition utc_iso :: "datetime \<Rightarrow> string" where
  "utc_iso now = isoformat (now\<lparr>dt_microsecond := 0, dt_offset := None\<rparr>) @ ''Z''"

fun collect_receipts :: "InMemoryReceiptStore \<Rightarrow> string list \<Rightarrow> adapter_error + ExecutionReceipt list" where
  "collect_receipts store [] = Inr []"
| "collect_receipts store (rid # rids) =
     (case get_receipt store rid of
        None \<Rightarrow> Inl (MissingReceipt rid)
      | Some r \<Rightarrow> (case collect_receipts store rids of Inl e \<Rightarrow> Inl e | Inr rs \<Rightarrow> Inr (r # rs)))"

definition build_evidence_bundle ::
  "(string \<Rightarrow> string) \<Rightarrow> string \<Rightarrow> datetime \<Rightarrow> InMemoryReceiptStore \<Rightarrow> TaskContract \<Rightarrow> string list
   \<Rightarrow> string list option \<Rightarrow> string option \<Rightarrow> string option \<Rightarrow> adapter_error + EvidenceBundle" where
  "build_evidence_bundle sha uuid now store task receipt_ids evidence_storage_refs bundle_id created_at =
     (case collect_receipts store receipt_ids of
        Inl e \<Rightarrow> Inl e
      | Inr receipts \<Rightarrow>
          let receipt_hashes = map (receipt_record_hash sha) receipts;
              final_hash = (if receipt_hashes \<noteq> [] then last receipt_hashes else sha256_hex sha ''empty'')
          in Inr \<lparr>eb_bundle_id = (case bundle_id of Some b \<Rightarrow> if b \<noteq> [] then b else uuid | None \<Rightarrow> uuid),
                  eb_task_id = tc_task_id task,
                  eb_task_contract_hash = task_contract_hash sha task,
                  eb_receipt_hashes = receipt_hashes,
                  eb_final_result_hash = final_hash,
                  eb_evidence_storage_refs = (case evidence_storage_refs of Some rs \<Rightarrow> rs | None \<Rightarrow> []),
                  eb_created_at = (case created_at of Some c \<Rightarrow> if c \<noteq> [] then c else utc_iso now
                                   | None \<Rightarrow> utc_iso now),
                  eb_signer = [], eb_signature = [],
                  eb_schema_version = ''karma.ta.evidence_bundle.v1'',
                  eb_trace_id = tc_trace_id task\<rparr>)"

definition map_to_karma_proof_hash :: "(string \<Rightarrow> string) \<Rightarrow> EvidenceBundle \<Rightarrow> string" where
  "map_to_karma_proof_hash sha bundle = karma_proof_hash_pointer (hash_evidence_bundle sha bundle)"

section \<open>Structural verification\<close>

definition result_of ::
  "string \<Rightarrow> string \<Rightarrow> string \<Rightarrow> VerificationDecision \<Rightarrow> string list \<Rightarrow> string \<Rightarrow> string \<Rightarrow> VerificationResult" where
  "result_of uuid bundle_digest task_id decision reasons verified_at trace_id =
     \<lparr>vr_verification_id = uuid, vr_task_id = task_id, vr_evidence_bundle_digest = bundle_digest,
      vr_decision = decision, vr_public_reasons = reasons, vr_verified_at = verified_at,
      vr_verifier = ''karma.structural.v1'', vr_signature = [], vr_trace_id = trace_id\<rparr>"

text \<open>The loop over the start times, with the last one seen.\<close>

fun chronological :: "string \<Rightarrow> ExecutionReceipt list \<Rightarrow> bool" where
  "chronological prev [] = True"
| "chronological prev (r # rs) =
     (if er_started_at r < prev then False else chronological (er_started_at r) rs)"

definition verify_evidence_bundle_structural ::
  "(string \<Rightarrow> string) \<Rightarrow> string \<Rightarrow> datetime \<Rightarrow> TaskContract \<Rightarrow> EvidenceBundle \<Rightarrow> InMemoryReceiptStore
   \<Rightarrow> OperationalControls option \<Rightarrow> VerificationResult" where
  "verify_evidence_bundle_structural sha uuid now task bundle store controls =
     (let verified_at = utc_iso now;
          bundle_digest = sha256_hex sha (canonical_json_bytes (bundle_fields bundle));
          trace_id = tc_trace_id task;
          failed = (\<lambda>task_id reason. result_of uuid bundle_digest task_id STRUCT_FAIL [reason] verified_at trace_id)
      in case (case controls of None \<Rightarrow> None | Some c \<Rightarrow> verification_block_reason c task) of
           Some vb \<Rightarrow> failed (tc_task_id task) vb
         | None \<Rightarrow>
             if eb_task_id bundle \<noteq> tc_task_id task then failed (eb_task_id bundle) ''task_id_mismatch''
             else if eb_task_contract_hash bundle \<noteq> task_contract_hash sha task
             then failed (eb_task_id bundle) ''task_contract_hash_mismatch''
             else
               let chain = get_receipt_chain store (tc_task_id task) in
               if chain = [] then failed (eb_task_id bundle) ''receipt_missing''
               else
                 let chain_sorted = chain_order chain in
                 if trace_id \<noteq> [] \<and> eb_trace_id bundle \<noteq> trace_id
                 then failed (eb_task_id bundle) ''bundle_trace_mismatch''
                 else if trace_id \<noteq> [] \<and> list_ex (\<lambda>r. er_trace_id r \<noteq> trace_id) chain_sorted
                 then failed (eb_task_id bundle) ''receipt_trace_mismatch''
                 else if map (receipt_record_hash sha) chain_sorted \<noteq> eb_receipt_hashes bundle
                 then failed (eb_task_id bundle) ''hash_mismatch''
                 else if \<not> chronological [] chain_sorted
                 then failed (eb_task_id bundle) ''chronological_error''
                 else result_of uuid bundle_digest (eb_task_id bundle) STRUCT_OK [''receipt_chain_valid'']
                        verified_at trace_id)"

section \<open>The proof-hash pointer\<close>

definition PREFIX :: string where
  "PREFIX = ''karma-ta:v1/sha256/''"

definition is_lower_hex :: "char \<Rightarrow> bool" where
  "is_lower_hex c \<longleftrightarrow> is_digit c \<or> 97 \<le> code c \<and> code c \<le> 102"

definition is_hex :: "char \<Rightarrow> bool" where
  "is_hex c \<longleftrightarrow> is_lower_hex c \<or> 65 \<le> code c \<and> code c \<le> 70"

text \<open>\<^verbatim>\<open>_PATTERN.fullmatch(s)\<close>\<close>

definition matches_pattern :: "string \<Rightarrow> bool" where
  "matches_pattern s \<longleftrightarrow> starts_with s PREFIX \<and>
     length (drop (length PREFIX) s) = 64 \<and> list_all is_lower_hex (drop (length PREFIX) s)"

definition normalize_karma_proof_hash :: "string \<Rightarrow> string" where
  "normalize_karma_proof_hash proof_hash =
     (let s = strip proof_hash in
      if \<not> starts_with s PREFIX then s
      else take (length PREFIX) s @ lower (drop (length PREFIX) s))"

definition is_canonical_karma_proof_hash :: "string \<Rightarrow> bool" where
  "is_canonical_karma_proof_hash proof_hash = matches_pattern (normalize_karma_proof_hash proof_hash)"

text \<open>The hints of a refusal; \<open>Proof_hash_ok\<close> is the answer OK.\<close>

datatype proof_hash_verdict =
    Proof_hash_ok | Whitespace | Raw_bytes32 | Not_karma_pointer | Wrong_prefix string
  | Hex_prefix_in_tail | Tail_length nat | Tail_not_hex | Not_canonical

definition validate_karma_proof_hash_for_create_bill :: "string \<Rightarrow> proof_hash_verdict" where
  "validate_karma_proof_hash_for_create_bill proof_hash =
     (let raw = proof_hash; s = strip raw in
      if s \<noteq> raw then Whitespace
      else if starts_with s ''0x'' \<and> length s = 66 then Raw_bytes32
      else if \<not> starts_with s ''karma-ta:'' then Not_karma_pointer
      else if \<not> starts_with s PREFIX then Wrong_prefix (take 24 s)
      else let tail = drop (length PREFIX) s in
           if starts_with tail ''0x'' then Hex_prefix_in_tail
           else if length tail \<noteq> 64 then Tail_length (length tail)
           else if \<not> list_all is_hex tail then Tail_not_hex
           else if \<not> matches_pattern (normalize_karma_proof_hash s) then Not_canonical
           else Proof_hash_ok)"

definition assert_canonical_karma_proof_hash :: "string \<Rightarrow> proof_hash_verdict + string" where
  "assert_canonical_karma_proof_hash proof_hash =
     (let v = validate_karma_proof_hash_for_create_bill proof_hash
      in if v \<noteq> Proof_hash_ok then Inl v else Inr (normalize_karma_proof_hash proof_hash))"

section \<open>When verification accepts\<close>

definition admissible :: "(string \<Rightarrow> string) \<Rightarrow> TaskContract \<Rightarrow> EvidenceBundle \<Rightarrow> InMemoryReceiptStore
   \<Rightarrow> OperationalControls option \<Rightarrow> bool" where
  "admissible sha task bundle store controls \<longleftrightarrow>
     (case controls of None \<Rightarrow> True | Some c \<Rightarrow> verification_block_reason c task = None) \<and>
     eb_task_id bundle = tc_task_id task \<and>
     eb_task_contract_hash bundle = task_contract_hash sha task \<and>
     get_receipt_chain store (tc_task_id task) \<noteq> [] \<and>
     (tc_trace_id task \<noteq> [] \<longrightarrow> eb_trace_id bundle = tc_trace_id task \<and>
        list_all (\<lambda>r. er_trace_id r = tc_trace_id task) (get_receipt_chain store (tc_task_id task))) \<and>
     eb_receipt_hashes bundle
       = map (receipt_record_hash sha) (chain_order (get_receipt_chain store (tc_task_id task))) \<and>
     sorted (map er_started_at (chain_order (get_receipt_chain store (tc_task_id task))))"

lemma chronological_sorted: "chronological prev rs \<longleftrightarrow> sorted (prev # map er_started_at rs)"
proof (induction rs arbitrary: prev)
  case (Cons r rs)
  then show ?case by (auto simp: not_less intro: order_trans)
qed simp

lemma chronological_iff: "chronological [] rs \<longleftrightarrow> sorted (map er_started_at rs)"
  by (simp add: chronological_sorted)

lemma set_chain_order [simp]: "set (chain_order rs) = set rs"
  by (simp add: chain_order_def)

lemma verify_decision:
  "vr_decision (verify_evidence_bundle_structural sha uuid now task bundle store controls) = STRUCT_OK
   \<longleftrightarrow> admissible sha task bundle store controls"
  unfolding verify_evidence_bundle_structural_def admissible_def Let_def
  by (auto simp: result_of_def chronological_iff list_ex_iff list_all_iff
      split: option.splits)

lemma verify_result:
  "vr_evidence_bundle_digest (verify_evidence_bundle_structural sha uuid now task bundle store controls)
     = hash_evidence_bundle sha bundle"
  "vr_trace_id (verify_evidence_bundle_structural sha uuid now task bundle store controls) = tc_trace_id task"
  "length (vr_public_reasons (verify_evidence_bundle_structural sha uuid now task bundle store controls)) = 1"
  unfolding verify_evidence_bundle_structural_def Let_def
  by (auto simp: result_of_def hash_evidence_bundle_def split: option.splits)

section \<open>Bundles built from a chain\<close>

lemma collect_known:
  assumes "store_ok s" "set rs \<subseteq> set (map snd s)"
  shows "collect_receipts s (map er_receipt_id rs) = Inr rs"
  using assms(2)
proof (induction rs)
  case (Cons r rs)
  then have "get_receipt s (er_receipt_id r) = Some r" using store_get_values [OF assms(1)] by simp
  with Cons show ?case by simp
qed simp

lemma chain_in_store: "set (get_receipt_chain s t) \<subseteq> set (map snd s)"
  by (auto simp: store_defs)

section \<open>The pointer\<close>

lemma hex_digit_lower_hex: "n < 16 \<Longrightarrow> is_lower_hex (hex_digit n)"
  by (auto simp: hex_digit_def is_lower_hex_def is_digit_def)

lemma hex_lower_hex: "list_all is_lower_hex (hex bs)"
proof -
  have "code c div 16 < 16" for c
    using code_less [of c] by (intro less_mult_imp_div_less) simp
  then show ?thesis
    by (induction bs) (auto simp: hex_def hex_byte_def intro!: hex_digit_lower_hex)
qed

lemma lower_hex_lower: "is_lower_hex c \<Longrightarrow> lower_char c = c"
  by (auto simp: is_lower_hex_def is_digit_def lower_char_def)

lemma lower_lower_hex: "list_all is_lower_hex s \<Longrightarrow> lower s = s"
  by (induction s) (auto simp: lower_def lower_hex_lower)

lemma is_hex_iff_lower: "is_lower_hex (lower_char c) \<longleftrightarrow> is_hex c"
proof (cases "65 \<le> code c \<and> code c \<le> 90 \<or> 192 \<le> code c \<and> code c \<le> 222 \<and> code c \<noteq> 215")
  case True
  then have "code (chr (code c + 32)) = code c + 32" by (intro code_chr) auto
  with True show ?thesis by (auto simp: lower_char_def is_hex_def is_lower_hex_def is_digit_def)
next
  case False
  then show ?thesis by (auto simp: lower_char_def is_hex_def is_lower_hex_def is_digit_def)
qed

lemma list_all_hex_lower: "list_all is_lower_hex (lower s) \<longleftrightarrow> list_all is_hex s"
  by (induction s) (auto simp: lower_def is_hex_iff_lower)

lemma hex_not_space: "is_lower_hex c \<Longrightarrow> \<not> is_space c"
  by (auto simp: is_lower_hex_def is_digit_def is_space_def)

lemma strip_solid:
  assumes "s \<noteq> []" "\<not> is_space (hd s)" "\<not> is_space (last s)"
  shows "strip s = s"
proof -
  have "dropWhile is_space s = s" using assms(1,2) by (cases s) auto
  moreover have "dropWhile is_space (rev s) = rev s"
    using assms(1,3) by (cases s rule: rev_cases) auto
  ultimately show ?thesis by (simp add: strip_def)
qed

lemma starts_with_append [simp]: "starts_with (p @ s) p"
  by (induction p) auto

lemma normalize_pointer:
  assumes "strip s = s"
  shows "matches_pattern (normalize_karma_proof_hash s) \<longleftrightarrow>
    starts_with s PREFIX \<and> length (drop (length PREFIX) s) = 64 \<and> list_all is_hex (drop (length PREFIX) s)"
proof (cases "starts_with s PREFIX")
  case True
  then obtain t where s: "s = PREFIX @ t" by (auto simp: starts_with_iff)
  then have "normalize_karma_proof_hash s = PREFIX @ lower t"
    using assms True by (simp add: normalize_karma_proof_hash_def Let_def)
  then show ?thesis
    using s list_all_hex_lower [of t] by (simp add: matches_pattern_def lower_def)
next
  case False
  with assms show ?thesis by (simp add: normalize_karma_proof_hash_def Let_def matches_pattern_def)
qed

lemma validate_ok_iff:
  "validate_karma_proof_hash_for_create_bill p = Proof_hash_ok \<longleftrightarrow>
   strip p = p \<and> is_canonical_karma_proof_hash p"
proof (cases "strip p = p \<and> starts_with p PREFIX")
  case True
  then obtain t where p: "p = PREFIX @ t" by (auto simp: starts_with_iff)
  have "\<not> starts_with p ''0x''" "starts_with p ''karma-ta:''" by (simp_all add: p PREFIX_def)
  moreover have "\<not> starts_with t ''0x''" if "list_all is_hex t"
    using that by (auto simp: starts_with_iff is_hex_def is_lower_hex_def is_digit_def code_def)
  ultimately show ?thesis
    using True normalize_pointer [of p] p
    by (auto simp: validate_karma_proof_hash_for_create_bill_def is_canonical_karma_proof_hash_def Let_def)
next
  case False
  then show ?thesis
    using normalize_pointer [of p]
    by (auto simp: validate_karma_proof_hash_for_create_bill_def is_canonical_karma_proof_hash_def Let_def)
qed

lemma pointer_solid:
  assumes "length d = 64" "list_all is_lower_hex d"
  shows "strip (PREFIX @ d) = PREFIX @ d"
proof (rule strip_solid)
  have "d \<noteq> []" using assms(1) by auto
  then have "is_lower_hex (last d)" using assms(2) by (simp add: list_all_iff)
  with \<open>d \<noteq> []\<close> show "\<not> is_space (last (PREFIX @ d))" by (simp add: hex_not_space)
qed (simp_all add: PREFIX_def is_space_def code_def)

section \<open>Properties\<close>

text \<open>Structural verification accepts a bundle exactly when no switch blocks it, the bundle
  names the task and its contract hash, the task has receipts, trace ids agree, the bundle lists
  the hashes of the receipts in step order and their start times do not decrease; the result
  always carries the bundle's digest and exactly one reason.\<close>

lemma structural_verification_accepts_iff:
  "(vr_decision (verify_evidence_bundle_structural sha uuid now task bundle store controls) = STRUCT_OK
     \<longleftrightarrow> admissible sha task bundle store controls)
   \<and> vr_evidence_bundle_digest (verify_evidence_bundle_structural sha uuid now task bundle store controls)
     = hash_evidence_bundle sha bundle
   \<and> length (vr_public_reasons (verify_evidence_bundle_structural sha uuid now task bundle store controls)) = 1"
  by (simp add: verify_decision verify_result)

text \<open>C17. An accepted bundle pins down the task and its receipts: if the same bundle is accepted for
  two tasks and two stores, the contracts are equal and so are the two receipt chains, if SHA-256
  does not collide on the texts of the contracts and receipts involved.\<close>

theorem accepted_bundle_pins_evidence:
  assumes "vr_decision (verify_evidence_bundle_structural sha uuid now task bundle store controls) = STRUCT_OK"
    and "vr_decision (verify_evidence_bundle_structural sha uuid' now' task' bundle store' controls') = STRUCT_OK"
    and "inj_on sha {contract_text task, contract_text task'}"
    and "inj_on sha (receipt_text ` set (get_receipt_chain store (tc_task_id task)
           @ get_receipt_chain store' (tc_task_id task')))"
  shows "task = task' \<and> chain_order (get_receipt_chain store (tc_task_id task))
      = chain_order (get_receipt_chain store' (tc_task_id task'))"
proof
  note ok = assms(1,2) [unfolded verify_decision admissible_def]
  have "task_contract_hash sha task = task_contract_hash sha task'" using ok by metis
  then show "task = task'"
    using contract_hash_binds [OF assms(3), of task task'] by blast
  have "map (receipt_record_hash sha) (chain_order (get_receipt_chain store (tc_task_id task)))
      = map (receipt_record_hash sha) (chain_order (get_receipt_chain store' (tc_task_id task')))"
    using ok by metis
  then show "chain_order (get_receipt_chain store (tc_task_id task))
      = chain_order (get_receipt_chain store' (tc_task_id task'))"
    using receipt_hashes_bind [of sha "chain_order (get_receipt_chain store (tc_task_id task))"
        "chain_order (get_receipt_chain store' (tc_task_id task'))"] assms(4) by simp
qed

definition sample_task :: TaskContract where
  "sample_task = \<lparr>tc_task_id = ''t1'', tc_agent_id = ''a1'', tc_runtime_id = ''rt'', tc_description = ''d'',
     tc_schema_version = ''karma.task_contract.v1'', tc_trace_id = []\<rparr>"

definition sample_store :: InMemoryReceiptStore where
  "sample_store = [(''r1'', sample_exec ''r1'' 0 [])]"

definition sample_bundle :: "(string \<Rightarrow> string) \<Rightarrow> EvidenceBundle" where
  "sample_bundle sha =
     \<lparr>eb_bundle_id = ''b1'', eb_task_id = ''t1'', eb_task_contract_hash = task_contract_hash sha sample_task,
      eb_receipt_hashes = [receipt_record_hash sha (sample_exec ''r1'' 0 [])],
      eb_final_result_hash = [], eb_evidence_storage_refs = [], eb_created_at = [], eb_signer = [],
      eb_signature = [], eb_schema_version = ''karma.ta.evidence_bundle.v1'', eb_trace_id = []\<rparr>"

lemma sample_chain: "get_receipt_chain sample_store ''t1'' = [sample_exec ''r1'' 0 []]"
  by (simp add: store_defs sample_store_def sample_exec_def)

lemma sample_admissible: "admissible sha sample_task (sample_bundle sha) sample_store None"
  by (simp add: admissible_def sample_task_def sample_bundle_def sample_chain chain_order_def)

definition other_store :: InMemoryReceiptStore where
  "other_store = (''z'', (sample_exec ''z'' 0 [])\<lparr>er_task_id := ''t2''\<rparr>) # sample_store"

lemma other_chain: "get_receipt_chain other_store ''t1'' = [sample_exec ''r1'' 0 []]"
  by (simp add: store_defs other_store_def sample_store_def sample_exec_def)

theorem accepted_bundle_pins_evidence_witness:
  "chain_order (get_receipt_chain sample_store (tc_task_id sample_task))
   = chain_order (get_receipt_chain other_store (tc_task_id sample_task))"
proof -
  have "admissible (\<lambda>x. x) sample_task (sample_bundle (\<lambda>x. x)) other_store None"
    by (simp add: admissible_def sample_task_def sample_bundle_def other_chain chain_order_def)
  then have ok: "vr_decision (verify_evidence_bundle_structural (\<lambda>x. x) ''v'' utc_epoch sample_task
      (sample_bundle (\<lambda>x. x)) s None) = STRUCT_OK" if "s \<in> {sample_store, other_store}" for s
    using that sample_admissible by (auto simp: verify_decision)
  show ?thesis
    using accepted_bundle_pins_evidence [OF ok ok, of sample_store other_store] by (simp add: inj_on_def)
qed



text \<open>The pointer of a bundle is well formed and names the bundle: with digests of 32 bytes it
  passes validation unchanged, and two bundles with the same pointer are equal if SHA-256 does not
  collide on them.\<close>

lemma bundle_pointer_valid:
  assumes "\<And>x. length (sha x) = 32"
    and "inj_on sha {bundle_text a, bundle_text b}"
  shows "assert_canonical_karma_proof_hash (map_to_karma_proof_hash sha a) = Inr (map_to_karma_proof_hash sha a)
    \<and> (map_to_karma_proof_hash sha a = map_to_karma_proof_hash sha b \<longrightarrow> a = b)"
proof -
  let ?d = "\<lambda>x. hash_evidence_bundle sha x"
  have d: "length (?d x) = 64" "list_all is_lower_hex (?d x)" for x
    using assms(1) hex_lower_hex by (simp_all add: hash_evidence_bundle_def sha256_hex_def)
  have p: "map_to_karma_proof_hash sha x = PREFIX @ ?d x" for x
    using lower_lower_hex [OF d(2)] by (simp add: map_to_karma_proof_hash_def karma_proof_hash_pointer_def PREFIX_def)
  have solid: "strip (PREFIX @ ?d a) = PREFIX @ ?d a" by (rule pointer_solid [OF d])
  then have norm: "normalize_karma_proof_hash (PREFIX @ ?d a) = PREFIX @ ?d a"
    using lower_lower_hex [OF d(2)] by (simp add: normalize_karma_proof_hash_def Let_def)
  then have "is_canonical_karma_proof_hash (PREFIX @ ?d a)"
    using d by (simp add: is_canonical_karma_proof_hash_def matches_pattern_def)
  with solid norm have "assert_canonical_karma_proof_hash (PREFIX @ ?d a) = Inr (PREFIX @ ?d a)"
    by (simp add: assert_canonical_karma_proof_hash_def Let_def validate_ok_iff)
  moreover have "a = b" if "?d a = ?d b"
    using bundle_hash_binds [OF assms(2) _ _ that] by blast
  ultimately show ?thesis by (simp add: p)
qed

definition pad32 :: "string \<Rightarrow> string" where
  "pad32 x = take 32 (x @ replicate 32 (CHR ''0''))"

end
