(* ===== verification/Verifier_Rules.thy ===== *)
theory Verifier_Rules
  imports Evidence_Schemas "HOL-Library.Multiset"
begin

text \<open>
  The public rules every verifier node runs (\<^verbatim>\<open>decentralized_verifier/rules/\<close>) and the node
  itself (\<^verbatim>\<open>node/verifier.py\<close>). Tasks, bundles and receipts are dicts as they come from storage:
  lists of items with distinct keys. The fields that the rules read have their documented types:
  \<^verbatim>\<open>step_index\<close> is an integer, \<^verbatim>\<open>receipt_hashes\<close> a list, the others strings; a field may be missing.

  The lemmas give the exact conditions of the two rule sets, and show that the verdict of a node
  does not depend on the order in which it receives the receipts.
\<close>

section \<open>Reading a document\<close>

type_synonym doc = "(string \<times> json) list"

definition get_str :: "doc \<Rightarrow> string \<Rightarrow> string" where
  "get_str d k = (case dict_get d k of Some (JStr s) \<Rightarrow> s | _ \<Rightarrow> [])"

definition get_int :: "doc \<Rightarrow> string \<Rightarrow> int" where
  "get_int d k = (case dict_get d k of Some (JInt i) \<Rightarrow> i | _ \<Rightarrow> 0)"

definition get_list :: "doc \<Rightarrow> string \<Rightarrow> json list" where
  "get_list d k = (case dict_get d k of Some (JArr xs) \<Rightarrow> xs | _ \<Rightarrow> [])"

section \<open>Hashes\<close>

definition evidence_hash :: "(string \<Rightarrow> string) \<Rightarrow> doc \<Rightarrow> string" where
  "evidence_hash sha bundle_dict = sha256_hex sha (canonical_json_bytes bundle_dict)"

definition receipt_hash :: "(string \<Rightarrow> string) \<Rightarrow> doc \<Rightarrow> string" where
  "receipt_hash sha receipt_dict = sha256_hex sha (canonical_json_bytes receipt_dict)"

definition task_dict_hash :: "(string \<Rightarrow> string) \<Rightarrow> doc \<Rightarrow> string" where
  "task_dict_hash sha task_dict = sha256_hex sha (canonical_json_bytes task_dict)"

definition proof_hash_bytes32 :: "(string \<Rightarrow> string) \<Rightarrow> doc \<Rightarrow> string" where
  "proof_hash_bytes32 sha bundle_dict = sha (canonical_json_bytes bundle_dict)"

definition proof_hash_hex :: "(string \<Rightarrow> string) \<Rightarrow> doc \<Rightarrow> string" where
  "proof_hash_hex sha bundle_dict = ''0x'' @ hex (proof_hash_bytes32 sha bundle_dict)"

section \<open>Structural rules\<close>

record rule_result =
  rr_decision :: VerificationDecision
  rr_reasons :: "string list"

definition rule_fail :: "string list \<Rightarrow> rule_result" where
  "rule_fail reasons = \<lparr>rr_decision = STRUCT_FAIL, rr_reasons = reasons\<rparr>"

definition rule_ok :: "string list \<Rightarrow> rule_result" where
  "rule_ok reasons = \<lparr>rr_decision = STRUCT_OK, rr_reasons = reasons\<rparr>"

definition sorted_receipts :: "doc list \<Rightarrow> doc list" where
  "sorted_receipts receipts = sort_key (\<lambda>r. (get_int r ''step_index'', get_str r ''receipt_id'')) receipts"

text \<open>The chronological loop skips receipts without a start time.\<close>

fun in_order :: "string \<Rightarrow> doc list \<Rightarrow> bool" where
  "in_order prev [] = True"
| "in_order prev (r # rs) =
     (let started_at = get_str r ''started_at'' in
      if started_at = [] then in_order prev rs
      else if started_at < prev then False
      else in_order started_at rs)"

text \<open>The position of the first receipt, from \<open>i\<close> on, without an output hash.\<close>

fun missing_output :: "nat \<Rightarrow> doc list \<Rightarrow> nat option" where
  "missing_output i [] = None"
| "missing_output i (r # rs) =
     (if get_str r ''output_hash'' = [] then Some i else missing_output (i + 1) rs)"

text \<open>The position of the first receipt whose step index is not its position.\<close>

fun step_gap :: "nat \<Rightarrow> doc list \<Rightarrow> nat option" where
  "step_gap i [] = None"
| "step_gap i (r # rs) =
     (if dict_get r ''step_index'' \<noteq> Some (JInt (int i)) then Some i else step_gap (i + 1) rs)"

definition structural_verify :: "(string \<Rightarrow> string) \<Rightarrow> doc \<Rightarrow> doc \<Rightarrow> doc list \<Rightarrow> rule_result" where
  "structural_verify sha task bundle receipts =
     (if dict_get bundle ''task_id'' \<noteq> dict_get task ''task_id'' then rule_fail [''task_id_mismatch'']
      else if dict_get bundle ''task_contract_hash'' \<noteq> Some (JStr (task_dict_hash sha task))
      then rule_fail [''task_contract_hash_mismatch'']
      else if receipts = [] then rule_fail [''receipt_chain_empty'']
      else
        let rs = sorted_receipts receipts in
        if map (\<lambda>r. JStr (receipt_hash sha r)) rs \<noteq> get_list bundle ''receipt_hashes''
        then rule_fail [''receipt_hash_mismatch'']
        else if \<not> in_order [] rs then rule_fail [''chronological_order_violation'']
        else if get_str task ''trace_id'' \<noteq> [] \<and> dict_get bundle ''trace_id'' \<noteq> Some (JStr (get_str task ''trace_id''))
        then rule_fail [''bundle_trace_id_mismatch'']
        else if get_str task ''trace_id'' \<noteq> [] \<and>
                list_ex (\<lambda>r. get_str r ''trace_id'' \<noteq> [] \<and> get_str r ''trace_id'' \<noteq> get_str task ''trace_id'') rs
        then rule_fail [''receipt_trace_id_mismatch'']
        else case missing_output 0 rs of
               Some i \<Rightarrow> rule_fail [''missing_output_hash_step_'' @ nat_str i]
             | None \<Rightarrow>
                 (case step_gap 0 rs of
                    Some i \<Rightarrow> rule_fail [''step_index_gap_at_'' @ nat_str i @ ''_expected_'' @ nat_str i @ ''_got_'' @
                       (case dict_get (rs ! i) ''step_index'' of
                          Some (JInt k) \<Rightarrow> int_str k | _ \<Rightarrow> ''None'')]
                  | None \<Rightarrow> rule_ok [''all_structural_checks_passed'']))"

section \<open>Evidence integrity rules\<close>

definition missing_keys :: "string list \<Rightarrow> doc \<Rightarrow> string list" where
  "missing_keys required d = sort (filter (\<lambda>k. dict_get d k = None) required)"

fun duplicate_id :: "string set \<Rightarrow> doc list \<Rightarrow> string option" where
  "duplicate_id seen [] = None"
| "duplicate_id seen (r # rs) =
     (let rid = get_str r ''receipt_id'' in
      if rid \<in> seen then Some rid else duplicate_id (insert rid seen) rs)"

fun first_bad :: "(doc \<Rightarrow> bool) \<Rightarrow> nat \<Rightarrow> doc list \<Rightarrow> nat option" where
  "first_bad P i [] = None"
| "first_bad P i (r # rs) = (if P r then first_bad P (i + 1) rs else Some i)"

definition is_hex64 :: "string \<Rightarrow> bool" where
  "is_hex64 s \<longleftrightarrow> length s = 64 \<and> list_all (\<lambda>c. c \<in> set ''0123456789abcdef'') s"

definition verify_evidence_integrity :: "(string \<Rightarrow> string) \<Rightarrow> doc \<Rightarrow> doc list \<Rightarrow> doc \<Rightarrow> rule_result" where
  "verify_evidence_integrity sha bundle receipts task =
     (let missing = missing_keys [''task_id'', ''task_contract_hash'', ''receipt_hashes''] bundle;
          missing_task = missing_keys [''task_id'', ''agent_id'', ''runtime_id''] task
      in if missing \<noteq> [] then rule_fail [''bundle_missing_keys:'' @ join '','' missing]
         else if missing_task \<noteq> [] then rule_fail [''task_missing_keys:'' @ join '','' missing_task]
         else case duplicate_id {} receipts of
           Some rid \<Rightarrow> rule_fail [''duplicate_receipt_id:'' @ rid]
         | None \<Rightarrow>
             let bundle_hashes = get_list bundle ''receipt_hashes'' in
             if length bundle_hashes \<noteq> length receipts
             then rule_fail [''receipt_count_mismatch:bundle='' @ nat_str (length bundle_hashes) @
                             ''_actual='' @ nat_str (length receipts)]
             else case first_bad (\<lambda>r. dict_get r ''task_id'' = dict_get task ''task_id'') 0 receipts of
               Some i \<Rightarrow> rule_fail [''receipt_'' @ nat_str i @ ''_task_id_mismatch'']
             | None \<Rightarrow>
                 (case first_bad (\<lambda>r. is_hex64 (get_str r ''output_hash'')) 0 receipts of
                    Some i \<Rightarrow> rule_fail [''receipt_'' @ nat_str i @ ''_output_hash_not_valid_sha256'']
                  | None \<Rightarrow>
                      if get_str bundle ''evidence_hash'' \<noteq> [] \<and>
                         get_str bundle ''evidence_hash'' \<noteq> evidence_hash sha bundle
                      then rule_fail [''evidence_hash_mismatch'']
                      else rule_ok [''all_evidence_integrity_checks_passed'']))"

section \<open>A verifier node\<close>

record KarmaVerifierNode =
  kn_verifier_id :: string
  kn_wallet_address :: string
  kn_verifier_registry_url :: string
  kn_rpc_url :: string

datatype node_error = VerifierIdRequired | BadWalletAddress

definition make_node :: "string \<Rightarrow> string \<Rightarrow> string \<Rightarrow> string \<Rightarrow> node_error + KarmaVerifierNode" where
  "make_node verifier_id wallet_address registry_url rpc_url =
     (if verifier_id = [] then Inl VerifierIdRequired
      else if wallet_address = [] \<or> \<not> starts_with wallet_address ''0x'' then Inl BadWalletAddress
      else Inr \<lparr>kn_verifier_id = verifier_id, kn_wallet_address = lower wallet_address,
                kn_verifier_registry_url = registry_url, kn_rpc_url = rpc_url\<rparr>)"

record VerifierAttestation =
  va_attestation_version :: string
  va_task_id :: string
  va_bundle_id :: string
  va_evidence_hash :: string
  va_cid :: string
  va_verifier_id :: string
  va_verifier_wallet :: string
  va_decision :: string
  va_reason_codes :: "string list"
  va_verified_at :: string
  va_chain_id :: int
  va_contract_address :: string
  va_signature :: string

definition node_verify ::
  "(string \<Rightarrow> string) \<Rightarrow> string \<Rightarrow> KarmaVerifierNode \<Rightarrow> doc \<Rightarrow> doc \<Rightarrow> doc list \<Rightarrow> string \<Rightarrow> VerifierAttestation" where
  "node_verify sha now node task bundle receipts cid =
     (let struct_result = structural_verify sha task bundle receipts;
          struct_ok = (rr_decision struct_result = STRUCT_OK);
          integrity_result = verify_evidence_integrity sha bundle receipts task;
          integrity_ok = (rr_decision integrity_result = STRUCT_OK)
      in \<lparr>va_attestation_version = ''karma-attestation-v1'',
          va_task_id = get_str task ''task_id'', va_bundle_id = get_str bundle ''bundle_id'',
          va_evidence_hash = evidence_hash sha bundle, va_cid = cid,
          va_verifier_id = kn_verifier_id node, va_verifier_wallet = kn_wallet_address node,
          va_decision = (if struct_ok \<and> integrity_ok then ''STRUCT_OK'' else ''STRUCT_FAIL''),
          va_reason_codes = rr_reasons struct_result @ rr_reasons integrity_result,
          va_verified_at = now, va_chain_id = 0, va_contract_address = [], va_signature = []\<rparr>)"

lemmas rule_defs [quorum_defs] = rule_fail_def rule_ok_def

section \<open>What the loops check\<close>

lemma missing_output_None: "missing_output i rs = None \<longleftrightarrow> list_all (\<lambda>r. get_str r ''output_hash'' \<noteq> []) rs"
  by (induction i rs rule: missing_output.induct) auto

lemma step_gap_None:
  "step_gap i rs = None \<longleftrightarrow> map (\<lambda>r. dict_get r ''step_index'') rs = map (\<lambda>k. Some (JInt (int k))) [i..<i + length rs]"
proof (induction i rs rule: step_gap.induct)
  case (2 i r rs)
  have "[i..<i + length (r # rs)] = i # [i + 1..<i + 1 + length rs]" by (simp add: upt_rec)
  with 2 show ?case by auto
qed simp

lemma duplicate_id_None:
  "duplicate_id seen rs = None \<longleftrightarrow>
   distinct (map (\<lambda>r. get_str r ''receipt_id'') rs) \<and> seen \<inter> set (map (\<lambda>r. get_str r ''receipt_id'') rs) = {}"
  by (induction seen rs rule: duplicate_id.induct) (auto simp: Let_def)

lemma first_bad_None: "first_bad P i rs = None \<longleftrightarrow> list_all P rs"
  by (induction P i rs rule: first_bad.induct) auto

lemma in_order_sorted:
  "in_order prev rs \<longleftrightarrow> sorted (prev # filter (\<lambda>s. s \<noteq> []) (map (\<lambda>r. get_str r ''started_at'') rs))"
proof (induction prev rs rule: in_order.induct)
  case (2 prev r rs)
  show ?case
  proof (cases "get_str r ''started_at'' = []")
    case True
    with 2 show ?thesis by simp
  next
    case False
    with 2(2) [OF refl False] show ?thesis by (auto simp: Let_def not_less intro: order_trans)
  qed
qed simp

lemma in_order_iff: "in_order [] rs \<longleftrightarrow> sorted (filter (\<lambda>s. s \<noteq> []) (map (\<lambda>r. get_str r ''started_at'') rs))"
  by (simp add: in_order_sorted)

section \<open>When the rules accept\<close>

definition structure_admitted :: "(string \<Rightarrow> string) \<Rightarrow> doc \<Rightarrow> doc \<Rightarrow> doc list \<Rightarrow> bool" where
  "structure_admitted sha task bundle receipts \<longleftrightarrow>
     (let rs = sorted_receipts receipts; trace = get_str task ''trace_id'' in
      dict_get bundle ''task_id'' = dict_get task ''task_id''
      \<and> dict_get bundle ''task_contract_hash'' = Some (JStr (task_dict_hash sha task))
      \<and> rs \<noteq> []
      \<and> get_list bundle ''receipt_hashes'' = map (\<lambda>r. JStr (receipt_hash sha r)) rs
      \<and> sorted (filter (\<lambda>s. s \<noteq> []) (map (\<lambda>r. get_str r ''started_at'') rs))
      \<and> (trace = [] \<or> dict_get bundle ''trace_id'' = Some (JStr trace)
           \<and> list_all (\<lambda>r. get_str r ''trace_id'' \<in> {[], trace}) rs)
      \<and> list_all (\<lambda>r. get_str r ''output_hash'' \<noteq> []) rs
      \<and> map (\<lambda>r. dict_get r ''step_index'') rs = map (\<lambda>k. Some (JInt (int k))) [0..<length rs])"

definition integrity_admitted :: "(string \<Rightarrow> string) \<Rightarrow> doc \<Rightarrow> doc list \<Rightarrow> doc \<Rightarrow> bool" where
  "integrity_admitted sha bundle receipts task \<longleftrightarrow>
     list_all (\<lambda>k. dict_get bundle k \<noteq> None) [''task_id'', ''task_contract_hash'', ''receipt_hashes'']
     \<and> list_all (\<lambda>k. dict_get task k \<noteq> None) [''task_id'', ''agent_id'', ''runtime_id'']
     \<and> distinct (map (\<lambda>r. get_str r ''receipt_id'') receipts)
     \<and> length (get_list bundle ''receipt_hashes'') = length receipts
     \<and> list_all (\<lambda>r. dict_get r ''task_id'' = dict_get task ''task_id'') receipts
     \<and> list_all (\<lambda>r. is_hex64 (get_str r ''output_hash'')) receipts
     \<and> (get_str bundle ''evidence_hash'' = [] \<or> get_str bundle ''evidence_hash'' = evidence_hash sha bundle)"

lemma mset_sorted_receipts [simp]: "mset (sorted_receipts rs) = mset rs"
  by (simp add: sorted_receipts_def)

lemma set_sorted_receipts [simp]: "set (sorted_receipts rs) = set rs"
  by (simp add: sorted_receipts_def)

lemma sorted_receipts_Nil [simp]: "sorted_receipts rs = [] \<longleftrightarrow> rs = []"
  by (simp flip: set_empty add: set_sorted_receipts)

lemma missing_keys_Nil: "missing_keys required d = [] \<longleftrightarrow> list_all (\<lambda>k. dict_get d k \<noteq> None) required"
proof -
  have "set (missing_keys required d) = {k \<in> set required. dict_get d k = None}"
    by (simp add: missing_keys_def)
  then show ?thesis by (auto simp: list_all_iff simp flip: set_empty)
qed

lemma structural_ok_iff [quorum_defs]:
  "rr_decision (structural_verify sha task bundle receipts) = STRUCT_OK \<longleftrightarrow>
   structure_admitted sha task bundle receipts"
proof -
  let ?rs = "sorted_receipts receipts" and ?t = "get_str task ''trace_id''"
  have trace: "\<not> list_ex (\<lambda>r. get_str r ''trace_id'' \<noteq> [] \<and> get_str r ''trace_id'' \<noteq> ?t) ?rs
    \<longleftrightarrow> list_all (\<lambda>r. get_str r ''trace_id'' \<in> {[], ?t}) ?rs"
    by (auto simp: list_ex_iff list_all_iff)
  have steps: "map (\<lambda>r. dict_get r ''step_index'') ?rs = map (\<lambda>k. Some (JInt (int k))) [0..<length ?rs]
    \<longleftrightarrow> step_gap 0 ?rs = None"
    by (simp add: step_gap_None)
  show ?thesis
    unfolding structural_verify_def structure_admitted_def Let_def in_order_iff [symmetric]
      missing_output_None [symmetric, where i = 0] trace [symmetric] steps sorted_receipts_Nil
    by (cases "missing_output 0 ?rs"; cases "step_gap 0 ?rs"; simp add: rule_defs)
qed

lemma integrity_ok_iff [quorum_defs]:
  "rr_decision (verify_evidence_integrity sha bundle receipts task) = STRUCT_OK \<longleftrightarrow>
   integrity_admitted sha bundle receipts task"
proof -
  have ids: "distinct (map (\<lambda>r. get_str r ''receipt_id'') receipts) \<longleftrightarrow> duplicate_id {} receipts = None"
    by (simp add: duplicate_id_None)
  show ?thesis
    unfolding verify_evidence_integrity_def integrity_admitted_def Let_def missing_keys_Nil [symmetric]
      first_bad_None [symmetric, where i = 0] ids
    by (cases "duplicate_id {} receipts"; cases "first_bad (\<lambda>r. dict_get r ''task_id'' = dict_get task ''task_id'') 0 receipts";
        cases "first_bad (\<lambda>r. is_hex64 (get_str r ''output_hash'')) 0 receipts"; simp add: rule_defs)
qed

lemma node_ok_iff:
  "va_decision (node_verify sha now node task bundle receipts cid) = ''STRUCT_OK'' \<longleftrightarrow>
   structure_admitted sha task bundle receipts \<and> integrity_admitted sha bundle receipts task"
  by (simp add: node_verify_def Let_def structural_ok_iff integrity_ok_iff)

section \<open>The order in which receipts arrive\<close>

lemma map_comp_inject_on:
  assumes "map f xs = map f ys" "\<And>x y. x \<in> set xs \<Longrightarrow> y \<in> set ys \<Longrightarrow> f x = f y \<Longrightarrow> g x = g y"
  shows "map g xs = map g ys"
proof (rule nth_equalityI)
  show len: "length (map g xs) = length (map g ys)" using map_eq_imp_length_eq [OF assms(1)] by simp
  fix i assume i: "i < length (map g xs)"
  then have "f (xs ! i) = f (ys ! i)" using assms(1) len by (metis length_map nth_map)
  with i len assms(2) show "map g xs ! i = map g ys ! i" by simp
qed

lemma stepped_distinct:
  assumes "map (\<lambda>r. dict_get r ''step_index'') rs = map (\<lambda>k. Some (JInt (int k))) [0..<length rs]"
  shows "distinct (map (\<lambda>r. (get_int r ''step_index'', get_str r ''receipt_id'')) rs)"
proof -
  have "distinct (map (\<lambda>k. Some (JInt (int k))) [0..<length rs])"
    by (simp add: distinct_map inj_on_def)
  then have "distinct (map (\<lambda>r. dict_get r ''step_index'') rs)" using assms by simp
  then have d: "distinct rs" "inj_on (\<lambda>r. dict_get r ''step_index'') (set rs)" by (simp_all add: distinct_map)
  have int: "dict_get r ''step_index'' = Some (JInt (get_int r ''step_index''))" if "r \<in> set rs" for r
  proof -
    have "dict_get r ''step_index'' \<in> set (map (\<lambda>r. dict_get r ''step_index'') rs)" using that by simp
    then have "dict_get r ''step_index'' \<in> set (map (\<lambda>k. Some (JInt (int k))) [0..<length rs])"
      by (simp only: assms)
    then show ?thesis by (auto simp: get_int_def)
  qed
  have "inj_on (\<lambda>r. (get_int r ''step_index'', get_str r ''receipt_id'')) (set rs)"
  proof (rule inj_onI)
    fix x y assume "x \<in> set rs" "y \<in> set rs"
      "(get_int x ''step_index'', get_str x ''receipt_id'') = (get_int y ''step_index'', get_str y ''receipt_id'')"
    then show "x = y" using int [of x] int [of y] inj_onD [OF d(2), of x y] by simp
  qed
  with d(1) show ?thesis by (simp only: distinct_map)
qed

lemma sorted_receipts_unique:
  assumes "mset xs = mset ys"
    and "distinct (map (\<lambda>r. (get_int r ''step_index'', get_str r ''receipt_id'')) (sorted_receipts xs))"
  shows "sorted_receipts ys = sorted_receipts xs"
proof -
  let ?k = "\<lambda>r. (get_int r ''step_index'', get_str r ''receipt_id'')"
  have m: "mset (sorted_receipts ys) = mset (sorted_receipts xs)" using assms(1) by simp
  have s: "set (sorted_receipts ys) = set (sorted_receipts xs)" by (rule mset_eq_setD [OF m])
  have "mset (map ?k (sorted_receipts ys)) = mset (map ?k (sorted_receipts xs))" using m by simp
  from mset_eq_imp_distinct_iff [OF this] assms(2) have d: "distinct (map ?k (sorted_receipts ys))"
    by (simp only: simp_thms)
  show ?thesis
  proof (rule map_sorted_distinct_set_unique [of ?k])
    show "inj_on ?k (set (sorted_receipts ys) \<union> set (sorted_receipts xs))"
      unfolding s using assms(2) by (simp only: Un_absorb distinct_map)
    show "sorted (map ?k (sorted_receipts ys))" "sorted (map ?k (sorted_receipts xs))"
      by (simp_all add: sorted_receipts_def)
  qed (rule d assms(2) s)+
qed

lemma admitted_any_order:
  assumes "mset xs = mset ys" "structure_admitted sha task bundle xs" "integrity_admitted sha bundle xs task"
  shows "structure_admitted sha task bundle ys \<and> integrity_admitted sha bundle ys task"
proof
  have "sorted_receipts ys = sorted_receipts xs"
    using assms(2) by (intro sorted_receipts_unique assms(1) stepped_distinct)
      (simp add: structure_admitted_def Let_def)
  with assms(2) show "structure_admitted sha task bundle ys" by (simp only: structure_admitted_def)
  have "mset (map (\<lambda>r. get_str r ''receipt_id'') ys) = mset (map (\<lambda>r. get_str r ''receipt_id'') xs)"
    using assms(1) by simp
  then have "distinct (map (\<lambda>r. get_str r ''receipt_id'') ys) = distinct (map (\<lambda>r. get_str r ''receipt_id'') xs)"
    by (rule mset_eq_imp_distinct_iff)
  moreover have "set ys = set xs" "length ys = length xs"
    using assms(1) mset_eq_setD mset_eq_length by metis+
  ultimately show "integrity_admitted sha bundle ys task"
    using assms(3) by (simp add: integrity_admitted_def list_all_iff)
qed

section \<open>What an evidence hash commits to\<close>

lemma text_hash_binds:
  assumes "inj_on sha (canonical_json_bytes ` A)" "a \<in> A" "b \<in> A"
    and "sha256_hex sha (canonical_json_bytes a) = sha256_hex sha (canonical_json_bytes b)"
  shows "canonical_json_bytes a = canonical_json_bytes b"
  using assms by (simp only: sha256_hex_def hex_inject inj_on_eq_iff imageI)

lemma same_text_fields:
  assumes "canonical_json_bytes a = canonical_json_bytes b"
  shows "map_option canon (dict_get a k) = map_option canon (dict_get b k)"
  using assms by (intro canon_dict_get [of a b, folded dict_get_def])
    (simp only: canonical_json_bytes_def utf8_inject dumps_eq_iff)

lemma same_text_str:
  assumes "canonical_json_bytes a = canonical_json_bytes b" "dict_get a k = Some (JStr s)"
  shows "dict_get b k = Some (JStr s)"
proof -
  have "map_option canon (dict_get b k) = Some (JStr s)"
    using same_text_fields [OF assms(1), of k] assms(2) by simp
  then obtain v where v: "dict_get b k = Some v" "canon v = JStr s" by auto
  from v(2) have "v = JStr s" by (cases v) simp_all
  with v(1) show ?thesis by simp
qed

lemma same_text_hashes:
  assumes "canonical_json_bytes a = canonical_json_bytes b"
    and "get_list a k = map JStr xs" "get_list b k = map JStr ys"
  shows "xs = ys"
proof -
  have "map canon (get_list a k) = map canon (get_list b k)"
    using same_text_fields [OF assms(1), of k]
    by (auto simp: get_list_def split: option.splits json.splits)
  then show ?thesis using assms(2,3) by (simp add: inj_map_eq_map inj_def)
qed

lemma structure_admittedD:
  assumes "structure_admitted sha task bundle rs"
  shows "dict_get bundle ''task_contract_hash'' = Some (JStr (task_dict_hash sha task))"
    and "get_list bundle ''receipt_hashes'' = map JStr (map (receipt_hash sha) (sorted_receipts rs))"
  using assms by (simp_all add: structure_admitted_def Let_def)

lemma evidence_hash_pins:
  assumes a: "structure_admitted sha task bundle rs" and b: "structure_admitted sha task' bundle' rs'"
    and h: "evidence_hash sha bundle = evidence_hash sha bundle'"
    and inj: "inj_on sha (canonical_json_bytes ` ({task, task', bundle, bundle'} \<union> set rs \<union> set rs'))"
  shows "canonical_json_bytes task = canonical_json_bytes task'
    \<and> map canonical_json_bytes (sorted_receipts rs) = map canonical_json_bytes (sorted_receipts rs')"
proof
  note binds = text_hash_binds [OF inj]
  have same: "canonical_json_bytes bundle = canonical_json_bytes bundle'"
    using h by (intro binds) (simp_all add: evidence_hash_def)
  have "Some (JStr (task_dict_hash sha task)) = Some (JStr (task_dict_hash sha task'))"
    using same_text_str [OF same structure_admittedD(1) [OF a]] structure_admittedD(1) [OF b]
    by (simp only: refl)
  then have "task_dict_hash sha task = task_dict_hash sha task'" by simp
  then show "canonical_json_bytes task = canonical_json_bytes task'"
    by (intro binds) (simp_all add: task_dict_hash_def)
  have hashes: "map (receipt_hash sha) (sorted_receipts rs) = map (receipt_hash sha) (sorted_receipts rs')"
    by (rule same_text_hashes [OF same structure_admittedD(2) [OF a] structure_admittedD(2) [OF b]])
  show "map canonical_json_bytes (sorted_receipts rs) = map canonical_json_bytes (sorted_receipts rs')"
  proof (rule map_comp_inject_on [OF hashes])
    fix x y assume "x \<in> set (sorted_receipts rs)" "y \<in> set (sorted_receipts rs')"
      "receipt_hash sha x = receipt_hash sha y"
    then show "canonical_json_bytes x = canonical_json_bytes y"
      by (intro binds) (simp_all add: receipt_hash_def)
  qed
qed

section \<open>Properties\<close>

text \<open>A node accepts exactly the evidence that passes both rule sets. The attestation carries the
  hash of the bundle, the node's own identity and the reasons of both rule sets.\<close>

lemma node_accepts_iff:
  "(va_decision (node_verify sha now node task bundle receipts cid) = ''STRUCT_OK'' \<longleftrightarrow>
     structure_admitted sha task bundle receipts \<and> integrity_admitted sha bundle receipts task)
   \<and> va_evidence_hash (node_verify sha now node task bundle receipts cid) = evidence_hash sha bundle
   \<and> va_verifier_id (node_verify sha now node task bundle receipts cid) = kn_verifier_id node
   \<and> va_verifier_wallet (node_verify sha now node task bundle receipts cid) = kn_wallet_address node
   \<and> va_reason_codes (node_verify sha now node task bundle receipts cid)
     = rr_reasons (structural_verify sha task bundle receipts)
       @ rr_reasons (verify_evidence_integrity sha bundle receipts task)"
  unfolding node_ok_iff by (simp add: node_verify_def Let_def)

text \<open>The verdict of a node does not depend on the order in which it receives the receipts, nor
  on which node it is, when it runs or under which content id.\<close>

lemma node_verdict_order_independent:
  assumes "mset receipts = mset receipts'"
  shows "va_decision (node_verify sha now node task bundle receipts cid)
    = va_decision (node_verify sha now' node' task bundle receipts' cid')"
proof -
  have "va_decision (node_verify sha now node task bundle receipts cid) = ''STRUCT_OK''
    \<longleftrightarrow> va_decision (node_verify sha now' node' task bundle receipts' cid') = ''STRUCT_OK''"
    unfolding node_ok_iff using admitted_any_order assms by metis
  then show ?thesis by (auto simp: node_verify_def Let_def split: if_splits)
qed

definition sample_doc :: "string \<Rightarrow> int \<Rightarrow> doc" where
  "sample_doc rid step =
     [(''receipt_id'', JStr rid), (''task_id'', JStr ''t1''), (''step_index'', JInt step),
      (''started_at'', JStr ''2026-01-01T00:00:00Z''),
      (''output_hash'', JStr (replicate 64 (CHR ''0'')))]"

definition sample_task_doc :: doc where
  "sample_task_doc = [(''task_id'', JStr ''t1''), (''agent_id'', JStr ''a1''), (''runtime_id'', JStr ''rt'')]"

definition sample_bundle_doc :: "(string \<Rightarrow> string) \<Rightarrow> doc" where
  "sample_bundle_doc sha =
     [(''task_id'', JStr ''t1''), (''task_contract_hash'', JStr (task_dict_hash sha sample_task_doc)),
      (''receipt_hashes'', JArr [JStr (receipt_hash sha (sample_doc ''r1'' 0))])]"

lemmas sample_doc_simps = sample_doc_def sample_task_doc_def sample_bundle_doc_def get_str_def get_int_def
  get_list_def dict_get_def sorted_receipts_def

lemma sample_doc_admitted:
  "structure_admitted sha sample_task_doc (sample_bundle_doc sha) [sample_doc ''r1'' 0]"
  "integrity_admitted sha (sample_bundle_doc sha) [sample_doc ''r1'' 0] sample_task_doc"
  by (simp_all add: structure_admitted_def integrity_admitted_def Let_def sample_doc_simps is_hex64_def list_all_iff)

definition sample_node :: "string \<Rightarrow> KarmaVerifierNode" where
  "sample_node vid = \<lparr>kn_verifier_id = vid, kn_wallet_address = ''0x1'', kn_verifier_registry_url = [], kn_rpc_url = []\<rparr>"

text \<open>C23. What a quorum on an evidence hash means: two nodes that accept and attest the same evidence
  hash verified the same task contract and the same receipts, up to the order of dict items, if
  SHA-256 does not collide on the texts involved.\<close>

theorem attested_hash_pins_evidence:
  assumes "va_decision (node_verify sha now node task bundle rs cid) = ''STRUCT_OK''"
    and "va_decision (node_verify sha now' node' task' bundle' rs' cid') = ''STRUCT_OK''"
    and "va_evidence_hash (node_verify sha now node task bundle rs cid)
      = va_evidence_hash (node_verify sha now' node' task' bundle' rs' cid')"
    and "inj_on sha (canonical_json_bytes ` ({task, task', bundle, bundle'} \<union> set rs \<union> set rs'))"
  shows "canonical_json_bytes task = canonical_json_bytes task'
    \<and> map canonical_json_bytes (sorted_receipts rs) = map canonical_json_bytes (sorted_receipts rs')"
proof -
  have "evidence_hash sha bundle = evidence_hash sha bundle'"
    using assms(3) by (simp add: node_verify_def Let_def)
  then show ?thesis
    using assms(1,2) unfolding node_ok_iff by (intro evidence_hash_pins [OF _ _ _ assms(4)]) simp_all
qed

theorem attested_hash_pins_evidence_witness:
  "va_decision (node_verify (\<lambda>x. x) [] (sample_node ''v1'') sample_task_doc (sample_bundle_doc (\<lambda>x. x))
     [sample_doc ''r1'' 0] []) = ''STRUCT_OK''
   \<and> map canonical_json_bytes (sorted_receipts [sample_doc ''r1'' 0])
   = map canonical_json_bytes (sorted_receipts [sample_doc ''r1'' 0])"
proof -
  let ?b = "sample_bundle_doc (\<lambda>x. x)" and ?rs = "[sample_doc ''r1'' 0]"
  have ok: "va_decision (node_verify (\<lambda>x. x) [] (sample_node v) sample_task_doc ?b ?rs []) = ''STRUCT_OK''" for v
    using sample_doc_admitted by (simp only: node_ok_iff simp_thms)
  have "va_evidence_hash (node_verify (\<lambda>x. x) [] (sample_node ''v1'') sample_task_doc ?b ?rs [])
    = va_evidence_hash (node_verify (\<lambda>x. x) [] (sample_node ''v2'') sample_task_doc ?b ?rs [])"
    by (simp add: node_verify_def Let_def)
  from attested_hash_pins_evidence [OF ok ok this] ok show ?thesis by simp
qed

end
