(* ===== verification/Attestation_Signer.thy ===== *)
theory Attestation_Signer
  imports Verifier_Rules
begin

text \<open>
  Signing and checking attestations (\<^verbatim>\<open>decentralized_verifier/attestation/signer.py\<close>): the EIP-712
  payload, the digest of the pure-Python fallback and the recovery of an address from a signature.

  The packages \<^verbatim>\<open>eth_account\<close>, \<^verbatim>\<open>Crypto\<close> (Keccak) and \<^verbatim>\<open>ecdsa\<close> are not part of the repository. They
  are the parameters \<open>eth\<close>, \<open>keccak\<close> and \<open>lib\<close>. A function of them that cannot be imported or raises
  returns \<open>None\<close>. The fallback is modelled with \<^verbatim>\<open>Crypto\<close> and \<^verbatim>\<open>ecdsa\<close> installed.
\<close>

section \<open>Bytes\<close>

definition hex_value :: "char \<Rightarrow> nat option" where
  "hex_value c =
     (if c \<in> set ''0123456789'' then Some (code c - 48)
      else if c \<in> set ''abcdef'' then Some (code c - 87)
      else if c \<in> set ''ABCDEF'' then Some (code c - 55) else None)"

text \<open>\<^verbatim>\<open>bytes.fromhex\<close>: ASCII white space is skipped between bytes; \<open>None\<close> is the ValueError.\<close>

definition ascii_space :: "char \<Rightarrow> bool" where
  "ascii_space c \<longleftrightarrow> code c \<in> {9, 10, 11, 12, 13, 32}"

fun fromhex :: "string \<Rightarrow> string option" where
  "fromhex [] = Some []"
| "fromhex [c] = (if ascii_space c then Some [] else None)"
| "fromhex (c # d # cs) =
     (if ascii_space c then fromhex (d # cs)
      else case (hex_value c, hex_value d) of
        (Some a, Some b) \<Rightarrow> map_option (Cons (chr (16 * a + b))) (fromhex cs)
      | _ \<Rightarrow> None)"

text \<open>\<^verbatim>\<open>s.replace("0x", "")\<close>.\<close>

fun remove_0x :: "string \<Rightarrow> string" where
  "remove_0x (c # d # cs) =
     (if c = CHR ''0'' \<and> d = CHR ''x'' then remove_0x cs else c # remove_0x (d # cs))"
| "remove_0x cs = cs"

definition rjust32 :: "string \<Rightarrow> string" where
  "rjust32 b = replicate (32 - length b) (chr 0) @ b"

definition ljust32 :: "string \<Rightarrow> string" where
  "ljust32 b = take 32 (b @ replicate (32 - length b) (chr 0))"

fun be_bytes :: "nat \<Rightarrow> nat \<Rightarrow> string" where
  "be_bytes 0 n = []"
| "be_bytes (Suc k) n = be_bytes k (n div 256) @ [chr (n mod 256)]"

text \<open>\<^verbatim>\<open>int.to_bytes(32, "big")\<close>, which raises OverflowError outside its range, and \<^verbatim>\<open>int.from_bytes\<close>.\<close>

definition to_bytes32_int :: "int \<Rightarrow> string option" where
  "to_bytes32_int i = (if 0 \<le> i \<and> i < 2 ^ 256 then Some (be_bytes 32 (nat i)) else None)"

definition from_bytes :: "string \<Rightarrow> int" where
  "from_bytes b = foldl (\<lambda>acc c. 256 * acc + int (code c)) 0 b"

definition to_bytes32 :: "string \<Rightarrow> string option" where
  "to_bytes32 hex_str =
     (if hex_str = [] then Some (replicate 32 (chr 0))
      else map_option rjust32 (fromhex (remove_0x hex_str)))"

section \<open>The typed payload\<close>

datatype eip_value = VStr string | VBytes string | VInt int

record eip_payload =
  ep_domain :: "(string \<times> eip_value) list"
  ep_primary_type :: string
  ep_types :: "(string \<times> (string \<times> string) list) list"
  ep_message :: "(string \<times> eip_value) list"

definition DOMAIN_NAME :: string where "DOMAIN_NAME = ''KarmaAttestation''"

definition DOMAIN_VERSION :: string where "DOMAIN_VERSION = ''1''"

definition eip_types :: "(string \<times> (string \<times> string) list) list" where
  "eip_types =
     [(''EIP712Domain'', [(''name'', ''string''), (''version'', ''string''), (''chainId'', ''uint256''),
        (''verifyingContract'', ''address'')]),
      (''Attestation'', [(''evidenceHash'', ''bytes32''), (''cid'', ''string''), (''decision'', ''string''),
        (''verifierId'', ''string''), (''chainId'', ''uint256'')])]"

text \<open>The payload cannot be built when the evidence hash is not hexadecimal: \<^verbatim>\<open>_to_bytes32\<close> raises.\<close>

definition build_attestation_eip712_payload :: "VerifierAttestation \<Rightarrow> eip_payload option" where
  "build_attestation_eip712_payload a =
     (let contract_addr = (if va_contract_address a = [] then ''0x'' @ replicate 40 (CHR ''0'')
                           else va_contract_address a)
      in map_option (\<lambda>h.
        \<lparr>ep_domain = [(''name'', VStr DOMAIN_NAME), (''version'', VStr DOMAIN_VERSION),
           (''chainId'', VInt (va_chain_id a)), (''verifyingContract'', VStr contract_addr)],
         ep_primary_type = ''Attestation'',
         ep_types = eip_types,
         ep_message = [(''evidenceHash'', VBytes h), (''cid'', VStr (va_cid a)), (''decision'', VStr (va_decision a)),
           (''verifierId'', VStr (va_verifier_id a)), (''chainId'', VInt (va_chain_id a))]\<rparr>)
        (to_bytes32 (va_evidence_hash a)))"

lemma payload_signature [simp]:
  "build_attestation_eip712_payload (a\<lparr>va_signature := s\<rparr>) = build_attestation_eip712_payload a"
  by (simp add: build_attestation_eip712_payload_def)

lemma payload_relabel:
  "build_attestation_eip712_payload (a\<lparr>va_task_id := t, va_bundle_id := b, va_reason_codes := rs, va_verified_at := w\<rparr>)
   = build_attestation_eip712_payload a"
  by (simp add: build_attestation_eip712_payload_def)

section \<open>The digest of the fallback\<close>

definition field_list :: "(string \<times> string) list \<Rightarrow> string" where
  "field_list fs = ''('' @ join '','' (map (\<lambda>(n, t). t @ '' '' @ n) fs) @ '')''"

text \<open>\<open>None\<close> is the KeyError of a type that is not declared.\<close>

fun referenced :: "(string \<times> (string \<times> string) list) list \<Rightarrow> string list \<Rightarrow> string option" where
  "referenced types [] = Some []"
| "referenced types (tn # tns) =
     (case map_of types tn of None \<Rightarrow> None
      | Some fs \<Rightarrow> map_option (\<lambda>r. tn @ field_list fs @ r) (referenced types tns))"

definition encode_type :: "string \<Rightarrow> (string \<times> (string \<times> string) list) list \<Rightarrow> string option" where
  "encode_type primary types =
     (case map_of types primary of None \<Rightarrow> None
      | Some fs \<Rightarrow>
          let type_names = sort (remdups (primary #
                filter (\<lambda>t. t \<notin> {''string'', ''bytes32'', ''uint256'', ''address''}) (map snd fs)))
          in map_option (\<lambda>r. primary @ field_list fs @ r)
               (referenced types (filter (\<lambda>t. t \<noteq> primary \<and> t \<noteq> ''EIP712Domain'') type_names)))"

text \<open>One field. The payload gives a string field a string, a \<^verbatim>\<open>bytes32\<close> field bytes or a string, a
  \<^verbatim>\<open>uint256\<close> field an integer and an address field a string.\<close>

definition encode_field :: "(string \<Rightarrow> string) \<Rightarrow> string \<Rightarrow> eip_value \<Rightarrow> string option" where
  "encode_field keccak ftype value =
     (if ftype = ''string'' then (case value of VStr s \<Rightarrow> Some (keccak (utf8 s)) | _ \<Rightarrow> None)
      else if ftype = ''bytes32'' then
        (case value of VBytes b \<Rightarrow> Some (ljust32 b)
         | VStr s \<Rightarrow> map_option rjust32 (fromhex (remove_0x s)) | VInt i \<Rightarrow> None)
      else if ftype = ''uint256'' then (case value of VInt i \<Rightarrow> to_bytes32_int i | _ \<Rightarrow> None)
      else if ftype = ''address'' then
        (case value of VStr s \<Rightarrow> map_option rjust32 (fromhex (remove_0x (lower s))) | _ \<Rightarrow> None)
      else Some [])"

fun encode_fields ::
  "(string \<Rightarrow> string) \<Rightarrow> (string \<times> string) list \<Rightarrow> (string \<times> eip_value) list \<Rightarrow> string option" where
  "encode_fields keccak [] data = Some []"
| "encode_fields keccak ((n, t) # fs) data =
     (case map_of data n of None \<Rightarrow> None
      | Some v \<Rightarrow> (case (encode_field keccak t v, encode_fields keccak fs data) of
            (Some b, Some bs) \<Rightarrow> Some (b @ bs) | _ \<Rightarrow> None))"

definition encode_data ::
  "(string \<Rightarrow> string) \<Rightarrow> string \<Rightarrow> (string \<times> (string \<times> string) list) list \<Rightarrow> (string \<times> eip_value) list \<Rightarrow> string option" where
  "encode_data keccak primary types data =
     (case (encode_type primary types, map_of types primary) of
        (Some t, Some fs) \<Rightarrow> map_option (\<lambda>b. keccak (utf8 t) @ b) (encode_fields keccak fs data)
      | _ \<Rightarrow> None)"

definition eip712_struct_hash :: "(string \<Rightarrow> string) \<Rightarrow> eip_payload \<Rightarrow> string option" where
  "eip712_struct_hash keccak payload =
     (case map_of (ep_types payload) ''EIP712Domain'' of None \<Rightarrow> None
      | Some fs \<Rightarrow>
          (case (encode_data keccak ''EIP712Domain'' [(''EIP712Domain'', fs)] (ep_domain payload),
                 encode_data keccak (ep_primary_type payload) (ep_types payload) (ep_message payload)) of
             (Some d, Some m) \<Rightarrow> Some (keccak ([chr 25, chr 1] @ keccak d @ keccak m))
           | _ \<Rightarrow> None))"

section \<open>The curve\<close>

definition SECP256k1_curve_p :: int where
  "SECP256k1_curve_p = 0xFFFFFFFFFFFFFFFFFFFFFFFFFFFFFFFFFFFFFFFFFFFFFFFFFFFFFFFEFFFFFC2F"

definition SECP256k1_curve_a :: int where "SECP256k1_curve_a = 0"

definition SECP256k1_curve_b :: int where "SECP256k1_curve_b = 7"

definition SECP256k1_curve_order :: int where
  "SECP256k1_curve_order = 0xFFFFFFFFFFFFFFFFFFFFFFFFFFFFFFFEBAAEDCE6AF48A03BBFD25E8CD0364141"

definition SECP256k1_generator_x :: int where
  "SECP256k1_generator_x = 0x79BE667EF9DCBBAC55A06295CE870B07029BFCDB2DCE28D959F2815B16CF81798"

definition SECP256k1_generator_y :: int where
  "SECP256k1_generator_y = 0x483ADA7726A3C4655DA4FBFC0E1108A8FD17B448A68554199C47D08FFB10D4B8"

text \<open>What the code uses of the package \<^verbatim>\<open>ecdsa\<close>: \<open>Point(CurveFp(p, a, b), x, y, order)\<close>, the
  arithmetic of points, \<^verbatim>\<open>inverse_mod\<close> and signing a digest with a key, which gives \<open>(r, s)\<close>.\<close>

record 'pt curve_lib =
  cl_point :: "int \<Rightarrow> int \<Rightarrow> int \<Rightarrow> int \<Rightarrow> int \<Rightarrow> int \<Rightarrow> 'pt option"
  cl_mult :: "'pt \<Rightarrow> int \<Rightarrow> 'pt"
  cl_add :: "'pt \<Rightarrow> 'pt \<Rightarrow> 'pt"
  cl_neg :: "'pt \<Rightarrow> 'pt"
  cl_x :: "'pt \<Rightarrow> int option"
  cl_y :: "'pt \<Rightarrow> int option"
  cl_inverse_mod :: "int \<Rightarrow> int \<Rightarrow> int option"
  cl_sign_digest :: "string \<Rightarrow> string \<Rightarrow> (int \<times> int) option"

text \<open>\<^verbatim>\<open>pow(b, e, m)\<close> by repeated squaring.\<close>

fun pow_mod :: "int \<Rightarrow> nat \<Rightarrow> int \<Rightarrow> int" where
  "pow_mod b e m =
     (if e = 0 then 1 mod m
      else let h = pow_mod (b * b mod m) (e div 2) m in if e mod 2 = 0 then h else h * b mod m)"

declare pow_mod.simps [simp del]

definition recover_address_from_signature ::
  "(string \<Rightarrow> string) \<Rightarrow> 'pt curve_lib \<Rightarrow> string \<Rightarrow> int \<Rightarrow> int \<Rightarrow> int \<Rightarrow> string option" where
  "recover_address_from_signature keccak lib digest r s v =
     (let p = SECP256k1_curve_p; n = SECP256k1_curve_order;
          point = cl_point lib p SECP256k1_curve_a SECP256k1_curve_b
      in case point SECP256k1_generator_x SECP256k1_generator_y n of None \<Rightarrow> None
         | Some generator \<Rightarrow>
             let y_sq = (pow_mod r 3 p + 7) mod p;
                 y0 = pow_mod y_sq (nat ((p + 1) div 4)) p;
                 y = (if v mod 2 \<noteq> y0 mod 2 then p - y0 else y0)
             in case (point r y n, cl_inverse_mod lib r n) of
                  (Some R, Some r_inv) \<Rightarrow>
                    let z = from_bytes digest mod n;
                        Q = cl_mult lib (cl_add lib (cl_mult lib R s) (cl_neg lib (cl_mult lib generator z))) r_inv
                    in (case (Option.bind (cl_x lib Q) to_bytes32_int, Option.bind (cl_y lib Q) to_bytes32_int) of
                          (Some bx, Some bq) \<Rightarrow> let d = keccak (bx @ bq) in Some (''0x'' @ hex (drop (length d - 20) d))
                        | _ \<Rightarrow> None)
                | _ \<Rightarrow> None)"

section \<open>Signing and verifying\<close>

record eth_lib =
  el_sign :: "eip_payload \<Rightarrow> string \<Rightarrow> string option"
  el_recover :: "eip_payload \<Rightarrow> string \<Rightarrow> string option"

definition compute_recovery_id ::
  "(string \<Rightarrow> string) \<Rightarrow> 'pt curve_lib \<Rightarrow> string \<Rightarrow> int \<Rightarrow> int \<Rightarrow> string \<Rightarrow> int" where
  "compute_recovery_id keccak lib digest r s expected_wallet =
     (let hit = (\<lambda>v. case recover_address_from_signature keccak lib digest r s v of
                       Some addr \<Rightarrow> lower addr = lower expected_wallet | None \<Rightarrow> False)
      in if hit 27 then 27 else if hit 28 then 28 else 27)"

definition sign_attestation_pure_python ::
  "(string \<Rightarrow> string) \<Rightarrow> 'pt curve_lib \<Rightarrow> VerifierAttestation \<Rightarrow> string \<Rightarrow> eip_payload \<Rightarrow> string option" where
  "sign_attestation_pure_python keccak lib a private_key_hex payload =
     (case (eip712_struct_hash keccak payload, fromhex (remove_0x private_key_hex)) of
        (Some digest, Some key) \<Rightarrow>
          (case cl_sign_digest lib key digest of None \<Rightarrow> None
           | Some (r, s) \<Rightarrow>
               let v = compute_recovery_id keccak lib digest r s (va_verifier_wallet a)
               in (case (to_bytes32_int r, to_bytes32_int s) of
                     (Some br, Some bs) \<Rightarrow> Some (''0x'' @ hex (br @ bs @ [chr (nat v)]))
                   | _ \<Rightarrow> None))
      | _ \<Rightarrow> None)"

definition sign_attestation ::
  "eth_lib \<Rightarrow> (string \<Rightarrow> string) \<Rightarrow> 'pt curve_lib \<Rightarrow> VerifierAttestation \<Rightarrow> string \<Rightarrow> string option" where
  "sign_attestation eth keccak lib a private_key_hex =
     (case build_attestation_eip712_payload a of None \<Rightarrow> None
      | Some payload \<Rightarrow>
          (case el_sign eth payload private_key_hex of
             Some raw_hex \<Rightarrow> Some (if starts_with raw_hex ''0x'' then raw_hex else ''0x'' @ raw_hex)
           | None \<Rightarrow> sign_attestation_pure_python keccak lib a private_key_hex payload))"

definition verify_attestation_pure_python ::
  "(string \<Rightarrow> string) \<Rightarrow> 'pt curve_lib \<Rightarrow> VerifierAttestation \<Rightarrow> eip_payload \<Rightarrow> bool" where
  "verify_attestation_pure_python keccak lib a payload =
     (case (eip712_struct_hash keccak payload, fromhex (remove_0x (va_signature a))) of
        (Some digest, Some sig_bytes) \<Rightarrow>
          length sig_bytes = 65 \<and>
          (case recover_address_from_signature keccak lib digest (from_bytes (take 32 sig_bytes))
                  (from_bytes (take 32 (drop 32 sig_bytes))) (int (code (sig_bytes ! 64))) of
             Some addr \<Rightarrow> lower addr = lower (va_verifier_wallet a)
           | None \<Rightarrow> False)
      | _ \<Rightarrow> False)"

datatype attest_error = EvidenceHashNotHex

definition verify_attestation ::
  "eth_lib \<Rightarrow> (string \<Rightarrow> string) \<Rightarrow> 'pt curve_lib \<Rightarrow> VerifierAttestation \<Rightarrow> attest_error + bool" where
  "verify_attestation eth keccak lib a =
     (if va_signature a = [] \<or> \<not> starts_with (va_signature a) ''0x'' then Inr False
      else case build_attestation_eip712_payload a of None \<Rightarrow> Inl EvidenceHashNotHex
        | Some payload \<Rightarrow>
            (case el_recover eth payload (va_signature a) of
               Some recovered \<Rightarrow> Inr (lower recovered = lower (va_verifier_wallet a))
             | None \<Rightarrow> Inr (verify_attestation_pure_python keccak lib a payload)))"

section \<open>Fixed-width encodings\<close>

lemma from_bytes_append: "from_bytes (xs @ [c]) = 256 * from_bytes xs + int (code c)"
  by (simp add: from_bytes_def)

lemma from_be_bytes: "from_bytes (be_bytes k n) = int (n mod 256 ^ k)"
proof (induction k arbitrary: n)
  case (Suc k)
  have "n mod 256 ^ Suc k = 256 * (n div 256 mod 256 ^ k) + n mod 256"
    by (simp add: mod_mult2_eq)
  with Suc show ?case by (simp add: from_bytes_append)
qed (simp add: from_bytes_def)

lemma length_be_bytes [simp]: "length (be_bytes k n) = k"
  by (induction k arbitrary: n) simp_all

lemma from_to_bytes32_int: "to_bytes32_int i = Some b \<Longrightarrow> from_bytes b = i \<and> length b = 32"
proof -
  assume b: "to_bytes32_int i = Some b"
  then have r: "0 \<le> i" "i < 2 ^ 256" "b = be_bytes 32 (nat i)"
    by (simp_all add: to_bytes32_int_def split: if_splits)
  have "(256::nat) ^ 32 = 2 ^ 256" by simp
  moreover have "nat i < 2 ^ 256" using r by (simp add: nat_less_iff)
  ultimately have "nat i mod 256 ^ 32 = nat i" by simp
  then show ?thesis using r by (simp add: from_be_bytes del: power_numeral)
qed

lemma length_ljust32 [simp]: "length (ljust32 b) = 32"
  by (simp add: ljust32_def)

section \<open>What the digest covers\<close>

definition ATTESTATION_TYPE :: string where
  "ATTESTATION_TYPE =
     ''Attestation(bytes32 evidenceHash,string cid,string decision,string verifierId,uint256 chainId)''"

lemma encode_type_attestation: "encode_type ''Attestation'' eip_types = Some ATTESTATION_TYPE"
  by code_simp

lemma eip_types_attestation:
  "map_of eip_types ''Attestation'' = Some [(''evidenceHash'', ''bytes32''), (''cid'', ''string''), (''decision'', ''string''),
     (''verifierId'', ''string''), (''chainId'', ''uint256'')]"
  by (simp add: eip_types_def)

lemma encode_message:
  "encode_data keccak ''Attestation'' eip_types
     [(''evidenceHash'', VBytes h), (''cid'', VStr c), (''decision'', VStr d), (''verifierId'', VStr v), (''chainId'', VInt i)]
   = map_option (\<lambda>b. keccak (utf8 ATTESTATION_TYPE) @ ljust32 h @ keccak (utf8 c) @ keccak (utf8 d) @ keccak (utf8 v) @ b)
       (to_bytes32_int i)"
  unfolding encode_data_def encode_type_attestation eip_types_attestation
  by (simp add: encode_field_def split: option.split)

text \<open>The two encodings that an attestation's digest is made of, and the texts hashed on the way.\<close>

definition message_bytes :: "(string \<Rightarrow> string) \<Rightarrow> eip_payload \<Rightarrow> string option" where
  "message_bytes keccak p = encode_data keccak (ep_primary_type p) (ep_types p) (ep_message p)"

definition domain_bytes :: "(string \<Rightarrow> string) \<Rightarrow> eip_payload \<Rightarrow> string option" where
  "domain_bytes keccak p =
     Option.bind (map_of (ep_types p) ''EIP712Domain'')
       (\<lambda>fs. encode_data keccak ''EIP712Domain'' [(''EIP712Domain'', fs)] (ep_domain p))"

definition final_text :: "(string \<Rightarrow> string) \<Rightarrow> string \<Rightarrow> string \<Rightarrow> string" where
  "final_text keccak d m = [chr 25, chr 1] @ keccak d @ keccak m"

definition hashed_texts :: "(string \<Rightarrow> string) \<Rightarrow> VerifierAttestation \<Rightarrow> string list" where
  "hashed_texts keccak a =
     (case build_attestation_eip712_payload a of None \<Rightarrow> []
      | Some p \<Rightarrow> (case (domain_bytes keccak p, message_bytes keccak p) of
            (Some d, Some m) \<Rightarrow> [m, final_text keccak d m] | _ \<Rightarrow> []))
     @ [utf8 (va_cid a), utf8 (va_decision a), utf8 (va_verifier_id a)]"

lemma hashed_texts_signature [simp]: "hashed_texts keccak (a\<lparr>va_signature := s\<rparr>) = hashed_texts keccak a"
  by (simp add: hashed_texts_def)

lemma struct_hash_parts:
  "eip712_struct_hash keccak p = Some x \<longleftrightarrow>
   (\<exists>d m. domain_bytes keccak p = Some d \<and> message_bytes keccak p = Some m \<and> x = keccak (final_text keccak d m))"
  by (auto simp: eip712_struct_hash_def domain_bytes_def message_bytes_def final_text_def split: option.splits)

lemma payload_message:
  assumes "build_attestation_eip712_payload a = Some p" "message_bytes keccak p = Some m"
  obtains h i where "to_bytes32 (va_evidence_hash a) = Some h" "to_bytes32_int (va_chain_id a) = Some i"
    and "m = keccak (utf8 ATTESTATION_TYPE) @ ljust32 h @ keccak (utf8 (va_cid a)) @ keccak (utf8 (va_decision a))
      @ keccak (utf8 (va_verifier_id a)) @ i"
  using assms by (auto simp: build_attestation_eip712_payload_def message_bytes_def Let_def encode_message)

lemma message_inject:
  assumes "keccak t @ ljust32 h @ keccak c @ keccak d @ keccak v @ i
      = keccak t @ ljust32 h' @ keccak c' @ keccak d' @ keccak v' @ i'"
    and "\<And>x. length (keccak x) = 32"
  shows "ljust32 h = ljust32 h' \<and> keccak c = keccak c' \<and> keccak d = keccak d' \<and> keccak v = keccak v' \<and> i = i'"
  using assms by simp

lemma digest_binds:
  assumes a: "build_attestation_eip712_payload a = Some p" "eip712_struct_hash keccak p = Some x"
    and b: "build_attestation_eip712_payload b = Some q" "eip712_struct_hash keccak q = Some x"
    and len: "\<And>t. length (keccak t) = 32"
    and inj: "inj_on keccak (set (hashed_texts keccak a) \<union> set (hashed_texts keccak b))"
  shows "va_cid a = va_cid b \<and> va_decision a = va_decision b \<and> va_verifier_id a = va_verifier_id b
    \<and> va_chain_id a = va_chain_id b
    \<and> map_option ljust32 (to_bytes32 (va_evidence_hash a)) = map_option ljust32 (to_bytes32 (va_evidence_hash b))"
proof -
  obtain d m where dm: "domain_bytes keccak p = Some d" "message_bytes keccak p = Some m" "x = keccak (final_text keccak d m)"
    using a(2) unfolding struct_hash_parts by blast
  obtain d' m' where dm': "domain_bytes keccak q = Some d'" "message_bytes keccak q = Some m'" "x = keccak (final_text keccak d' m')"
    using b(2) unfolding struct_hash_parts by blast
  have texts: "set (hashed_texts keccak a) = {m, final_text keccak d m, utf8 (va_cid a), utf8 (va_decision a), utf8 (va_verifier_id a)}"
    "set (hashed_texts keccak b) = {m', final_text keccak d' m', utf8 (va_cid b), utf8 (va_decision b), utf8 (va_verifier_id b)}"
    by (simp_all add: hashed_texts_def a(1) b(1) dm(1,2) dm'(1,2))
  have same: "t = u" if "keccak t = keccak u" "t \<in> set (hashed_texts keccak a)" "u \<in> set (hashed_texts keccak b)" for t u
    by (rule inj_onD [OF inj that(1) UnI1 [OF that(2)] UnI2 [OF that(3)]])
  have "final_text keccak d m = final_text keccak d' m'"
    by (rule same [OF trans [OF dm(3) [symmetric] dm'(3)]]) (simp_all add: texts)
  then have "keccak m = keccak m'" using len by (simp add: final_text_def)
  then have mm: "m = m'" by (rule same) (simp_all add: texts)
  obtain h i where h: "to_bytes32 (va_evidence_hash a) = Some h" "to_bytes32_int (va_chain_id a) = Some i"
    "m = keccak (utf8 ATTESTATION_TYPE) @ ljust32 h @ keccak (utf8 (va_cid a)) @ keccak (utf8 (va_decision a))
      @ keccak (utf8 (va_verifier_id a)) @ i" by (rule payload_message [OF a(1) dm(2)])
  obtain h' i' where h': "to_bytes32 (va_evidence_hash b) = Some h'" "to_bytes32_int (va_chain_id b) = Some i'"
    "m' = keccak (utf8 ATTESTATION_TYPE) @ ljust32 h' @ keccak (utf8 (va_cid b)) @ keccak (utf8 (va_decision b))
      @ keccak (utf8 (va_verifier_id b)) @ i'" by (rule payload_message [OF b(1) dm'(2)])
  have parts: "ljust32 h = ljust32 h' \<and> keccak (utf8 (va_cid a)) = keccak (utf8 (va_cid b))
    \<and> keccak (utf8 (va_decision a)) = keccak (utf8 (va_decision b))
    \<and> keccak (utf8 (va_verifier_id a)) = keccak (utf8 (va_verifier_id b)) \<and> i = i'"
    by (rule message_inject [where keccak = keccak, OF mm [unfolded h(3) h'(3)] len])
  have "utf8 (va_cid a) = utf8 (va_cid b)" by (rule same) (simp_all add: texts parts)
  moreover have "utf8 (va_decision a) = utf8 (va_decision b)" by (rule same) (simp_all add: texts parts)
  moreover have "utf8 (va_verifier_id a) = utf8 (va_verifier_id b)" by (rule same) (simp_all add: texts parts)
  moreover have "va_chain_id a = va_chain_id b"
    using from_to_bytes32_int [OF h(2)] from_to_bytes32_int [OF h'(2)] parts by simp
  ultimately show ?thesis using parts h(1) h'(1) by simp
qed

section \<open>The constants of the fallback\<close>

text \<open>What the package documents of \<open>Point\<close>: a point that is not on the curve is refused.\<close>

definition checks_points :: "'pt curve_lib \<Rightarrow> bool" where
  "checks_points lib \<longleftrightarrow>
     (\<forall>p a b x y n. (y * y - (x * x * x + a * x + b)) mod p \<noteq> 0 \<longrightarrow> cl_point lib p a b x y n = None)"

lemma generator_off_curve:
  "(SECP256k1_generator_y * SECP256k1_generator_y
    - (SECP256k1_generator_x * SECP256k1_generator_x * SECP256k1_generator_x
       + SECP256k1_curve_a * SECP256k1_generator_x + SECP256k1_curve_b)) mod SECP256k1_curve_p \<noteq> 0"
  by (simp add: SECP256k1_generator_x_def SECP256k1_generator_y_def SECP256k1_curve_a_def SECP256k1_curve_b_def
      SECP256k1_curve_p_def)

lemma no_recovery: "checks_points lib \<Longrightarrow> recover_address_from_signature keccak lib digest r s v = None"
  using generator_off_curve by (simp add: recover_address_from_signature_def checks_points_def Let_def)

section \<open>Signing\<close>

text \<open>A signature does not cover the task or the bundle: a verified attestation stays verified when
  it is relabelled to another task, bundle, reason list or time.\<close>

lemma attestation_not_bound_to_task:
  "verify_attestation eth keccak lib
     (a\<lparr>va_task_id := t, va_bundle_id := b, va_reason_codes := rs, va_verified_at := w\<rparr>)
   = verify_attestation eth keccak lib a"
  by (simp add: verify_attestation_def verify_attestation_pure_python_def payload_relabel cong: option.case_cong)

text \<open>Parsing undoes printing in hexadecimal, and a printed text never contains \<^verbatim>\<open>0x\<close>.\<close>

lemma hex_digits:
  "list_all (\<lambda>n. hex_value (hex_digit n) = Some n \<and> \<not> ascii_space (hex_digit n) \<and> hex_digit n \<noteq> CHR ''x'') [0..<16]"
  by code_simp

lemma hex_value_hex_digit:
  assumes "n < 16"
  shows "hex_value (hex_digit n) = Some n \<and> \<not> ascii_space (hex_digit n) \<and> hex_digit n \<noteq> CHR ''x''"
proof -
  have "n \<in> set [0..<16]" using assms by (simp only: set_upt atLeastLessThan_iff le0 simp_thms)
  with hex_digits [unfolded list_all_iff] show ?thesis by (rule bspec)
qed

lemma fromhex_hex: "fromhex (hex s) = Some s"
proof (induction s)
  case (Cons c s)
  have "code c div 16 < 16" using code_less [of c] by (intro less_mult_imp_div_less) simp
  moreover have "code c mod 16 < 16" by simp
  ultimately have d: "hex_value (hex_digit (code c div 16)) = Some (code c div 16)"
    "hex_value (hex_digit (code c mod 16)) = Some (code c mod 16)" "\<not> ascii_space (hex_digit (code c div 16))"
    by (simp_all only: hex_value_hex_digit simp_thms)
  have "chr (16 * (code c div 16) + code c mod 16) = c" by (simp add: chr_code)
  with Cons d show ?case by (simp add: hex_def hex_byte_def)
qed (simp add: hex_def)

lemma remove_0x_none: "CHR ''x'' \<notin> set s \<Longrightarrow> remove_0x s = s"
  by (induction s rule: remove_0x.induct) auto

lemma hex_no_x: "CHR ''x'' \<notin> set (hex s)"
proof (induction s)
  case (Cons c s)
  have "code c div 16 < 16" using code_less [of c] by (intro less_mult_imp_div_less) simp
  moreover have "code c mod 16 < 16" by simp
  ultimately have "hex_digit (code c div 16) \<noteq> CHR ''x''" "hex_digit (code c mod 16) \<noteq> CHR ''x''"
    by (simp_all only: hex_value_hex_digit simp_thms)
  with Cons show ?case by (simp add: hex_def hex_byte_def eq_commute)
qed (simp add: hex_def)

lemma to_bytes32_hex:
  assumes "s \<noteq> []"
  shows "to_bytes32 (hex s) = Some (rjust32 s)"
proof -
  have "hex s \<noteq> []" using length_hex [of s] assms by (metis length_0_conv mult_is_0 zero_neq_numeral)
  then show ?thesis by (simp add: to_bytes32_def remove_0x_none [OF hex_no_x] fromhex_hex)
qed

text \<open>What \<^verbatim>\<open>eth_account\<close> documents: recovery from a signature returns the address of the signing key.\<close>

definition recovers_signer :: "eth_lib \<Rightarrow> (string \<Rightarrow> string) \<Rightarrow> bool" where
  "recovers_signer eth address \<longleftrightarrow>
     (\<forall>p k raw. el_sign eth p k = Some raw \<longrightarrow>
        el_recover eth p (if starts_with raw ''0x'' then raw else ''0x'' @ raw) = Some (address k))"

lemma signed_verifies:
  assumes "recovers_signer eth address" "\<forall>p. el_sign eth p key \<noteq> None"
    and "lower (va_verifier_wallet a) = lower (address key)"
    and "sign_attestation eth keccak lib a key = Some signature"
  shows "verify_attestation eth keccak lib (a\<lparr>va_signature := signature\<rparr>) = Inr True"
proof -
  obtain p where p: "build_attestation_eip712_payload a = Some p"
    using assms(4) by (auto simp: sign_attestation_def split: option.splits)
  obtain raw where raw: "el_sign eth p key = Some raw" using assms(2) by fastforce
  then have s: "signature = (if starts_with raw ''0x'' then raw else ''0x'' @ raw)"
    using assms(4) p by (simp add: sign_attestation_def)
  have "build_attestation_eip712_payload (a\<lparr>va_signature := signature\<rparr>) = Some p"
    using p by simp
  moreover have "el_recover eth p signature = Some (address key)" using assms(1) raw s by (simp add: recovers_signer_def)
  moreover have "signature \<noteq> []" "starts_with signature ''0x''" using s by (auto simp: starts_with_iff)
  ultimately show ?thesis using assms(3) by (simp add: verify_attestation_def)
qed

section \<open>Properties\<close>


definition sample_attestation :: VerifierAttestation where
  "sample_attestation =
     \<lparr>va_attestation_version = ''karma-attestation-v1'', va_task_id = ''t1'', va_bundle_id = ''b1'',
      va_evidence_hash = ''00ff'', va_cid = ''c'', va_verifier_id = ''v1'', va_verifier_wallet = ''0xab'',
      va_decision = ''STRUCT_OK'', va_reason_codes = [], va_verified_at = [], va_chain_id = 1,
      va_contract_address = [], va_signature = []\<rparr>"

text \<open>An \<^verbatim>\<open>eth_account\<close> whose signatures name the signer, and a curve library that checks points.\<close>

definition sample_eth :: eth_lib where
  "sample_eth = \<lparr>el_sign = (\<lambda>p k. Some (''0x'' @ k)), el_recover = (\<lambda>p s. Some s)\<rparr>"

definition sample_lib :: "(int \<times> int) curve_lib" where
  "sample_lib =
     \<lparr>cl_point = (\<lambda>p a b x y n. if (y * y - (x * x * x + a * x + b)) mod p = 0 then Some (x, y) else None),
      cl_mult = (\<lambda>q k. q), cl_add = (\<lambda>q r. q), cl_neg = (\<lambda>q. q), cl_x = Some \<circ> fst, cl_y = Some \<circ> snd,
      cl_inverse_mod = (\<lambda>r n. Some r), cl_sign_digest = (\<lambda>k d. None)\<rparr>"

lemma sample_payload: "\<exists>p. build_attestation_eip712_payload sample_attestation = Some p"
  by (simp add: build_attestation_eip712_payload_def sample_attestation_def to_bytes32_def hex_value_def ascii_space_def)



definition sample_keccak :: "string \<Rightarrow> string" where
  "sample_keccak x = take 32 (x @ replicate 32 (CHR ''0''))"


text \<open>Without \<^verbatim>\<open>eth_account\<close> no attestation verifies. The generator that the fallback builds is not on
  the curve, because its x coordinate has one digit too many, so building it fails for a library that
  checks points, and every failure counts as an invalid signature.\<close>

lemma fallback_never_verifies:
  assumes "checks_points lib" and "\<And>p s. el_recover eth p s = None"
  shows "verify_attestation eth keccak lib a \<noteq> Inr True"
  using assms no_recovery [OF assms(1)]
  by (auto simp: verify_attestation_def verify_attestation_pure_python_def split: option.splits)

end
