(* ===== verification/Attestation_Quorum.thy ===== *)
theory Attestation_Quorum
  imports Complex_Main Attestation_Signer
begin

text \<open>
  The N-of-M aggregator of attestations (\<^verbatim>\<open>decentralized_verifier/attestation/aggregator.py\<close>) with the
  registry entries and the quorum record. \<open>verify\<close> is the signature check the module imports from the
  signer; the properties are stated for the signer's own check where they depend on it.
\<close>

section \<open>Data\<close>

datatype QuorumStatus = COLLECTING | ATTESTED_OK | ATTESTED_FAIL | INSUFFICIENT_SIGNATURES

record AttestationQuorum =
  aq_quorum_id :: string
  aq_task_id :: string
  aq_evidence_hash :: string
  aq_threshold :: int
  aq_total_verifiers :: int
  aq_valid_signatures :: nat
  aq_decision :: string
  aq_attestation_ids :: "string list"
  aq_verifier_ids :: "string list"
  aq_status :: QuorumStatus
  aq_created_at :: string

datatype VerifierStatus = ACTIVE | SUSPENDED | SLASHED | VERIFIER_PENDING

record VerifierNodeInfo =
  vi_verifier_id :: string
  vi_wallet_address :: string
  vi_public_key :: string
  vi_endpoint_url :: string
  vi_status :: VerifierStatus
  vi_stake_amount :: int
  vi_reputation_score :: rat
  vi_success_count :: int
  vi_false_attestation_count :: int
  vi_slashed_count :: int
  vi_joined_at :: string
  vi_created_at :: string

record AttestationAggregator =
  ag_threshold :: int
  ag_total_verifiers :: int
  ag_verifier_registry :: "(string \<times> VerifierNodeInfo) list"

datatype aggregator_error = ThresholdTooSmall | TooFewVerifiers

definition make_aggregator ::
  "int \<Rightarrow> int \<Rightarrow> (string \<times> VerifierNodeInfo) list option \<Rightarrow> aggregator_error + AttestationAggregator" where
  "make_aggregator threshold total_verifiers registry =
     (if threshold < 1 then Inl ThresholdTooSmall
      else if total_verifiers < threshold then Inl TooFewVerifiers
      else Inr \<lparr>ag_threshold = threshold, ag_total_verifiers = total_verifiers,
                ag_verifier_registry = (case registry of None \<Rightarrow> [] | Some r \<Rightarrow> r)\<rparr>)"

section \<open>Aggregation\<close>

definition compute_verdict :: "VerifierAttestation list \<Rightarrow> string" where
  "compute_verdict valid_attestations =
     (if valid_attestations = [] then ''ATTESTED_FAIL''
      else
        let ok_count = length (filter (\<lambda>a. va_decision a = ''STRUCT_OK'') valid_attestations);
            fail_count = length valid_attestations - ok_count
        in if fail_count \<le> ok_count then ''ATTESTED_OK'' else ''ATTESTED_FAIL'')"

definition empty_quorum :: "string \<Rightarrow> string \<Rightarrow> AttestationAggregator \<Rightarrow> AttestationQuorum" where
  "empty_quorum uuid now agg =
     \<lparr>aq_quorum_id = uuid, aq_task_id = [], aq_evidence_hash = [], aq_threshold = ag_threshold agg,
      aq_total_verifiers = ag_total_verifiers agg, aq_valid_signatures = 0, aq_decision = ''ATTESTED_FAIL'',
      aq_attestation_ids = [], aq_verifier_ids = [], aq_status = INSUFFICIENT_SIGNATURES, aq_created_at = now\<rparr>"

fun deduplicate :: "string set \<Rightarrow> VerifierAttestation list \<Rightarrow> VerifierAttestation list" where
  "deduplicate seen_ids [] = []"
| "deduplicate seen_ids (a # as) =
     (if va_verifier_id a \<notin> seen_ids then a # deduplicate (insert (va_verifier_id a) seen_ids) as
      else deduplicate seen_ids as)"

definition registered :: "AttestationAggregator \<Rightarrow> VerifierAttestation \<Rightarrow> bool" where
  "registered agg a \<longleftrightarrow>
     (case map_of (ag_verifier_registry agg) (va_verifier_id a) of
        Some info \<Rightarrow> vi_status info = ACTIVE | None \<Rightarrow> False)"

fun valid_only ::
  "(VerifierAttestation \<Rightarrow> attest_error + bool) \<Rightarrow> VerifierAttestation list \<Rightarrow> attest_error + VerifierAttestation list" where
  "valid_only verify [] = Inr []"
| "valid_only verify (a # as) =
     (case verify a of Inl e \<Rightarrow> Inl e
      | Inr ok \<Rightarrow> (case valid_only verify as of Inl e \<Rightarrow> Inl e
          | Inr vs \<Rightarrow> Inr (if ok then a # vs else vs)))"

text \<open>Steps 1 and 2: without repeated and, if there is a registry, without unregistered verifiers.\<close>

definition eligible :: "AttestationAggregator \<Rightarrow> VerifierAttestation list \<Rightarrow> VerifierAttestation list" where
  "eligible agg attestations =
     (let deduped = deduplicate {} attestations
      in if ag_verifier_registry agg \<noteq> [] then filter (registered agg) deduped else deduped)"

text \<open>Step 6.\<close>

definition quorum_of ::
  "string \<Rightarrow> string \<Rightarrow> AttestationAggregator \<Rightarrow> string \<Rightarrow> VerifierAttestation list \<Rightarrow> AttestationQuorum" where
  "quorum_of uuid now agg canonical_hash valid =
     \<lparr>aq_quorum_id = uuid, aq_task_id = (if valid \<noteq> [] then va_task_id (hd valid) else []),
      aq_evidence_hash = canonical_hash, aq_threshold = ag_threshold agg,
      aq_total_verifiers = ag_total_verifiers agg,
      aq_valid_signatures = length valid, aq_decision = compute_verdict valid,
      aq_attestation_ids = map va_verifier_id valid, aq_verifier_ids = map va_verifier_id valid,
      aq_status = (if ag_threshold agg \<le> int (length valid) then ATTESTED_OK else INSUFFICIENT_SIGNATURES),
      aq_created_at = now\<rparr>"

definition collect ::
  "(VerifierAttestation \<Rightarrow> attest_error + bool) \<Rightarrow> string \<Rightarrow> string \<Rightarrow> AttestationAggregator
   \<Rightarrow> VerifierAttestation list \<Rightarrow> attest_error + AttestationQuorum" where
  "collect verify uuid now agg attestations =
     (let deduped = eligible agg attestations in
      if attestations = [] \<or> deduped = [] then Inr (empty_quorum uuid now agg)
      else
        let canonical_hash = va_evidence_hash (hd deduped);
            consistent = filter (\<lambda>a. va_evidence_hash a = canonical_hash) deduped
        in if consistent = [] then Inr (empty_quorum uuid now agg)
           else case valid_only verify consistent of Inl e \<Rightarrow> Inl e
             | Inr valid \<Rightarrow> Inr (quorum_of uuid now agg canonical_hash valid))"

definition is_quorum_reached :: "AttestationQuorum \<Rightarrow> bool" where
  "is_quorum_reached quorum \<longleftrightarrow> aq_status quorum = ATTESTED_OK"

definition get_verdict :: "AttestationQuorum \<Rightarrow> string" where
  "get_verdict quorum = (if \<not> is_quorum_reached quorum then ''insufficient'' else aq_decision quorum)"

section \<open>The steps of the aggregation\<close>

lemma deduplicate_subset: "set (deduplicate seen as) \<subseteq> set as"
  by (induction seen as rule: deduplicate.induct) auto

lemma deduplicate_unseen: "va_verifier_id ` set (deduplicate seen as) \<inter> seen = {}"
  by (induction seen as rule: deduplicate.induct) auto

lemma deduplicate_distinct: "distinct (map va_verifier_id (deduplicate seen as))"
proof (induction seen as rule: deduplicate.induct)
  case (2 seen a as)
  show ?case using 2 deduplicate_unseen [of "insert (va_verifier_id a) seen" as] by auto
qed simp

lemma deduplicate_id:
  "distinct (map va_verifier_id as) \<Longrightarrow> va_verifier_id ` set as \<inter> seen = {} \<Longrightarrow> deduplicate seen as = as"
  by (induction seen as rule: deduplicate.induct) auto

lemma valid_only_filter: "valid_only verify as = Inr vs \<Longrightarrow> vs = filter (\<lambda>a. verify a = Inr True) as"
  by (induction as arbitrary: vs) (auto split: sum.splits)

lemma valid_only_all: "(\<And>a. a \<in> set as \<Longrightarrow> verify a = Inr True) \<Longrightarrow> valid_only verify as = Inr as"
  by (induction as) simp_all

text \<open>The attestations that reach the signature check.\<close>

definition candidates :: "AttestationAggregator \<Rightarrow> VerifierAttestation list \<Rightarrow> VerifierAttestation list" where
  "candidates agg as = filter (\<lambda>a. va_evidence_hash a = va_evidence_hash (hd (eligible agg as))) (eligible agg as)"

lemma candidates_Nil [simp]: "candidates agg as = [] \<longleftrightarrow> eligible agg as = []"
  by (cases "eligible agg as") (simp_all add: candidates_def)

lemma candidates_hd: "eligible agg as \<noteq> [] \<Longrightarrow> hd (candidates agg as) = hd (eligible agg as)"
  by (cases "eligible agg as") (simp_all add: candidates_def)

lemma eligible_Nil [simp]: "eligible agg [] = []"
  by (simp add: eligible_def)

lemma collect_candidates:
  "collect verify uuid now agg as =
     (if eligible agg as = [] then Inr (empty_quorum uuid now agg)
      else case valid_only verify (candidates agg as) of Inl e \<Rightarrow> Inl e
        | Inr valid \<Rightarrow> Inr (quorum_of uuid now agg (va_evidence_hash (hd (eligible agg as))) valid))"
proof (cases "eligible agg as = []")
  case False
  then have "as \<noteq> []" "candidates agg as \<noteq> []" by auto
  with False show ?thesis by (simp add: collect_def Let_def flip: candidates_def)
qed (simp add: collect_def)

lemma eligibleD:
  assumes "a \<in> set (eligible agg as)"
  shows "a \<in> set as" "ag_verifier_registry agg \<noteq> [] \<Longrightarrow> registered agg a"
  using assms deduplicate_subset [of "{}" as] by (auto simp: eligible_def Let_def split: if_splits)

lemma eligible_distinct: "distinct (map va_verifier_id (eligible agg as))"
  using deduplicate_distinct [of "{}" as] by (auto simp: eligible_def Let_def distinct_map inj_on_def)

lemma candidatesD:
  assumes "a \<in> set (candidates agg as)"
  shows "a \<in> set (eligible agg as)" "va_evidence_hash a = va_evidence_hash (hd (eligible agg as))"
  using assms by (simp_all add: candidates_def)

lemma candidates_distinct: "distinct (map va_verifier_id (candidates agg as))"
  using eligible_distinct [of agg as] by (auto simp: candidates_def distinct_map inj_on_def)

lemma distinct_filter_map: "distinct (map f xs) \<Longrightarrow> distinct (map f (filter P xs))"
  by (auto simp: distinct_map inj_on_def)

text \<open>What the valid attestations of a quorum satisfy.\<close>

definition counted ::
  "(VerifierAttestation \<Rightarrow> attest_error + bool) \<Rightarrow> AttestationAggregator \<Rightarrow> VerifierAttestation list
   \<Rightarrow> string \<Rightarrow> VerifierAttestation \<Rightarrow> bool" where
  "counted verify agg as h a \<longleftrightarrow>
     a \<in> set as \<and> verify a = Inr True \<and> va_evidence_hash a = h
     \<and> (ag_verifier_registry agg \<noteq> [] \<longrightarrow> registered agg a)"

lemma collect_sound:
  assumes "make_aggregator n m reg = Inr agg" "collect verify uuid now agg as = Inr q"
  shows "\<exists>vs. distinct (map va_verifier_id vs) \<and> list_all (counted verify agg as (aq_evidence_hash q)) vs
    \<and> aq_verifier_ids q = map va_verifier_id vs \<and> aq_valid_signatures q = length vs
    \<and> (aq_status q = ATTESTED_OK \<longleftrightarrow> n \<le> int (length vs))
    \<and> aq_decision q = compute_verdict vs"
proof (cases "eligible agg as = []")
  case True
  then have "q = empty_quorum uuid now agg" using assms(2) by (simp add: collect_candidates)
  then show ?thesis using assms(1)
    by (intro exI [of _ "[]"])
      (simp add: empty_quorum_def compute_verdict_def make_aggregator_def split: if_splits)
next
  case False
  let ?h = "va_evidence_hash (hd (eligible agg as))"
  from False assms(2) obtain vs where vs: "valid_only verify (candidates agg as) = Inr vs"
    "q = quorum_of uuid now agg ?h vs"
    by (auto simp: collect_candidates split: sum.splits)
  have v: "vs = filter (\<lambda>a. verify a = Inr True) (candidates agg as)" by (rule valid_only_filter [OF vs(1)])
  have "distinct (map va_verifier_id vs)" unfolding v by (rule distinct_filter_map [OF candidates_distinct])
  moreover have "counted verify agg as ?h a" if "a \<in> set vs" for a
  proof -
    have "verify a = Inr True" "a \<in> set (candidates agg as)" using that unfolding v by simp_all
    with candidatesD [OF this(2)] eligibleD [of a agg as] show ?thesis by (simp add: counted_def)
  qed
  moreover have "ag_threshold agg = n" using assms(1) by (auto simp: make_aggregator_def split: if_splits)
  ultimately show ?thesis
    by (intro exI [of _ vs]) (simp add: vs(2) quorum_of_def list_all_iff)
qed

lemma collect_complete:
  assumes "make_aggregator n m reg = Inr agg" "n \<le> int (length as)"
    and "distinct (map va_verifier_id as)"
    and "\<And>a. a \<in> set as \<Longrightarrow> counted verify agg as h a"
  shows "collect verify uuid now agg as = Inr (quorum_of uuid now agg h as)"
proof -
  have "0 < length as" using assms(1,2) by (auto simp: make_aggregator_def split: if_splits)
  then have ne: "as \<noteq> []" by auto
  have "deduplicate {} as = as" by (rule deduplicate_id [OF assms(3)]) simp
  moreover have "filter (registered agg) as = as" if "ag_verifier_registry agg \<noteq> []"
    using assms(4) that by (intro filter_True) (simp add: counted_def)
  ultimately have e: "eligible agg as = as" by (simp add: eligible_def)
  have h: "va_evidence_hash a = h" if "a \<in> set as" for a using assms(4) [OF that] by (simp add: counted_def)
  have c: "candidates agg as = as" unfolding candidates_def e
    using h ne by (intro filter_True) simp
  have "valid_only verify as = Inr as" using assms(4) by (intro valid_only_all) (simp add: counted_def)
  with e c ne h show ?thesis by (simp add: collect_candidates)
qed

section \<open>Attestations of honest nodes\<close>

definition signed_by ::
  "eth_lib \<Rightarrow> (string \<Rightarrow> string) \<Rightarrow> 'pt curve_lib \<Rightarrow> string \<Rightarrow> VerifierAttestation \<Rightarrow> VerifierAttestation" where
  "signed_by eth keccak lib key a = a\<lparr>va_signature := the (sign_attestation eth keccak lib a key)\<rparr>"

lemma node_signature_verifies:
  assumes "recovers_signer eth address" "\<forall>p k. el_sign eth p k \<noteq> None" "\<forall>x. sha x \<noteq> []"
    and "lower (kn_wallet_address nd) = lower (address key)"
  shows "verify_attestation eth keccak lib
      (signed_by eth keccak lib key (node_verify sha now nd task bundle rs cid)) = Inr True"
proof -
  let ?a = "node_verify sha now nd task bundle rs cid"
  have "va_evidence_hash ?a = hex (sha (canonical_json_bytes bundle))"
    by (simp add: node_verify_def Let_def evidence_hash_def sha256_hex_def)
  then have "to_bytes32 (va_evidence_hash ?a) \<noteq> None" using to_bytes32_hex assms(3) by simp
  then obtain p where p: "build_attestation_eip712_payload ?a = Some p"
    by (auto simp: build_attestation_eip712_payload_def Let_def)
  obtain raw where "el_sign eth p key = Some raw" using assms(2) by fastforce
  with p obtain signature where s: "sign_attestation eth keccak lib ?a key = Some signature"
    by (simp add: sign_attestation_def)
  have "va_verifier_wallet ?a = kn_wallet_address nd" by (simp add: node_verify_def Let_def)
  with signed_verifies [OF assms(1) _ _ s] assms(2,4) s show ?thesis by (simp add: signed_by_def)
qed

lemma compute_verdict_uniform:
  assumes "vs \<noteq> []" "\<And>a. a \<in> set vs \<Longrightarrow> va_decision a = d"
  shows "compute_verdict vs = (if d = ''STRUCT_OK'' then ''ATTESTED_OK'' else ''ATTESTED_FAIL'')"
proof -
  have "filter (\<lambda>a. va_decision a = ''STRUCT_OK'') vs = (if d = ''STRUCT_OK'' then vs else [])"
    using assms(2) by (auto simp: filter_empty_conv)
  then show ?thesis using assms(1) by (auto simp: compute_verdict_def Let_def)
qed

lemma honest_quorum:
  assumes "make_aggregator n m None = Inr agg" "n \<le> int (length nodes)"
    and "distinct (map kn_verifier_id nodes)"
    and "recovers_signer eth address" "\<forall>p k. el_sign eth p k \<noteq> None" "\<forall>x. sha x \<noteq> []"
    and "\<forall>nd \<in> set nodes. lower (kn_wallet_address nd) = lower (address (key nd))"
  shows "\<exists>q. collect (verify_attestation eth keccak lib) uuid now agg
        (map (\<lambda>nd. signed_by eth keccak lib (key nd) (node_verify sha now nd task bundle receipts cid)) nodes) = Inr q
    \<and> aq_evidence_hash q = evidence_hash sha bundle
    \<and> get_verdict q = (if structure_admitted sha task bundle receipts \<and> integrity_admitted sha bundle receipts task
        then ''ATTESTED_OK'' else ''ATTESTED_FAIL'')"
proof -
  let ?att = "\<lambda>nd. signed_by eth keccak lib (key nd) (node_verify sha now nd task bundle receipts cid)"
  let ?as = "map ?att nodes" and ?v = "verify_attestation eth keccak lib"
  have reg: "ag_verifier_registry agg = []" "ag_threshold agg = n" "1 \<le> n"
    using assms(1) by (auto simp: make_aggregator_def split: if_splits)
  have ok: "?v (?att nd) = Inr True" if "nd \<in> set nodes" for nd
    using node_signature_verifies [OF assms(4-6)] assms(7) that by blast
  have h: "va_evidence_hash (?att nd) = evidence_hash sha bundle"
    and ids: "va_verifier_id (?att nd) = kn_verifier_id nd" for nd
    by (simp_all add: signed_by_def node_verify_def Let_def)
  have c: "collect ?v uuid now agg ?as = Inr (quorum_of uuid now agg (evidence_hash sha bundle) ?as)"
  proof (rule collect_complete [OF assms(1)])
    show "n \<le> int (length ?as)" using assms(2) by simp
    show "distinct (map va_verifier_id ?as)" using assms(3) by (simp add: ids o_def)
    show "counted ?v agg ?as (evidence_hash sha bundle) a" if "a \<in> set ?as" for a
      using that ok h reg by (auto simp: counted_def)
  qed
  have "compute_verdict ?as = (if structure_admitted sha task bundle receipts \<and> integrity_admitted sha bundle receipts task
      then ''ATTESTED_OK'' else ''ATTESTED_FAIL'')"
  proof -
    have ne: "?as \<noteq> []" using assms(2) reg by auto
    have d: "va_decision a = (if structure_admitted sha task bundle receipts \<and> integrity_admitted sha bundle receipts task
        then ''STRUCT_OK'' else ''STRUCT_FAIL'')" if "a \<in> set ?as" for a
      using that by (auto simp: signed_by_def node_verify_def Let_def structural_ok_iff integrity_ok_iff)
    from compute_verdict_uniform [OF ne d] show ?thesis by (simp split: if_splits)
  qed
  with c reg assms(2) show ?thesis by (simp add: quorum_of_def get_verdict_def is_quorum_reached_def)
qed

section \<open>Properties\<close>

text \<open>C7. A quorum counts only what it should: the counted verifiers are distinct, each one has an
  attestation among the collected ones that is for the quorum's evidence hash, has a valid signature
  and comes from an active registered verifier if there is a registry. The quorum is reached exactly
  when at least the threshold are counted, and its decision is positive exactly when at least half
  of them, and at least one, decided \<^verbatim>\<open>STRUCT_OK\<close>.\<close>

theorem quorum_counts_valid_attestations:
  assumes "make_aggregator n m reg = Inr agg" "collect verify uuid now agg as = Inr q"
  shows "\<exists>vs. distinct (map va_verifier_id vs) \<and> list_all (counted verify agg as (aq_evidence_hash q)) vs
    \<and> aq_verifier_ids q = map va_verifier_id vs \<and> aq_valid_signatures q = length vs
    \<and> (is_quorum_reached q \<longleftrightarrow> n \<le> int (length vs))
    \<and> (aq_decision q = ''ATTESTED_OK'' \<longleftrightarrow>
         vs \<noteq> [] \<and> length vs \<le> 2 * length (filter (\<lambda>a. va_decision a = ''STRUCT_OK'') vs))"
proof -
  have "compute_verdict vs = ''ATTESTED_OK'' \<longleftrightarrow>
      vs \<noteq> [] \<and> length vs \<le> 2 * length (filter (\<lambda>a. va_decision a = ''STRUCT_OK'') vs)" for vs
    using length_filter_le [of "\<lambda>a. va_decision a = ''STRUCT_OK''" vs] by (auto simp: compute_verdict_def Let_def)
  with collect_sound [OF assms] show ?thesis unfolding is_quorum_reached_def by metis
qed

definition sample_aggregator :: AttestationAggregator where
  "sample_aggregator = \<lparr>ag_threshold = 2, ag_total_verifiers = 3, ag_verifier_registry = []\<rparr>"

definition sample_vote :: "string \<Rightarrow> string \<Rightarrow> VerifierAttestation" where
  "sample_vote vid h =
     sample_attestation\<lparr>va_verifier_id := vid, va_evidence_hash := h, va_signature := ''0xab''\<rparr>"

lemma sample_aggregator_made: "make_aggregator 2 3 None = Inr sample_aggregator"
  by (simp add: make_aggregator_def sample_aggregator_def)

lemmas sample_vote_simps = sample_vote_def sample_attestation_def sample_aggregator_def collect_candidates
  eligible_def candidates_def quorum_of_def compute_verdict_def

theorem quorum_counts_valid_attestations_witness:
  "\<exists>q. collect (\<lambda>a. Inr True) ''q'' [] sample_aggregator [sample_vote ''v1'' ''00'', sample_vote ''v2'' ''00''] = Inr q
     \<and> (is_quorum_reached q \<longleftrightarrow> aq_valid_signatures q \<ge> 2)"
proof -
  have "\<exists>q. collect (\<lambda>a. Inr True) ''q'' [] sample_aggregator [sample_vote ''v1'' ''00'', sample_vote ''v2'' ''00''] = Inr q"
    by (simp add: sample_vote_simps)
  then obtain q where q: "collect (\<lambda>a. Inr True) ''q'' [] sample_aggregator
      [sample_vote ''v1'' ''00'', sample_vote ''v2'' ''00''] = Inr q" by blast
  from quorum_counts_valid_attestations [OF sample_aggregator_made q] q show ?thesis by auto
qed



text \<open>An attestation relabelled to another task and bundle.\<close>

definition relabel :: "string \<Rightarrow> string \<Rightarrow> VerifierAttestation \<Rightarrow> VerifierAttestation" where
  "relabel t b a = a\<lparr>va_task_id := t, va_bundle_id := b\<rparr>"

lemma relabel_simps [simp]:
  "va_verifier_id (relabel t b a) = va_verifier_id a" "va_evidence_hash (relabel t b a) = va_evidence_hash a"
  "va_decision (relabel t b a) = va_decision a" "va_task_id (relabel t b a) = t"
  "registered agg (relabel t b a) = registered agg a"
  by (simp_all add: relabel_def registered_def)

lemma verify_relabel [simp]: "verify_attestation eth keccak lib (relabel t b a) = verify_attestation eth keccak lib a"
proof -
  have "relabel t b a = a\<lparr>va_task_id := t, va_bundle_id := b, va_reason_codes := va_reason_codes a,
    va_verified_at := va_verified_at a\<rparr>" by (simp add: relabel_def)
  then show ?thesis by (simp only: attestation_not_bound_to_task)
qed

lemma deduplicate_relabel: "deduplicate seen (map (relabel t b) as) = map (relabel t b) (deduplicate seen as)"
  by (induction seen as rule: deduplicate.induct) simp_all

lemma eligible_relabel: "eligible agg (map (relabel t b) as) = map (relabel t b) (eligible agg as)"
  by (simp add: eligible_def Let_def deduplicate_relabel filter_map o_def)

lemma candidates_relabel: "candidates agg (map (relabel t b) as) = map (relabel t b) (candidates agg as)"
  by (cases "eligible agg as") (simp_all add: candidates_def eligible_relabel filter_map o_def)

lemma valid_only_relabel:
  "valid_only (verify_attestation eth keccak lib) (map (relabel t b) as)
   = map_sum id (map (relabel t b)) (valid_only (verify_attestation eth keccak lib) as)"
  by (induction as) (auto split: sum.split)

lemma quorum_of_relabel:
  "quorum_of uuid now agg h (map (relabel t b) vs) =
   (if vs = [] then quorum_of uuid now agg h vs else (quorum_of uuid now agg h vs)\<lparr>aq_task_id := t\<rparr>)"
  by (simp add: quorum_of_def compute_verdict_def Let_def filter_map o_def hd_map)

text \<open>A quorum says nothing about the task: relabelling the collected attestations to another task
  and bundle gives the same quorum, now for the other task.\<close>

lemma quorum_not_bound_to_task:
  "collect (verify_attestation eth keccak lib) uuid now agg (map (relabel t b) as)
   = map_sum id (\<lambda>q. if aq_valid_signatures q = 0 then q else q\<lparr>aq_task_id := t\<rparr>)
       (collect (verify_attestation eth keccak lib) uuid now agg as)"
proof (cases "eligible agg as = []")
  case True
  then show ?thesis by (simp add: collect_candidates eligible_relabel empty_quorum_def)
next
  case False
  have n: "aq_valid_signatures (quorum_of uuid now agg h vs) = 0 \<longleftrightarrow> vs = []" for h vs by (simp add: quorum_of_def)
  from False show ?thesis
    by (cases "valid_only (verify_attestation eth keccak lib) (candidates agg as)")
      (simp_all add: collect_candidates eligible_relabel candidates_relabel valid_only_relabel hd_map quorum_of_relabel n)
qed

lemma map_of_values: "map_of (map (\<lambda>(k, v). (k, f k v)) xs) k = map_option (f k) (map_of xs k)"
  by (induction xs) auto

text \<open>The registry does not protect a verifier's identity: which wallets are registered has no
  influence on the result, so an attestation in the name of a registered verifier counts whoever
  signed it.\<close>

lemma registered_wallet_ignored:
  "collect verify uuid now
     (agg\<lparr>ag_verifier_registry := map (\<lambda>(k, i). (k, i\<lparr>vi_wallet_address := w k\<rparr>)) (ag_verifier_registry agg)\<rparr>) as
   = collect verify uuid now agg as"
proof -
  let ?agg = "agg\<lparr>ag_verifier_registry := map (\<lambda>(k, i). (k, i\<lparr>vi_wallet_address := w k\<rparr>)) (ag_verifier_registry agg)\<rparr>"
  have "registered ?agg = registered agg"
    by (rule ext) (simp add: registered_def map_of_values split: option.split)
  then have "eligible ?agg = eligible agg" by (intro ext) (simp add: eligible_def Let_def)
  then show ?thesis
    by (simp add: collect_candidates candidates_def empty_quorum_def quorum_of_def split: sum.split)
qed

text \<open>C33. One early attestation can block a quorum: if the first eligible attestation names another
  evidence hash than all the others, a threshold above one is never met, however many of the others
  are valid and whether or not the first one is.\<close>

theorem first_attestation_blocks_quorum:
  assumes "collect verify uuid now agg (a # as) = Inr q" "1 < ag_threshold agg"
    and "ag_verifier_registry agg \<noteq> [] \<longrightarrow> registered agg a"
    and "\<forall>b \<in> set as. va_evidence_hash b \<noteq> va_evidence_hash a"
  shows "\<not> is_quorum_reached q"
proof -
  let ?ds = "deduplicate {va_verifier_id a} as"
  define es where "es = (if ag_verifier_registry agg \<noteq> [] then filter (registered agg) ?ds else ?ds)"
  have es: "eligible agg (a # as) = a # es" "set es \<subseteq> set as"
    using assms(3) deduplicate_subset [of "{va_verifier_id a}" as] by (auto simp: eligible_def es_def)
  have "candidates agg (a # as) = [a]"
    using es assms(4) by (auto simp: candidates_def filter_empty_conv)
  with assms(1) es obtain vs where "valid_only verify [a] = Inr vs" "q = quorum_of uuid now agg (va_evidence_hash a) vs"
    by (auto simp: collect_candidates split: sum.splits)
  then show ?thesis using assms(2)
    by (auto simp: is_quorum_reached_def quorum_of_def split: sum.splits if_splits)
qed

theorem first_attestation_blocks_quorum_witness:
  "\<exists>q. collect (\<lambda>a. Inr (va_verifier_id a \<noteq> ''v0'')) ''q'' [] sample_aggregator
     [sample_vote ''v0'' ''ff'', sample_vote ''v1'' ''00'', sample_vote ''v2'' ''00''] = Inr q \<and> \<not> is_quorum_reached q"
proof -
  have "\<exists>q. collect (\<lambda>a. Inr (va_verifier_id a \<noteq> ''v0'')) ''q'' [] sample_aggregator
     [sample_vote ''v0'' ''ff'', sample_vote ''v1'' ''00'', sample_vote ''v2'' ''00''] = Inr q"
    by (simp add: sample_vote_simps)
  then obtain q where q: "collect (\<lambda>a. Inr (va_verifier_id a \<noteq> ''v0'')) ''q'' [] sample_aggregator
     [sample_vote ''v0'' ''ff'', sample_vote ''v1'' ''00'', sample_vote ''v2'' ''00''] = Inr q" by blast
  have "\<not> is_quorum_reached q"
    by (rule first_attestation_blocks_quorum [OF q]) (simp_all add: sample_aggregator_def sample_vote_def sample_attestation_def)
  with q show ?thesis by blast
qed

end
