(* ===== verification/Challenge_Window.thy ===== *)
theory Challenge_Window
  imports Lifecycle
begin

text \<open>
  Challenge windows (\<^verbatim>\<open>decentralized_verifier/challenge/window.py\<close>): a window opens after an
  attestation, closes when its time has passed, and is disputed while a challenge is recorded.

  The window is an object that the caller holds and the manager updates in place. Here it is passed
  and returned; the manager keeps, per task, the challenge that was raised. Instants are microseconds
  since the epoch; the texts \<^verbatim>\<open>start_at\<close> and \<^verbatim>\<open>end_at\<close> are written and read back by the module itself and
  stand for their instants. \<open>now\<close> is the clock. An operation that raises returns \<open>Inl\<close> together with
  the state it leaves behind.
\<close>

section \<open>Data\<close>

datatype ChallengeWindowStatus = WINDOW_PENDING | WINDOW_OPEN | WINDOW_CLOSED | WINDOW_DISPUTED

datatype ChallengeDecision = UPHELD | OVERRULED

record ChallengeWindow =
  cw_challenge_id :: string
  cw_task_id :: string
  cw_evidence_hash :: string
  cw_start_at :: int
  cw_end_at :: int
  cw_duration_seconds :: int
  cw_status :: ChallengeWindowStatus

record ChallengeRecord =
  cr_challenge_id :: string
  cr_task_id :: string
  cr_challenger_wallet :: string
  cr_reason_code :: string
  cr_evidence_hash :: string
  cr_challenge_evidence_cid :: string
  cr_status :: string
  cr_decision :: string
  cr_created_at :: int

record ChallengeWindowManager =
  cm_default_duration_seconds :: int
  cm_windows :: "(string \<times> ChallengeRecord option) list"

datatype window_error =
    WindowExists string
  | WindowNotOpen ChallengeWindowStatus
  | NoWindowState string
  | AlreadyChallenged string
  | NoActiveChallenge string

definition micros :: int where "micros = 1000000"

definition new_manager :: "int \<Rightarrow> ChallengeWindowManager" where
  "new_manager default_duration_seconds =
     \<lparr>cm_default_duration_seconds = default_duration_seconds, cm_windows = []\<rparr>"

section \<open>Operations\<close>

definition open_window ::
  "int \<Rightarrow> ChallengeWindowManager \<Rightarrow> string \<Rightarrow> string \<Rightarrow> string \<Rightarrow> int option
   \<Rightarrow> window_error + ChallengeWindow \<times> ChallengeWindowManager" where
  "open_window now m task_id evidence_hash task_type duration_seconds =
     (if map_of (cm_windows m) task_id \<noteq> None then Inl (WindowExists task_id)
      else
        let dur = (case duration_seconds of
                     None \<Rightarrow> cm_default_duration_seconds m
                   | Some d \<Rightarrow> if d = 0 then cm_default_duration_seconds m else d);
            start = micros * (now div micros);
            window = \<lparr>cw_challenge_id = ''challenge-'' @ task_id, cw_task_id = task_id,
              cw_evidence_hash = evidence_hash, cw_start_at = start, cw_end_at = start + micros * dur,
              cw_duration_seconds = dur, cw_status = WINDOW_OPEN\<rparr>
        in Inr (window, m\<lparr>cm_windows := cm_windows m @ [(task_id, None)]\<rparr>))"

definition sync_window_status :: "int \<Rightarrow> ChallengeWindow \<Rightarrow> ChallengeWindow" where
  "sync_window_status now window =
     (if cw_status window = WINDOW_OPEN \<and> cw_end_at window < now then window\<lparr>cw_status := WINDOW_CLOSED\<rparr>
      else window)"

definition is_window_open :: "int \<Rightarrow> ChallengeWindow \<Rightarrow> bool \<times> ChallengeWindow" where
  "is_window_open now window =
     (let w = sync_window_status now window in (cw_status w = WINDOW_OPEN, w))"

definition is_window_closed :: "int \<Rightarrow> ChallengeWindow \<Rightarrow> bool \<times> ChallengeWindow" where
  "is_window_closed now window =
     (let w = sync_window_status now window in (cw_status w = WINDOW_CLOSED, w))"

definition can_settle :: "int \<Rightarrow> ChallengeWindow \<Rightarrow> bool \<times> ChallengeWindow" where
  "can_settle now window =
     (let w = sync_window_status now window in (cw_status w = WINDOW_CLOSED, w))"

text \<open>The clock is read twice: \<open>later\<close> is the second reading.\<close>

definition get_remaining_seconds :: "int \<Rightarrow> int \<Rightarrow> ChallengeWindow \<Rightarrow> int \<times> ChallengeWindow" where
  "get_remaining_seconds now later window =
     (let w = sync_window_status now window
      in if cw_status w \<noteq> WINDOW_OPEN then (0, w)
         else (max 0 ((cw_end_at w - later) div micros), w))"

definition challenge_of :: "ChallengeWindowManager \<Rightarrow> string \<Rightarrow> ChallengeRecord option option" where
  "challenge_of m task_id = map_of (cm_windows m) task_id"

definition set_challenge :: "string \<Rightarrow> ChallengeRecord \<Rightarrow> ChallengeWindowManager \<Rightarrow> ChallengeWindowManager" where
  "set_challenge task_id c m =
     m\<lparr>cm_windows := map (\<lambda>(k, x). (k, if k = task_id then Some c else x)) (cm_windows m)\<rparr>"

definition raise_challenge ::
  "int \<Rightarrow> string \<Rightarrow> ChallengeWindow \<Rightarrow> string \<Rightarrow> string \<Rightarrow> string \<Rightarrow> ChallengeWindowManager
   \<Rightarrow> (window_error + ChallengeRecord) \<times> ChallengeWindow \<times> ChallengeWindowManager" where
  "raise_challenge now uuid window challenger reason evidence_cid m =
     (let w = sync_window_status now window in
      if cw_status w \<noteq> WINDOW_OPEN then (Inl (WindowNotOpen (cw_status w)), w, m)
      else case challenge_of m (cw_task_id w) of
        None \<Rightarrow> (Inl (NoWindowState (cw_task_id w)), w, m)
      | Some (Some c) \<Rightarrow> (Inl (AlreadyChallenged (cw_task_id w)), w, m)
      | Some None \<Rightarrow>
          let record = \<lparr>cr_challenge_id = ''challenge-'' @ cw_task_id w @ ''-'' @ take 8 uuid,
                cr_task_id = cw_task_id w, cr_challenger_wallet = challenger, cr_reason_code = reason,
                cr_evidence_hash = cw_evidence_hash w, cr_challenge_evidence_cid = evidence_cid,
                cr_status = ''open'', cr_decision = [], cr_created_at = micros * (now div micros)\<rparr>
          in (Inr record, w\<lparr>cw_status := WINDOW_DISPUTED\<rparr>, set_challenge (cw_task_id w) record m))"

definition decision_value :: "ChallengeDecision \<Rightarrow> string" where
  "decision_value d = (case d of UPHELD \<Rightarrow> ''upheld'' | OVERRULED \<Rightarrow> ''overruled'')"

definition resolve_challenge ::
  "int \<Rightarrow> ChallengeWindow \<Rightarrow> ChallengeDecision \<Rightarrow> ChallengeWindowManager
   \<Rightarrow> (window_error + ChallengeRecord) \<times> ChallengeWindow \<times> ChallengeWindowManager" where
  "resolve_challenge now window decision m =
     (case challenge_of m (cw_task_id window) of
        Some (Some c) \<Rightarrow>
          let challenge = c\<lparr>cr_status := ''resolved'', cr_decision := decision_value decision\<rparr>;
              w = (case decision of UPHELD \<Rightarrow> window\<lparr>cw_status := WINDOW_DISPUTED\<rparr>
                   | OVERRULED \<Rightarrow> sync_window_status now window)
          in (Inr challenge, w, set_challenge (cw_task_id window) challenge m)
      | _ \<Rightarrow> (Inl (NoActiveChallenge (cw_task_id window)), window, m))"

section \<open>Runs\<close>

text \<open>
  What can happen to one window: time passes, somebody asks for its status, challenges it or resolves
  a challenge, or the manager works on other tasks.
\<close>

type_synonym window_state = "int \<times> ChallengeWindow \<times> ChallengeWindowManager"

inductive window_step :: "window_state \<Rightarrow> window_state \<Rightarrow> bool" where
  tick: "now \<le> now' \<Longrightarrow> window_step (now, w, m) (now', w, m)"
| look: "window_step (now, w, m) (now, sync_window_status now w, m)"
| challenge: "raise_challenge now uuid w c r e m = (res, w', m') \<Longrightarrow> window_step (now, w, m) (now, w', m')"
| resolve: "resolve_challenge now w d m = (res, w', m') \<Longrightarrow> window_step (now, w, m) (now, w', m')"
| others: "challenge_of m' (cw_task_id w) = challenge_of m (cw_task_id w) \<Longrightarrow> window_step (now, w, m) (now, w, m')"

inductive_cases window_stepE: "window_step (now, w, m) s"

definition opened :: "window_state \<Rightarrow> bool" where
  "opened s \<longleftrightarrow> (case s of (now, w, m) \<Rightarrow>
     \<exists>m0 t h ty d. open_window now m0 t h ty d = Inr (w, m))"

text \<open>The window is closed or disputed exactly for the reason it says, and its times stay as they were set.\<close>

definition window_inv :: "window_state \<Rightarrow> bool" where
  "window_inv s \<longleftrightarrow> (case s of (now, w, m) \<Rightarrow>
     cw_start_at w \<le> now \<and> cw_end_at w = cw_start_at w + micros * cw_duration_seconds w \<and>
     (case challenge_of m (cw_task_id w) of
        None \<Rightarrow> False
      | Some None \<Rightarrow> cw_status w = WINDOW_OPEN \<or> cw_status w = WINDOW_CLOSED \<and> cw_end_at w < now
      | Some (Some c) \<Rightarrow> cw_status w = WINDOW_DISPUTED))"

lemma challenge_of_set [simp]:
  "challenge_of (set_challenge t c m) u = (if u = t then map_option (\<lambda>_. Some c) (challenge_of m u) else challenge_of m u)"
proof -
  have "map_of (map (\<lambda>(k, x). (k, if k = t then Some c else x)) xs) u
    = (if u = t then map_option (\<lambda>_. Some c) (map_of xs u) else map_of xs u)" for xs
    by (induction xs) auto
  then show ?thesis by (simp add: challenge_of_def set_challenge_def)
qed

lemma sync_simps [simp]:
  "cw_task_id (sync_window_status now w) = cw_task_id w" "cw_end_at (sync_window_status now w) = cw_end_at w"
  "cw_start_at (sync_window_status now w) = cw_start_at w"
  "cw_duration_seconds (sync_window_status now w) = cw_duration_seconds w"
  by (simp_all add: sync_window_status_def)

lemma sync_status:
  "cw_status (sync_window_status now w) =
   (if cw_status w = WINDOW_OPEN \<and> cw_end_at w < now then WINDOW_CLOSED else cw_status w)"
  by (simp add: sync_window_status_def)

lemma raise_inv:
  "raise_challenge now uuid w c r e m = (res, w', m') \<Longrightarrow> window_inv (now, w, m) \<Longrightarrow> window_inv (now, w', m')"
  by (auto simp: raise_challenge_def window_inv_def sync_status Let_def split: option.splits if_splits)

lemma resolve_inv:
  "resolve_challenge now w d m = (res, w', m') \<Longrightarrow> window_inv (now, w, m) \<Longrightarrow> window_inv (now, w', m')"
  by (cases d) (auto simp: resolve_challenge_def window_inv_def sync_status Let_def split: option.splits)

interpretation window: kept window_step window_inv
proof
  fix s t assume "window_step s t" "window_inv s"
  then show "window_inv t"
  proof cases
    case (challenge now uuid w c r e m res w' m')
    with \<open>window_inv s\<close> raise_inv show ?thesis by blast
  next
    case (resolve now w d m res w' m')
    with \<open>window_inv s\<close> resolve_inv show ?thesis by blast
  qed (auto simp: window_inv_def sync_status split: option.splits)
qed

text \<open>A recorded challenge stays recorded.\<close>

definition challenged :: "window_state \<Rightarrow> bool" where
  "challenged s \<longleftrightarrow> (case s of (now, w, m) \<Rightarrow> \<exists>c. challenge_of m (cw_task_id w) = Some (Some c))"

interpretation challenge: kept window_step challenged
proof
  fix s t assume "window_step s t" "challenged s"
  then show "challenged t"
    by cases (auto simp: challenged_def raise_challenge_def resolve_challenge_def Let_def
        split: option.splits if_splits ChallengeDecision.splits)
qed

lemma map_of_added: "map_of xs t = None \<Longrightarrow> map_of (xs @ [(t, v)]) t = Some v"
  by (simp add: map_add_Some_iff)

lemma open_window_result:
  assumes "open_window now m0 t h ty d = Inr (w, m)"
  shows "cw_task_id w = t" "cw_status w = WINDOW_OPEN" "challenge_of m t = Some None"
    and "cw_start_at w \<le> now" "cw_end_at w = cw_start_at w + micros * cw_duration_seconds w"
proof -
  have n: "map_of (cm_windows m0) t = None" using assms by (simp add: open_window_def split: if_splits)
  show "cw_task_id w = t" "cw_status w = WINDOW_OPEN" "cw_end_at w = cw_start_at w + micros * cw_duration_seconds w"
    using assms n by (auto simp: open_window_def Let_def)
  show "challenge_of m t = Some None"
    using assms n map_of_added [OF n] by (auto simp: open_window_def Let_def challenge_of_def)
  have "micros * (now div micros) \<le> now" by (simp add: micros_def)
  then show "cw_start_at w \<le> now" using assms n by (auto simp: open_window_def Let_def)
qed

lemma opened_inv:
  assumes "opened s"
  shows "window_inv s"
proof -
  obtain now w m where s: "s = (now, w, m)" by (rule prod_cases3)
  obtain m0 t h ty d where o: "open_window now m0 t h ty d = Inr (w, m)"
    using assms unfolding opened_def s by auto
  show ?thesis by (simp add: s window_inv_def open_window_result [OF o])
qed

lemma reachable_inv: "opened s0 \<Longrightarrow> window_step\<^sup>*\<^sup>* s0 s \<Longrightarrow> window_inv s"
  using window.reach_keeps opened_inv by blast

section \<open>Properties\<close>


definition sample_open :: "ChallengeWindow \<times> ChallengeWindowManager" where
  "sample_open = (case open_window 0 (new_manager 1800) ''t1'' ''h'' ''api'' None of Inr r \<Rightarrow> r)"

lemma sample_opened: "opened (0, fst sample_open, snd sample_open)"
proof -
  have "open_window 0 (new_manager 1800) ''t1'' ''h'' ''api'' None = Inr (fst sample_open, snd sample_open)"
    by (simp add: sample_open_def open_window_def new_manager_def Let_def)
  then show ?thesis unfolding opened_def prod.case by blast
qed


text \<open>Once a challenge was recorded, the window never allows settlement again, however the challenge
  is resolved: also a challenge that the arbitrator overruled blocks the settlement for ever.\<close>

lemma challenged_window_never_settles:
  assumes "opened s0" "window_step\<^sup>*\<^sup>* s0 s" "challenged s" "window_step\<^sup>*\<^sup>* s (now, w, m)"
  shows "\<not> fst (can_settle now w)"
proof -
  have "window_inv (now, w, m)" using reachable_inv assms(1,2,4) by (meson rtranclp_trans)
  moreover have "challenged (now, w, m)" using challenge.reach_keeps assms(3,4) by blast
  ultimately show ?thesis
    by (auto simp: can_settle_def window_inv_def challenged_def sync_status Let_def)
qed

definition sample_overruled :: "ChallengeWindow \<times> ChallengeWindowManager" where
  "sample_overruled =
     (case raise_challenge 5 ''u'' (fst sample_open) ''0xBob'' ''evidence_hash_mismatch'' ''c'' (snd sample_open) of
        (r, w, m) \<Rightarrow> snd (resolve_challenge 6 w OVERRULED m))"

text \<open>The remaining time is never negative and never more than the duration of the window, and it is
  zero as soon as the end has passed.\<close>

lemma remaining_seconds_bounds:
  assumes "opened s0" "window_step\<^sup>*\<^sup>* s0 (now, w, m)" "now \<le> later" "0 \<le> cw_duration_seconds w"
  shows "0 \<le> fst (get_remaining_seconds now later w)
    \<and> fst (get_remaining_seconds now later w) \<le> cw_duration_seconds w
    \<and> (cw_end_at w \<le> later \<longrightarrow> fst (get_remaining_seconds now later w) = 0)"
proof -
  have inv: "cw_start_at w \<le> later" "cw_end_at w = cw_start_at w + micros * cw_duration_seconds w"
    using reachable_inv [OF assms(1,2)] assms(3) by (simp_all add: window_inv_def)
  then have "(cw_end_at w - later) div micros \<le> (micros * cw_duration_seconds w) div micros"
    by (intro zdiv_mono1) (simp_all add: micros_def)
  then have "(cw_end_at w - later) div micros \<le> cw_duration_seconds w" by (simp add: micros_def)
  moreover have "(cw_end_at w - later) div micros \<le> 0" if "cw_end_at w \<le> later"
    using that by (simp add: micros_def div_nonpos_pos_le0)
  ultimately show ?thesis using assms(4) by (auto simp: get_remaining_seconds_def Let_def)
qed

end
