(* ===== verification/Settlement_Plan.thy ===== *)
theory Settlement_Plan
  imports Evidence_Verification Attestation_Quorum Challenge_Window
begin

text \<open>
  The adapter that turns a verification result, or a quorum with its challenge window, into a plan of
  contract calls (\<^verbatim>\<open>evidence_runtime/settlement_adapter.py\<close>). \<open>mode_env\<close> is the environment variable
  \<^verbatim>\<open>SETTLEMENT_MODE\<close>. The part of a plan that only repeats its inputs for display, the dicts
  \<^verbatim>\<open>verification\<close>, \<^verbatim>\<open>attestation\<close> and \<^verbatim>\<open>challenge_window\<close>, is \<open>pl_details\<close>.

  The lemmas say exactly when a plan contains the payout, and connect the plan with the structural
  verification, the quorum and the idempotency book.
\<close>

section \<open>Plans\<close>

record plan_call =
  pc_function :: string
  pc_onchain :: string
  pc_args :: "(string \<times> json) list"
  pc_note :: string

record settlement_plan =
  pl_task_id :: string
  pl_bundle_id :: string
  pl_trace_id :: string
  pl_evidence_bundle_digest :: string
  pl_karma_contract :: string
  pl_mode :: string
  pl_proof_hash :: string
  pl_scope_hash_hex :: string
  pl_details :: "(string \<times> json) list"
  pl_recommended_calls :: "plan_call list"
  pl_settlement_step_keys :: "(string \<times> string) list"
  pl_tx_hash :: "string option"
  pl_onchain_status :: string
  pl_operational_block :: "string option"
  pl_operational_notes :: "string list"

definition bilateral_calls ::
  "string \<Rightarrow> string \<Rightarrow> int \<Rightarrow> string \<Rightarrow> string \<Rightarrow> int \<Rightarrow> bool \<Rightarrow> plan_call list" where
  "bilateral_calls seller token amount_wei scope_hex proof_hash deadline_unix pause_payout =
     (let calls =
        [\<lparr>pc_function = ''lockBuyer'', pc_onchain = ''lock'',
          pc_args = [(''token'', JStr token), (''amount'', JInt amount_wei)],
          pc_note = ''Buyer locks USDC; mints Bill Token 1:1 (MINTED).''\<rparr>,
         \<lparr>pc_function = ''lockAgent'', pc_onchain = ''lock'',
          pc_args = [(''token'', JStr token), (''amount'', JInt amount_wei), (''party'', JStr ''agent''),
            (''seller'', JStr seller)],
          pc_note = ''Agent/seller locks matching Bill Token (MINTED).''\<rparr>,
         \<lparr>pc_function = ''bind'', pc_onchain = ''bind'',
          pc_args = [(''buyerBillId'', JStr ''<buyer_bill_id>''), (''agentBillId'', JStr ''<agent_bill_id>''),
            (''scopeHash'', JStr scope_hex)],
          pc_note = ''Bilateral bind freezes both bills (BOUND).''\<rparr>,
         \<lparr>pc_function = ''settle'', pc_onchain = ''settle'',
          pc_args = [(''bindingId'', JStr ''<binding_id>''), (''proofHash'', JStr proof_hash)],
          pc_note = ''Submit proof; binding enters FINALIZING (dispute window).''\<rparr>,
         \<lparr>pc_function = ''finalizeSettle'', pc_onchain = ''finalizeSettle'',
          pc_args = [(''bindingId'', JStr ''<binding_id>'')],
          pc_note = ''After dispute window; burns bills and releases USDC.''\<rparr>]
      in if pause_payout then filter (\<lambda>c. pc_function c \<notin> {''settle'', ''finalizeSettle''}) calls else calls)"

definition settlement_mode :: "string option \<Rightarrow> string" where
  "settlement_mode mode_env = lower (case mode_env of None \<Rightarrow> ''offchain'' | Some m \<Rightarrow> m)"

definition status_text :: "QuorumStatus \<Rightarrow> string" where
  "status_text s = (case s of COLLECTING \<Rightarrow> ''collecting'' | ATTESTED_OK \<Rightarrow> ''attested_ok''
     | ATTESTED_FAIL \<Rightarrow> ''attested_fail'' | INSUFFICIENT_SIGNATURES \<Rightarrow> ''insufficient_signatures'')"

text \<open>The returns of a blocked plan: no calls, no keys.\<close>

definition blocked :: "settlement_plan \<Rightarrow> string \<Rightarrow> settlement_plan" where
  "blocked base status =
     base\<lparr>pl_recommended_calls := [], pl_settlement_step_keys := [], pl_tx_hash := None, pl_onchain_status := status\<rparr>"

text \<open>The end of both builders, which differ only in the status text of the off-chain mode.\<close>

definition planned ::
  "settlement_plan \<Rightarrow> TaskContract \<Rightarrow> OperationalControls option \<Rightarrow> (bool \<Rightarrow> plan_call list) \<Rightarrow> string \<Rightarrow> settlement_plan" where
  "planned base task controls make_calls offchain_status =
     (case (case controls of None \<Rightarrow> None | Some c \<Rightarrow> settlement_block_reason c task) of
        Some sb \<Rightarrow> (blocked base (''operational_blocked:'' @ sb))\<lparr>pl_operational_block := Some sb\<rparr>
      | None \<Rightarrow>
          let pause = (case controls of None \<Rightarrow> False | Some c \<Rightarrow> oc_pause_payout c);
              calls = make_calls pause
          in base\<lparr>pl_operational_notes := (if pause then [''pause_payout:settle_finalize_omitted''] else []),
               pl_recommended_calls := calls,
               pl_settlement_step_keys := map (\<lambda>c. (pc_function c,
                  settlement_step_key (pl_trace_id base) (pl_bundle_id base) (pc_function c))) calls,
               pl_tx_hash := None,
               pl_onchain_status :=
                 (if pl_mode base = ''offchain'' then offchain_status
                  else if pl_mode base \<in> {''hybrid'', ''testnet''} then ''use_bilateral_lock_bind_settle''
                  else ''pending_testnet_implementation'')\<rparr>)"

definition build_offchain_plan ::
  "string \<Rightarrow> string option \<Rightarrow> TaskContract \<Rightarrow> EvidenceBundle \<Rightarrow> string \<Rightarrow> string \<Rightarrow> string \<Rightarrow> string \<Rightarrow> int \<Rightarrow> int
   \<Rightarrow> VerificationResult \<Rightarrow> OperationalControls option \<Rightarrow> settlement_plan" where
  "build_offchain_plan contract_name mode_env task bundle proof_hash scope_hex seller token amount_wei deadline_unix
     verify controls =
     (let mode = settlement_mode mode_env;
          trace_id = (if tc_trace_id task \<noteq> [] then tc_trace_id task else vr_trace_id verify);
          base = \<lparr>pl_task_id = tc_task_id task, pl_bundle_id = eb_bundle_id bundle, pl_trace_id = trace_id,
            pl_evidence_bundle_digest = vr_evidence_bundle_digest verify, pl_karma_contract = contract_name,
            pl_mode = mode, pl_proof_hash = proof_hash, pl_scope_hash_hex = scope_hex,
            pl_details = [(''verification_id'', JStr (vr_verification_id verify)),
              (''decision'', JStr (case vr_decision verify of STRUCT_OK \<Rightarrow> ''STRUCT_OK'' | STRUCT_FAIL \<Rightarrow> ''STRUCT_FAIL'')),
              (''public_reasons'', jstrs (vr_public_reasons verify)), (''verified_at'', JStr (vr_verified_at verify)),
              (''trace_id'', JStr (vr_trace_id verify))],
            pl_recommended_calls = [], pl_settlement_step_keys = [], pl_tx_hash = None, pl_onchain_status = [],
            pl_operational_block = None, pl_operational_notes = []\<rparr>
      in if vr_decision verify \<noteq> STRUCT_OK then blocked base ''blocked_structural_failure''
         else planned base task controls
                (bilateral_calls seller token amount_wei scope_hex proof_hash deadline_unix) ''offchain_simulated'')"

definition window_text :: "ChallengeWindowStatus \<Rightarrow> string" where
  "window_text s = (case s of WINDOW_PENDING \<Rightarrow> ''pending'' | WINDOW_OPEN \<Rightarrow> ''open'' | WINDOW_CLOSED \<Rightarrow> ''closed''
     | WINDOW_DISPUTED \<Rightarrow> ''disputed'')"

text \<open>\<open>write_time\<close> writes an instant of the window as text.\<close>

definition build_attested_plan ::
  "(int \<Rightarrow> string) \<Rightarrow> string \<Rightarrow> string option \<Rightarrow> TaskContract \<Rightarrow> EvidenceBundle \<Rightarrow> string \<Rightarrow> string
   \<Rightarrow> AttestationQuorum \<Rightarrow> ChallengeWindow \<Rightarrow> string \<Rightarrow> string \<Rightarrow> int \<Rightarrow> int
   \<Rightarrow> OperationalControls option \<Rightarrow> VerificationResult option \<Rightarrow> settlement_plan" where
  "build_attested_plan write_time contract_name mode_env task bundle proof_hash scope_hex quorum challenge_window seller token
     amount_wei deadline_unix controls verify =
     (let mode = settlement_mode mode_env;
          trace_id = (if tc_trace_id task \<noteq> [] then tc_trace_id task
                      else case verify of Some v \<Rightarrow> vr_trace_id v | None \<Rightarrow> []);
          base = \<lparr>pl_task_id = tc_task_id task, pl_bundle_id = eb_bundle_id bundle, pl_trace_id = trace_id,
            pl_evidence_bundle_digest = (case verify of Some v \<Rightarrow> vr_evidence_bundle_digest v
                                         | None \<Rightarrow> aq_evidence_hash quorum),
            pl_karma_contract = contract_name,
            pl_mode = mode, pl_proof_hash = proof_hash, pl_scope_hash_hex = scope_hex,
            pl_details = [(''quorum_id'', JStr (aq_quorum_id quorum)), (''status'', JStr (status_text (aq_status quorum))),
              (''threshold'', JInt (aq_threshold quorum)), (''total_verifiers'', JInt (aq_total_verifiers quorum)),
              (''valid_signatures'', JInt (int (aq_valid_signatures quorum))), (''decision'', JStr (aq_decision quorum)),
              (''challenge_id'', JStr (cw_challenge_id challenge_window)),
              (''window_status'', JStr (window_text (cw_status challenge_window))),
              (''start_at'', JStr (write_time (cw_start_at challenge_window))),
              (''end_at'', JStr (write_time (cw_end_at challenge_window))),
              (''duration_seconds'', JInt (cw_duration_seconds challenge_window))],
            pl_recommended_calls = [], pl_settlement_step_keys = [], pl_tx_hash = None, pl_onchain_status = [],
            pl_operational_block = None, pl_operational_notes = []\<rparr>
      in if aq_status quorum \<noteq> ATTESTED_OK then blocked base (''blocked_quorum:'' @ status_text (aq_status quorum))
         else if cw_status challenge_window = WINDOW_OPEN then blocked base ''blocked_challenge_window_open''
         else if cw_status challenge_window = WINDOW_DISPUTED then blocked base ''blocked_disputed''
         else planned base task controls
                (bilateral_calls seller token amount_wei scope_hex proof_hash deadline_unix)
                ''offchain_simulated_attested'')"

section \<open>When a plan pays\<close>

definition pays :: "settlement_plan \<Rightarrow> bool" where
  "pays plan \<longleftrightarrow> ''settle'' \<in> set (map pc_function (pl_recommended_calls plan))"

definition payout_open :: "TaskContract \<Rightarrow> OperationalControls option \<Rightarrow> bool" where
  "payout_open task controls \<longleftrightarrow>
     (case controls of None \<Rightarrow> True | Some c \<Rightarrow> settlement_block_reason c task = None \<and> \<not> oc_pause_payout c)"

lemma bilateral_functions:
  "map pc_function (bilateral_calls seller token amount scope proof dl pause) =
   [''lockBuyer'', ''lockAgent'', ''bind''] @ (if pause then [] else [''settle'', ''finalizeSettle''])"
  by (simp add: bilateral_calls_def Let_def)

lemma bilateral_settle:
  "''settle'' \<in> set (map pc_function (bilateral_calls seller token amount scope proof dl pause)) \<longleftrightarrow> \<not> pause"
  unfolding bilateral_functions by simp

lemma blocked_pays [simp]: "\<not> pays (blocked base st)"
  by (simp add: pays_def blocked_def)

lemma planned_calls:
  "pl_recommended_calls (planned base task controls mk st) =
   (if (case controls of None \<Rightarrow> True | Some c \<Rightarrow> settlement_block_reason c task = None)
    then mk (case controls of None \<Rightarrow> False | Some c \<Rightarrow> oc_pause_payout c) else [])"
  by (auto simp: planned_def blocked_def Let_def split: option.splits)

lemma planned_pays:
  "pays (planned base task controls (bilateral_calls seller token amount scope proof dl) st) \<longleftrightarrow> payout_open task controls"
proof (cases controls)
  case None
  then show ?thesis by (simp only: pays_def planned_calls payout_open_def option.case if_True bilateral_settle simp_thms)
next
  case (Some c)
  then show ?thesis
    by (cases "settlement_block_reason c task = None")
      (simp_all only: pays_def planned_calls payout_open_def option.case if_True if_False bilateral_settle simp_thms
        list.map list.set empty_iff)
qed

lemma attested_pays:
  "pays (build_attested_plan write_time cn mode task bundle proof scope q w seller token amount dl controls v) \<longleftrightarrow>
   aq_status q = ATTESTED_OK \<and> cw_status w \<in> {WINDOW_PENDING, WINDOW_CLOSED} \<and> payout_open task controls"
  by (cases "cw_status w") (simp_all add: build_attested_plan_def Let_def planned_pays)

lemma offchain_pays:
  "pays (build_offchain_plan cn mode task bundle proof scope seller token amount dl v controls) \<longleftrightarrow>
   vr_decision v = STRUCT_OK \<and> payout_open task controls"
  by (simp add: build_offchain_plan_def Let_def planned_pays)

section \<open>The keys of a plan\<close>

definition plan_keys :: "settlement_plan \<Rightarrow> string list" where
  "plan_keys plan = map snd (pl_settlement_step_keys plan)"

lemma step_key_inject: "settlement_step_key t b f = settlement_step_key t b g \<longleftrightarrow> f = g"
  by (simp add: settlement_step_key_def Let_def)

lemma planned_keys_distinct:
  "distinct (plan_keys (planned base task controls (bilateral_calls seller token amount scope proof dl) st))"
proof -
  have "distinct (map (settlement_step_key t b) (map pc_function (bilateral_calls seller token amount scope proof dl pause)))"
    for t b pause
    unfolding bilateral_functions by (auto simp: step_key_inject)
  then show ?thesis
    by (auto simp: plan_keys_def planned_def blocked_def Let_def comp_def split: option.splits)
qed

lemma blocked_keys [simp]: "plan_keys (blocked base st) = []"
  by (simp add: plan_keys_def blocked_def)

lemma plan_keys_distinct:
  "distinct (plan_keys (build_attested_plan write_time cn mode task bundle proof scope q w seller token amount dl controls v))"
  "distinct (plan_keys (build_offchain_plan cn mode task bundle proof scope seller token amount dl r controls))"
  by (simp_all add: build_attested_plan_def build_offchain_plan_def Let_def planned_keys_distinct)

lemma try_all_seen: "set ks \<subseteq> set seen \<Longrightarrow> try_all ks seen = replicate (length ks) False"
  by (induction ks) (simp_all add: try_once_def)

lemma try_all_fresh:
  "distinct ks \<Longrightarrow> set ks \<inter> set seen = {} \<Longrightarrow>
   try_all (ks @ rest) seen = replicate (length ks) True @ try_all rest (rev ks @ seen)"
  by (induction ks arbitrary: seen) (simp_all add: try_once_def)

lemma try_all_twice: "distinct ks \<Longrightarrow> try_all (ks @ ks) [] = replicate (length ks) True @ replicate (length ks) False"
  by (simp add: try_all_fresh try_all_seen)

section \<open>Properties\<close>

text \<open>A plan built on the structural verification contains the payout exactly when the bundle is
  admissible for the task and no switch pauses settlement or payout or freezes the task or its agent.\<close>

lemma offchain_plan_pays_iff:
  "pays (build_offchain_plan cn mode task bundle proof scope seller token amount dl
      (verify_evidence_bundle_structural sha uuid now task bundle store controls) controls)
   \<longleftrightarrow> admissible sha task bundle store controls \<and> payout_open task controls"
  by (simp add: offchain_pays verify_decision)

text \<open>C31. A plan built on a quorum contains the payout exactly when the quorum was reached, the window
  is neither open nor disputed and no switch blocks it. The decision of the quorum, its task and its
  evidence hash, and the task of the window, have no influence.\<close>

theorem attested_plan_pays_iff:
  "pays (build_attested_plan write_time cn mode task bundle proof scope q w seller token amount dl controls v) \<longleftrightarrow>
   is_quorum_reached q \<and> cw_status w \<in> {WINDOW_PENDING, WINDOW_CLOSED} \<and> payout_open task controls"
  by (simp add: attested_pays is_quorum_reached_def)


definition sample_closed :: ChallengeWindow where
  "sample_closed = (fst sample_open)\<lparr>cw_status := WINDOW_CLOSED\<rparr>"


text \<open>The steps of a plan are submitted once: on a new idempotency book every step of a plan is
  accepted the first time and refused the second time, for both kinds of plan.\<close>

lemma plan_steps_once:
  "let p = build_attested_plan write_time cn mode task bundle proof scope q w seller token amount dl controls v;
       r = build_offchain_plan cn mode task bundle proof scope seller token amount dl u controls
   in try_all (plan_keys p @ plan_keys p) []
        = replicate (length (pl_recommended_calls p)) True @ replicate (length (pl_recommended_calls p)) False
      \<and> try_all (plan_keys r @ plan_keys r) []
        = replicate (length (pl_recommended_calls r)) True @ replicate (length (pl_recommended_calls r)) False"
proof -
  have len: "length (plan_keys (planned base task controls mk st)) = length (pl_recommended_calls (planned base task controls mk st))"
    for base mk st by (auto simp: plan_keys_def planned_def blocked_def Let_def split: option.splits)
  have "length (plan_keys (build_attested_plan write_time cn mode task bundle proof scope q w seller token amount dl controls v))
    = length (pl_recommended_calls (build_attested_plan write_time cn mode task bundle proof scope q w seller token amount dl controls v))"
    "length (plan_keys (build_offchain_plan cn mode task bundle proof scope seller token amount dl u controls))
    = length (pl_recommended_calls (build_offchain_plan cn mode task bundle proof scope seller token amount dl u controls))"
    by (simp_all add: build_attested_plan_def build_offchain_plan_def Let_def len) (simp_all add: blocked_def)
  with try_all_twice [OF plan_keys_distinct(1)] try_all_twice [OF plan_keys_distinct(2)] show ?thesis
    by (simp only: Let_def simp_thms)
qed

end
