(* ===== verification/Runtime_Safety.thy ===== *)
theory Runtime_Safety
  imports Complex_Main Lifecycle
begin

text \<open>
  The runtime brake (\<^verbatim>\<open>services/runtime_safety.py\<close>): the switch kept in memory, its one-row table,
  and the operations that set, read, store and reload it. The clock is an argument in microseconds;
  \<open>stored\<close> says whether the write of \<^verbatim>\<open>persist_runtime_safety_mode\<close> succeeds, and the reload gets the
  row as it was read, \<open>None\<close> when the read fails. Amounts are exact rationals.
\<close>

section \<open>State\<close>

record RuntimeSafetyModeState =
  rs_enabled :: bool
  rs_reason :: "string option"
  rs_triggered_by :: "string option"
  rs_triggered_at :: "int option"
  rs_manual_override_at :: "int option"
  rs_pause_new_lock :: bool
  rs_pause_new_authorization :: bool
  rs_pause_new_task :: bool
  rs_pause_new_settlement :: bool
  rs_last_anchor_audit_at :: "int option"
  rs_total_locked_usdc :: rat
  rs_total_bill_credits :: rat

definition initial_safety_state :: RuntimeSafetyModeState where
  "initial_safety_state =
     \<lparr>rs_enabled = False, rs_reason = None, rs_triggered_by = None, rs_triggered_at = None,
      rs_manual_override_at = None, rs_pause_new_lock = False, rs_pause_new_authorization = False,
      rs_pause_new_task = False, rs_pause_new_settlement = False, rs_last_anchor_audit_at = None,
      rs_total_locked_usdc = 0, rs_total_bill_credits = 0\<rparr>"

record RuntimeSafetyModeModel =
  rm_enabled :: bool
  rm_reason :: "string option"
  rm_triggered_by :: "string option"
  rm_triggered_at :: "int option"
  rm_manual_override_at :: "int option"
  rm_pause_new_lock :: bool
  rm_pause_new_authorization :: bool
  rm_pause_new_task :: bool
  rm_pause_new_settlement :: bool
  rm_updated_at :: int

text \<open>The values of the columns that are the switch itself, in the order of \<^verbatim>\<open>_SWITCH_FIELDS\<close>.\<close>

type_synonym switch =
  "bool \<times> string option \<times> string option \<times> int option \<times> int option \<times> bool \<times> bool \<times> bool \<times> bool"

definition switch_of :: "RuntimeSafetyModeState \<Rightarrow> switch" where
  "switch_of s =
     (rs_enabled s, rs_reason s, rs_triggered_by s, rs_triggered_at s, rs_manual_override_at s,
      rs_pause_new_lock s, rs_pause_new_authorization s, rs_pause_new_task s, rs_pause_new_settlement s)"

definition switch_of_row :: "RuntimeSafetyModeModel \<Rightarrow> switch" where
  "switch_of_row r =
     (rm_enabled r, rm_reason r, rm_triggered_by r, rm_triggered_at r, rm_manual_override_at r,
      rm_pause_new_lock r, rm_pause_new_authorization r, rm_pause_new_task r, rm_pause_new_settlement r)"

text \<open>The process: its state in memory and the row in the database.\<close>

record Runtime =
  rt_state :: RuntimeSafetyModeState
  rt_row :: "RuntimeSafetyModeModel option"

datatype http_error = HTTPException nat string

section \<open>Operations\<close>

text \<open>\<^verbatim>\<open>a or b\<close> on optional strings: the empty string counts as absent.\<close>

definition or_str :: "string option \<Rightarrow> string \<Rightarrow> string" where
  "or_str a b = (case a of None \<Rightarrow> b | Some s \<Rightarrow> if s = [] then b else s)"

definition set_runtime_safety_mode ::
  "int \<Rightarrow> bool \<Rightarrow> string option \<Rightarrow> string option \<Rightarrow> RuntimeSafetyModeState \<Rightarrow> RuntimeSafetyModeState" where
  "set_runtime_safety_mode now enabled reason actor s =
     (if enabled then
        s\<lparr>rs_enabled := True,
          rs_reason := Some (or_str reason (or_str (rs_reason s) ''manual safety mode enabled'')),
          rs_triggered_by := Some (or_str actor ''system''),
          rs_triggered_at := Some (case rs_triggered_at s of Some t \<Rightarrow> t | None \<Rightarrow> now),
          rs_pause_new_lock := True, rs_pause_new_authorization := True,
          rs_pause_new_task := True, rs_pause_new_settlement := True\<rparr>
      else
        s\<lparr>rs_enabled := False,
          rs_reason := Some (or_str reason ''safety mode disabled''),
          rs_triggered_by := Some (or_str actor ''system''),
          rs_triggered_at := Some now,
          rs_manual_override_at := Some now,
          rs_pause_new_lock := False, rs_pause_new_authorization := False,
          rs_pause_new_task := False, rs_pause_new_settlement := False\<rparr>)"

definition set_runtime_operational_pauses ::
  "int \<Rightarrow> bool \<Rightarrow> bool \<Rightarrow> bool \<Rightarrow> bool \<Rightarrow> string option \<Rightarrow> string option \<Rightarrow>
   RuntimeSafetyModeState \<Rightarrow> RuntimeSafetyModeState" where
  "set_runtime_operational_pauses now lock_p auth_p task_p settle_p reason actor s =
     (let enabled = lock_p \<or> auth_p \<or> task_p \<or> settle_p;
          s' = s\<lparr>rs_enabled := enabled,
                 rs_reason := Some (or_str reason
                   (if enabled then ''manual operational pause update'' else ''operational pauses disabled'')),
                 rs_triggered_by := Some (or_str actor ''system''),
                 rs_triggered_at := Some now,
                 rs_pause_new_lock := lock_p, rs_pause_new_authorization := auth_p,
                 rs_pause_new_task := task_p, rs_pause_new_settlement := settle_p\<rparr>
      in if enabled then s' else s'\<lparr>rs_manual_override_at := Some now\<rparr>)"

definition operation_blocked :: "string \<Rightarrow> RuntimeSafetyModeState \<Rightarrow> bool" where
  "operation_blocked operation s =
     (let op = lower (strip operation)
      in if op = ''new_lock'' then rs_pause_new_lock s
         else if op = ''new_authorization'' then rs_pause_new_authorization s
         else if op = ''new_task'' then rs_pause_new_task s
         else if op = ''new_settlement'' then rs_pause_new_settlement s
         else if op = ''release_unused_capacity'' then False
         else rs_enabled s)"

definition assert_runtime_operation_allowed :: "string \<Rightarrow> RuntimeSafetyModeState \<Rightarrow> http_error + unit" where
  "assert_runtime_operation_allowed operation s =
     (if operation_blocked operation s
      then Inl (HTTPException 503 (''safety mode active: blocked operation '' @ operation))
      else Inr ())"

definition row_of_switch :: "int \<Rightarrow> RuntimeSafetyModeState \<Rightarrow> RuntimeSafetyModeModel" where
  "row_of_switch now s =
     \<lparr>rm_enabled = rs_enabled s, rm_reason = rs_reason s, rm_triggered_by = rs_triggered_by s,
      rm_triggered_at = rs_triggered_at s, rm_manual_override_at = rs_manual_override_at s,
      rm_pause_new_lock = rs_pause_new_lock s, rm_pause_new_authorization = rs_pause_new_authorization s,
      rm_pause_new_task = rs_pause_new_task s, rm_pause_new_settlement = rs_pause_new_settlement s,
      rm_updated_at = now\<rparr>"

definition persist_runtime_safety_mode :: "int \<Rightarrow> bool \<Rightarrow> Runtime \<Rightarrow> bool \<times> Runtime" where
  "persist_runtime_safety_mode now stored rt =
     (if stored then (True, rt\<lparr>rt_row := Some (row_of_switch now (rt_state rt))\<rparr>) else (False, rt))"

definition set_runtime_safety_mode_persisted ::
  "int \<Rightarrow> bool \<Rightarrow> bool \<Rightarrow> string option \<Rightarrow> string option \<Rightarrow> Runtime \<Rightarrow> Runtime" where
  "set_runtime_safety_mode_persisted now stored enabled reason actor rt =
     snd (persist_runtime_safety_mode now stored
       (rt\<lparr>rt_state := set_runtime_safety_mode now enabled reason actor (rt_state rt)\<rparr>))"

definition set_runtime_operational_pauses_persisted ::
  "int \<Rightarrow> bool \<Rightarrow> bool \<Rightarrow> bool \<Rightarrow> bool \<Rightarrow> bool \<Rightarrow> string option \<Rightarrow> string option \<Rightarrow> Runtime \<Rightarrow> Runtime" where
  "set_runtime_operational_pauses_persisted now stored lock_p auth_p task_p settle_p reason actor rt =
     snd (persist_runtime_safety_mode now stored
       (rt\<lparr>rt_state := set_runtime_operational_pauses now lock_p auth_p task_p settle_p reason actor (rt_state rt)\<rparr>))"

definition load_switch :: "RuntimeSafetyModeModel \<Rightarrow> RuntimeSafetyModeState \<Rightarrow> RuntimeSafetyModeState" where
  "load_switch r s =
     s\<lparr>rs_enabled := rm_enabled r, rs_reason := rm_reason r, rs_triggered_by := rm_triggered_by r,
       rs_triggered_at := rm_triggered_at r, rs_manual_override_at := rm_manual_override_at r,
       rs_pause_new_lock := rm_pause_new_lock r, rs_pause_new_authorization := rm_pause_new_authorization r,
       rs_pause_new_task := rm_pause_new_task r, rs_pause_new_settlement := rm_pause_new_settlement r\<rparr>"

definition hydrate_runtime_safety_mode :: "bool \<Rightarrow> Runtime \<Rightarrow> RuntimeSafetyModeState option \<times> Runtime" where
  "hydrate_runtime_safety_mode readable rt =
     (if \<not> readable then (None, rt)
      else case rt_row rt of
        None \<Rightarrow> (None, rt)
      | Some row \<Rightarrow>
          if switch_of_row row = switch_of (rt_state rt) then (None, rt)
          else let s = load_switch row (rt_state rt) in (Some s, rt\<lparr>rt_state := s\<rparr>))"

text \<open>The audit of the capacity anchor gets the sums over the capacity table.\<close>

definition ANCHOR_EPSILON :: rat where "ANCHOR_EPSILON = 1 / 10 ^ 9"

definition DEFAULT_ANCHOR_BREACH_REASON :: string where
  "DEFAULT_ANCHOR_BREACH_REASON = ''capacity anchor breach: total bill credits exceed total locked usdc''"

definition audit_capacity_anchor_and_maybe_trip ::
  "int \<Rightarrow> bool \<Rightarrow> string option \<Rightarrow> rat \<Rightarrow> rat \<Rightarrow> Runtime \<Rightarrow> (http_error + unit) \<times> Runtime" where
  "audit_capacity_anchor_and_maybe_trip now stored actor total_locked total_bill rt =
     (let rt' = rt\<lparr>rt_state := (rt_state rt)\<lparr>rs_last_anchor_audit_at := Some now,
                   rs_total_locked_usdc := total_locked, rs_total_bill_credits := total_bill\<rparr>\<rparr>
      in if total_bill > total_locked + ANCHOR_EPSILON
         then (Inl (HTTPException 503 ''safety mode enabled: capacity anchor breach detected''),
               set_runtime_safety_mode_persisted now stored True (Some DEFAULT_ANCHOR_BREACH_REASON) actor rt')
         else (Inr (), rt'))"

section \<open>The switch is consistent\<close>

text \<open>The brake counts as engaged exactly when one of the four pauses is set.\<close>

definition switch_consistent :: "switch \<Rightarrow> bool" where
  "switch_consistent w = (case w of (e, _, _, _, _, l, a, t, s) \<Rightarrow> e = (l \<or> a \<or> t \<or> s))"

definition runtime_consistent :: "Runtime \<Rightarrow> bool" where
  "runtime_consistent rt \<longleftrightarrow>
     switch_consistent (switch_of (rt_state rt))
     \<and> (case rt_row rt of None \<Rightarrow> True | Some r \<Rightarrow> switch_consistent (switch_of_row r))"

lemma switch_of_row_of_switch [simp]: "switch_of_row (row_of_switch now s) = switch_of s"
  by (simp add: switch_of_row_def row_of_switch_def switch_of_def)

lemma switch_of_load_switch [simp]: "switch_of (load_switch r s) = switch_of_row r"
  by (simp add: switch_of_row_def load_switch_def switch_of_def)

lemma set_mode_consistent [simp]: "switch_consistent (switch_of (set_runtime_safety_mode now e r a s))"
  by (simp add: switch_consistent_def switch_of_def set_runtime_safety_mode_def)

lemma set_pauses_consistent [simp]:
  "switch_consistent (switch_of (set_runtime_operational_pauses now l a t s r ac st))"
  by (simp add: switch_consistent_def switch_of_def set_runtime_operational_pauses_def Let_def)

lemma persist_consistent:
  "runtime_consistent rt \<Longrightarrow> runtime_consistent (snd (persist_runtime_safety_mode now stored rt))"
  by (simp add: runtime_consistent_def persist_runtime_safety_mode_def)

lemma mode_persisted_consistent:
  "runtime_consistent rt \<Longrightarrow>
   runtime_consistent (set_runtime_safety_mode_persisted now stored enabled reason actor rt)"
  unfolding set_runtime_safety_mode_persisted_def
  by (intro persist_consistent) (simp add: runtime_consistent_def)

text \<open>The operations of the module as a step relation, so that any interleaving of administrators,
  audits, write failures, reloads and restarts is a run of it.\<close>

inductive safety_step :: "Runtime \<Rightarrow> Runtime \<Rightarrow> bool" where
  mode: "safety_step rt (set_runtime_safety_mode_persisted now stored enabled reason actor rt)"
| pauses: "safety_step rt (set_runtime_operational_pauses_persisted now stored l a t s reason actor rt)"
| reload: "safety_step rt (snd (hydrate_runtime_safety_mode readable rt))"
| audit: "safety_step rt (snd (audit_capacity_anchor_and_maybe_trip now stored actor locked bill rt))"
| restart: "safety_step rt (rt\<lparr>rt_state := initial_safety_state\<rparr>)"

lemma audit_keeps_switch:
  "switch_of (s\<lparr>rs_last_anchor_audit_at := x, rs_total_locked_usdc := y, rs_total_bill_credits := z\<rparr>) = switch_of s"
  by (simp add: switch_of_def)

lemma safety_step_consistent: "safety_step rt rt' \<Longrightarrow> runtime_consistent rt \<Longrightarrow> runtime_consistent rt'"
proof (induction rule: safety_step.induct)
  case (mode rt now stored enabled reason actor)
  then show ?case by (rule mode_persisted_consistent)
next
  case (pauses rt now stored l a t s reason actor)
  then show ?case unfolding set_runtime_operational_pauses_persisted_def
    by (intro persist_consistent) (simp add: runtime_consistent_def)
next
  case (reload rt readable)
  then show ?case
    by (auto simp: hydrate_runtime_safety_mode_def runtime_consistent_def Let_def split: option.splits)
next
  case (audit rt now stored actor locked bill)
  then have "runtime_consistent (rt\<lparr>rt_state := (rt_state rt)\<lparr>rs_last_anchor_audit_at := Some now,
      rs_total_locked_usdc := locked, rs_total_bill_credits := bill\<rparr>\<rparr>)"
    by (simp add: runtime_consistent_def audit_keeps_switch)
  then show ?case by (simp add: audit_capacity_anchor_and_maybe_trip_def Let_def mode_persisted_consistent)
next
  case (restart rt)
  then show ?case
    by (auto simp: runtime_consistent_def initial_safety_state_def switch_of_def switch_consistent_def)
qed

interpretation safety: kept safety_step runtime_consistent
  by unfold_locales (rule safety_step_consistent)

lemma all_blocked_when_tripped:
  "operation_blocked op (set_runtime_safety_mode now True r a s)
   \<longleftrightarrow> lower (strip op) \<noteq> ''release_unused_capacity''"
  by (simp add: operation_blocked_def set_runtime_safety_mode_def Let_def)

lemma hydrate_switch:
  "rt_row rt = Some r \<Longrightarrow> switch_of (rt_state (snd (hydrate_runtime_safety_mode True rt))) = switch_of_row r"
  by (simp add: hydrate_runtime_safety_mode_def Let_def)

lemma blocked_depends_on_switch:
  "switch_of s = switch_of s' \<Longrightarrow> operation_blocked op s = operation_blocked op s'"
  by (simp add: switch_of_def operation_blocked_def Let_def)

section \<open>Properties\<close>

text \<open>The switch stays consistent in every interleaving of administrators, audits, failed writes,
  reloads and restarts: the brake reads as engaged exactly when some operation is paused, in memory
  and in the database; so an operation the module does not know is blocked exactly when a pause is set.\<close>

lemma brake_reads_engaged_iff_paused:
  assumes "safety_step\<^sup>*\<^sup>* rt rt'" and "runtime_consistent rt"
  shows "runtime_consistent rt'
    \<and> (rs_enabled (rt_state rt')
       \<longleftrightarrow> operation_blocked ''new_lock'' (rt_state rt') \<or> operation_blocked ''new_authorization'' (rt_state rt')
         \<or> operation_blocked ''new_task'' (rt_state rt') \<or> operation_blocked ''new_settlement'' (rt_state rt'))"
proof -
  have names: "lower (strip ''new_lock'') = ''new_lock''" "lower (strip ''new_authorization'') = ''new_authorization''"
    "lower (strip ''new_task'') = ''new_task''" "lower (strip ''new_settlement'') = ''new_settlement''"
    by code_simp+
  from assms have "runtime_consistent rt'" by (rule safety.reach_keeps)
  moreover from this have "switch_consistent (switch_of (rt_state rt'))" by (simp add: runtime_consistent_def)
  ultimately show ?thesis
    by (simp add: switch_consistent_def switch_of_def operation_blocked_def Let_def names)
qed

text \<open>A breach of the anchor stops the money paths and survives a restart: the audit fails with 503,
  every operation but the release of unused capacity is blocked, and once the switch is stored a new
  process that reloads it blocks the same operations.\<close>

lemma anchor_breach_survives_restart:
  assumes "total_bill > total_locked + ANCHOR_EPSILON"
    and "audit_capacity_anchor_and_maybe_trip now True actor total_locked total_bill rt = (res, rt')"
    and "rt'' = snd (hydrate_runtime_safety_mode True (rt'\<lparr>rt_state := initial_safety_state\<rparr>))"
  shows "(\<exists>msg. res = Inl (HTTPException 503 msg))
    \<and> (operation_blocked op (rt_state rt') \<longleftrightarrow> lower (strip op) \<noteq> ''release_unused_capacity'')
    \<and> operation_blocked op (rt_state rt'') = operation_blocked op (rt_state rt')"
proof -
  let ?s = "(rt_state rt)\<lparr>rs_last_anchor_audit_at := Some now, rs_total_locked_usdc := total_locked,
                rs_total_bill_credits := total_bill\<rparr>"
  let ?t = "set_runtime_safety_mode now True (Some DEFAULT_ANCHOR_BREACH_REASON) actor ?s"
  have rt': "rt_state rt' = ?t" "rt_row rt' = Some (row_of_switch now ?t)"
    and res: "\<exists>msg. res = Inl (HTTPException 503 msg)"
    using assms(1,2)
    by (auto simp: audit_capacity_anchor_and_maybe_trip_def Let_def set_runtime_safety_mode_persisted_def
        persist_runtime_safety_mode_def)
  have "switch_of (rt_state rt'') = switch_of ?t"
    unfolding assms(3) by (simp add: hydrate_switch rt')
  then have "operation_blocked op (rt_state rt'') = operation_blocked op ?t" by (rule blocked_depends_on_switch)
  then show ?thesis using res by (simp only: rt'(1) all_blocked_when_tripped simp_thms)
qed

text \<open>A brake that is pulled after a manual release reports the release: it keeps the time of the
  release as the time it was triggered, and without a reason of its own it carries the reason of the
  release.\<close>

lemma brake_reports_previous_release:
  "rs_triggered_at (set_runtime_safety_mode t2 True None actor
      (set_runtime_safety_mode t1 False None admin s)) = Some t1
   \<and> rs_reason (set_runtime_safety_mode t2 True None actor
      (set_runtime_safety_mode t1 False None admin s)) = Some ''safety mode disabled''"
  by (simp add: set_runtime_safety_mode_def or_str_def)

end
