(* ===== verification/Capacity_Ledger.thy ===== *)
theory Capacity_Ledger
  imports Runtime_Safety
begin

text \<open>
  The capacity ledger: one row of bill credits per identity (\<^verbatim>\<open>db/models/orm.py\<close>), the guarded relative
  updates of \<^verbatim>\<open>services/atomic_ledger.py\<close>, the conservation rules and their repair
  (\<^verbatim>\<open>services/capacity_ledger.py\<close>), and the operations that move credits: lock and release
  (\<^verbatim>\<open>api/routes/capacity.py\<close>), dispute freeze, resolution and release of a freeze
  (\<^verbatim>\<open>services/capacity_resolution.py\<close>, \<^verbatim>\<open>api/routes/settlement.py\<close>).

  A table is the list of its rows. An UPDATE is one step on the table, as the database runs it. What
  an operation read before its UPDATE is a separate argument \<open>cap\<close>: other sessions may have changed the
  row in between, so the theorems hold for every such snapshot. An operation that raises leaves the
  table as it was, since the session is rolled back; the brake keeps its change, since it is stored
  in a session of its own. Amounts are exact rationals, so the rounding of floating point sums is not
  covered.
\<close>

section \<open>Rows and guarded updates\<close>

record CapacityModel =
  cap_identity_id :: string
  cap_profile_id :: "string option"
  total_locked_usdc :: rat
  total_bill_credits :: rat
  available_credits :: rat
  reserved_credits :: rat
  in_progress_credits :: rat
  confirmed_progress_credits :: rat
  disputed_credits :: rat
  pending_settlement_credits :: rat
  burned_credits :: rat
  released_credits :: rat
  cap_updated_at :: int

text \<open>The columns that may be changed relatively (\<^verbatim>\<open>_BALANCE_FIELDS\<close>); \<^verbatim>\<open>allocated_credits\<close> belongs to
  the table of role profiles.\<close>

datatype balance_field =
    Total_locked_usdc | Total_bill_credits | Available_credits | Reserved_credits | In_progress_credits
  | Confirmed_progress_credits | Disputed_credits | Pending_settlement_credits | Burned_credits
  | Released_credits

definition add_balance :: "balance_field \<times> rat \<Rightarrow> CapacityModel \<Rightarrow> CapacityModel" where
  "add_balance = (\<lambda>(f, d) r. case f of
     Total_locked_usdc \<Rightarrow> r\<lparr>total_locked_usdc := total_locked_usdc r + d\<rparr>
   | Total_bill_credits \<Rightarrow> r\<lparr>total_bill_credits := total_bill_credits r + d\<rparr>
   | Available_credits \<Rightarrow> r\<lparr>available_credits := available_credits r + d\<rparr>
   | Reserved_credits \<Rightarrow> r\<lparr>reserved_credits := reserved_credits r + d\<rparr>
   | In_progress_credits \<Rightarrow> r\<lparr>in_progress_credits := in_progress_credits r + d\<rparr>
   | Confirmed_progress_credits \<Rightarrow> r\<lparr>confirmed_progress_credits := confirmed_progress_credits r + d\<rparr>
   | Disputed_credits \<Rightarrow> r\<lparr>disputed_credits := disputed_credits r + d\<rparr>
   | Pending_settlement_credits \<Rightarrow> r\<lparr>pending_settlement_credits := pending_settlement_credits r + d\<rparr>
   | Burned_credits \<Rightarrow> r\<lparr>burned_credits := burned_credits r + d\<rparr>
   | Released_credits \<Rightarrow> r\<lparr>released_credits := released_credits r + d\<rparr>)"

text \<open>\<^verbatim>\<open>UPDATE ... WHERE\<close>: the number of rows matched and the table after it.\<close>

definition update_where :: "('r \<Rightarrow> bool) \<Rightarrow> ('r \<Rightarrow> 'r) \<Rightarrow> 'r list \<Rightarrow> nat \<times> 'r list" where
  "update_where p f rows = (length (filter p rows), map (\<lambda>r. if p r then f r else r) rows)"

definition find_capacity :: "string \<Rightarrow> CapacityModel list \<Rightarrow> CapacityModel option" where
  "find_capacity identity rows = find (\<lambda>r. cap_identity_id r = identity) rows"

definition set_profile :: "string option \<Rightarrow> CapacityModel \<Rightarrow> CapacityModel" where
  "set_profile profile r = (case profile of None \<Rightarrow> r | Some p \<Rightarrow> if p = [] then r else r\<lparr>cap_profile_id := Some p\<rparr>)"

definition apply_delta ::
  "int \<Rightarrow> string \<Rightarrow> (balance_field \<times> rat) list \<Rightarrow> (CapacityModel \<Rightarrow> bool) list \<Rightarrow> string option \<Rightarrow>
   CapacityModel list \<Rightarrow> nat \<times> CapacityModel list" where
  "apply_delta now key deltas guards profile rows =
     update_where (\<lambda>r. cap_identity_id r = key \<and> list_all (\<lambda>g. g r) guards)
       (\<lambda>r. (set_profile profile (fold add_balance deltas r))\<lparr>cap_updated_at := now\<rparr>) rows"

datatype LedgerConflict = LedgerConflict string

definition apply_delta_or_raise ::
  "int \<Rightarrow> string \<Rightarrow> (balance_field \<times> rat) list \<Rightarrow> (CapacityModel \<Rightarrow> bool) list \<Rightarrow> string option \<Rightarrow> string \<Rightarrow>
   CapacityModel list \<Rightarrow> LedgerConflict + CapacityModel list" where
  "apply_delta_or_raise now key deltas guards profile message rows =
     (case apply_delta now key deltas guards profile rows of
        (n, rows') \<Rightarrow> if n \<noteq> 1 then Inl (LedgerConflict message) else Inr rows')"

definition zero_capacity :: "int \<Rightarrow> string \<Rightarrow> CapacityModel" where
  "zero_capacity now identity =
     \<lparr>cap_identity_id = identity, cap_profile_id = None, total_locked_usdc = 0, total_bill_credits = 0,
      available_credits = 0, reserved_credits = 0, in_progress_credits = 0, confirmed_progress_credits = 0,
      disputed_credits = 0, pending_settlement_credits = 0, burned_credits = 0, released_credits = 0,
      cap_updated_at = now\<rparr>"

definition ensure_row :: "int \<Rightarrow> string \<Rightarrow> CapacityModel list \<Rightarrow> CapacityModel list" where
  "ensure_row now key rows =
     (if find_capacity key rows \<noteq> None then rows else rows @ [zero_capacity now key])"

definition responsibility_snapshot_guards :: "CapacityModel \<Rightarrow> (CapacityModel \<Rightarrow> bool) list" where
  "responsibility_snapshot_guards snapshot =
     [\<lambda>r. reserved_credits r = reserved_credits snapshot,
      \<lambda>r. in_progress_credits r = in_progress_credits snapshot,
      \<lambda>r. confirmed_progress_credits r = confirmed_progress_credits snapshot,
      \<lambda>r. disputed_credits r = disputed_credits snapshot,
      \<lambda>r. pending_settlement_credits r = pending_settlement_credits snapshot]"

section \<open>Conservation and repair\<close>

definition EPSILON :: rat where "EPSILON = 1 / 10 ^ 9"

definition active_credits :: "CapacityModel \<Rightarrow> rat" where
  "active_credits r =
     available_credits r + reserved_credits r + in_progress_credits r + confirmed_progress_credits r
     + disputed_credits r + pending_settlement_credits r"

definition responsibility_credits :: "CapacityModel \<Rightarrow> rat" where
  "responsibility_credits r =
     reserved_credits r + in_progress_credits r + confirmed_progress_credits r + disputed_credits r
     + pending_settlement_credits r"

definition assert_can_release_locked_funds :: "CapacityModel \<Rightarrow> rat \<Rightarrow> string + unit" where
  "assert_can_release_locked_funds r amount =
     (if amount \<le> 0 then Inl ''release amount must be > 0''
      else if available_credits r + EPSILON < amount then Inl ''insufficient available credits''
      else if responsibility_credits r > EPSILON
        then Inl ''cannot release locked funds while bill credits hold active responsibility''
      else Inr ())"

definition assert_capacity_invariants :: "CapacityModel \<Rightarrow> string + unit" where
  "assert_capacity_invariants r =
     (if \<bar>total_bill_credits r - active_credits r\<bar> > EPSILON
        then Inl ''capacity invariant violated: total_bill_credits != active credit sum''
      else if total_locked_usdc r + EPSILON < active_credits r
        then Inl ''capacity invariant violated: locked usdc below active credits''
      else Inr ())"

definition capacity_conservation_gap :: "CapacityModel \<Rightarrow> (rat \<times> rat \<times> rat) option" where
  "capacity_conservation_gap r =
     (if \<bar>total_bill_credits r - active_credits r\<bar> \<le> EPSILON \<and> total_locked_usdc r + EPSILON \<ge> active_credits r
      then None else Some (active_credits r, total_bill_credits r, total_locked_usdc r))"

definition heal_row :: "int \<Rightarrow> CapacityModel \<Rightarrow> CapacityModel" where
  "heal_row now r =
     r\<lparr>total_bill_credits := active_credits r,
       total_locked_usdc := (if total_locked_usdc r > active_credits r then total_locked_usdc r else active_credits r),
       cap_updated_at := now\<rparr>"

definition heal_capacity_conservation ::
  "int \<Rightarrow> string \<Rightarrow> CapacityModel list \<Rightarrow> (rat \<times> rat \<times> rat) option \<times> CapacityModel list" where
  "heal_capacity_conservation now identity rows =
     (case find_capacity identity rows of
        None \<Rightarrow> (None, rows)
      | Some row \<Rightarrow>
          (case capacity_conservation_gap row of
             None \<Rightarrow> (None, rows)
           | Some gap \<Rightarrow> (Some gap, snd (update_where (\<lambda>r. cap_identity_id r = identity) (heal_row now) rows))))"

text \<open>\<^verbatim>\<open>_assert_capacity_after_write\<close> with the check \<^verbatim>\<open>_assert_capacity\<close>.\<close>

definition assert_capacity :: "CapacityModel option \<Rightarrow> http_error + unit" where
  "assert_capacity cap =
     (case cap of
        None \<Rightarrow> Inl (HTTPException 500 ''capacity invariant check failed'')
      | Some r \<Rightarrow>
          (case assert_capacity_invariants r of
             Inl e \<Rightarrow> Inl (HTTPException 500 ''capacity invariant check failed'')
           | Inr u \<Rightarrow> Inr ()))"

definition assert_capacity_after_write ::
  "int \<Rightarrow> string \<Rightarrow> CapacityModel list \<Rightarrow> http_error + CapacityModel list" where
  "assert_capacity_after_write now identity rows =
     (let rows' = (case find_capacity identity rows of
                     None \<Rightarrow> rows
                   | Some r \<Rightarrow> if capacity_conservation_gap r \<noteq> None
                              then snd (heal_capacity_conservation now identity rows) else rows)
      in case assert_capacity (find_capacity identity rows') of Inl e \<Rightarrow> Inl e | Inr u \<Rightarrow> Inr rows')"

section \<open>Operations\<close>

type_synonym ledger_result = "(http_error + CapacityModel list) \<times> Runtime"

text \<open>The audit of the anchor over the table, before the rest of an operation.\<close>

definition audited_then ::
  "int \<Rightarrow> bool \<Rightarrow> CapacityModel list \<Rightarrow> Runtime \<Rightarrow> (Runtime \<Rightarrow> ledger_result) \<Rightarrow> ledger_result" where
  "audited_then now stored rows rt k =
     (case audit_capacity_anchor_and_maybe_trip now stored (Some ''system'')
             (sum_list (map total_locked_usdc rows)) (sum_list (map total_bill_credits rows)) rt of
        (Inl e, rt') \<Rightarrow> (Inl e, rt')
      | (Inr u, rt') \<Rightarrow> k rt')"

text \<open>The validation and the audit that end the routes.\<close>

definition validated ::
  "int \<Rightarrow> bool \<Rightarrow> string \<Rightarrow> CapacityModel list \<Rightarrow> Runtime \<Rightarrow> ledger_result" where
  "validated now stored identity rows rt =
     (case assert_capacity (find_capacity identity rows) of
        Inl e \<Rightarrow> (Inl e, rt)
      | Inr u \<Rightarrow> audited_then now stored rows rt (\<lambda>rt'. (Inr rows, rt')))"

text \<open>The routes take the outcome \<open>auth\<close> of the path and party checks, the limits of the settings,
  and the amount and profile of the body.\<close>

definition lock_usdc ::
  "int \<Rightarrow> bool \<Rightarrow> http_error + unit \<Rightarrow> rat \<Rightarrow> rat \<Rightarrow> string \<Rightarrow> rat \<Rightarrow> string option \<Rightarrow>
   CapacityModel list \<Rightarrow> Runtime \<Rightarrow> ledger_result" where
  "lock_usdc now stored auth escrow_min escrow_max identity amount profile rows rt =
     (if amount \<le> 0 then (Inl (HTTPException 422 ''amount''), rt)
      else case auth of Inl e \<Rightarrow> (Inl e, rt) | Inr u \<Rightarrow>
      case assert_runtime_operation_allowed ''new_lock'' (rt_state rt) of Inl e \<Rightarrow> (Inl e, rt) | Inr u \<Rightarrow>
      if amount < escrow_min then (Inl (HTTPException 422 ''amount below minimum''), rt)
      else if amount > escrow_max then (Inl (HTTPException 422 ''amount exceeds maximum''), rt)
      else audited_then now stored rows rt (\<lambda>rt'.
        let (n, rows') = apply_delta now identity
              [(Total_locked_usdc, amount), (Total_bill_credits, amount), (Available_credits, amount)]
              [] profile (ensure_row now identity rows)
        in if n \<noteq> 1 then (Inl (HTTPException 409 ''capacity row missing; lock was not credited''), rt')
           else validated now stored identity rows' rt'))"

definition release_unused ::
  "int \<Rightarrow> bool \<Rightarrow> http_error + unit \<Rightarrow> CapacityModel option \<Rightarrow> string \<Rightarrow> rat \<Rightarrow> string option \<Rightarrow>
   CapacityModel list \<Rightarrow> Runtime \<Rightarrow> ledger_result" where
  "release_unused now stored auth cap identity amount profile rows rt =
     (if amount \<le> 0 then (Inl (HTTPException 422 ''amount''), rt)
      else case auth of Inl e \<Rightarrow> (Inl e, rt) | Inr u \<Rightarrow>
      case assert_runtime_operation_allowed ''release_unused_capacity'' (rt_state rt) of
        Inl e \<Rightarrow> (Inl e, rt)
      | Inr u \<Rightarrow> audited_then now stored rows rt (\<lambda>rt'.
          case cap of
            None \<Rightarrow> (Inl (HTTPException 404 ''Capacity not found''), rt')
          | Some before \<Rightarrow>
              (case assert_can_release_locked_funds before amount of
                 Inl e \<Rightarrow> (Inl (HTTPException 409 e), rt')
               | Inr v \<Rightarrow>
                   (case apply_delta_or_raise now identity
                           [(Available_credits, - amount), (Total_bill_credits, - amount),
                            (Total_locked_usdc, - amount), (Released_credits, amount)]
                           ([\<lambda>r. available_credits r \<ge> amount, \<lambda>r. total_bill_credits r \<ge> amount,
                             \<lambda>r. total_locked_usdc r \<ge> amount] @ responsibility_snapshot_guards before)
                           profile ''release rejected: insufficient balance or concurrent change'' rows of
                      Inl (LedgerConflict m) \<Rightarrow> (Inl (HTTPException 409 m), rt')
                    | Inr rows' \<Rightarrow> validated now stored identity rows' rt'))))"

definition checked_and_audited ::
  "int \<Rightarrow> bool \<Rightarrow> string \<Rightarrow> CapacityModel list \<Rightarrow> Runtime \<Rightarrow> ledger_result" where
  "checked_and_audited now stored identity rows rt =
     (case assert_capacity_after_write now identity rows of
        Inl e \<Rightarrow> (Inl e, rt)
      | Inr rows' \<Rightarrow> audited_then now stored rows' rt (\<lambda>rt'. (Inr rows', rt')))"

definition move_reserved_to_disputed ::
  "int \<Rightarrow> bool \<Rightarrow> CapacityModel option \<Rightarrow> string \<Rightarrow> rat \<Rightarrow> CapacityModel list \<Rightarrow> Runtime \<Rightarrow> ledger_result" where
  "move_reserved_to_disputed now stored cap buyer escrow rows rt =
     (case cap of
        None \<Rightarrow> (Inl (HTTPException 409 ''buyer has no capacity ledger; cannot open dispute''), rt)
      | Some c \<Rightarrow>
          if reserved_credits c + EPSILON < escrow
          then (Inl (HTTPException 409 ''insufficient reserved credits to freeze for dispute''), rt)
          else case apply_delta_or_raise now buyer [(Reserved_credits, - escrow), (Disputed_credits, escrow)]
                      [\<lambda>r. reserved_credits r + EPSILON \<ge> escrow] None
                      ''insufficient reserved credits to freeze for dispute'' rows of
                 Inl (LedgerConflict m) \<Rightarrow> (Inl (HTTPException 409 m), rt)
               | Inr rows' \<Rightarrow> checked_and_audited now stored buyer rows' rt)"

definition resolution_deltas :: "rat \<Rightarrow> rat \<Rightarrow> rat \<Rightarrow> (balance_field \<times> rat) list" where
  "resolution_deltas escrow settled refunded =
     [(Burned_credits, settled), (Released_credits, refunded), (Total_bill_credits, - escrow),
      (Total_locked_usdc, - escrow)]"

definition resolution_guards :: "rat \<Rightarrow> (CapacityModel \<Rightarrow> bool) list" where
  "resolution_guards escrow =
     [\<lambda>r. total_bill_credits r + EPSILON \<ge> escrow, \<lambda>r. total_locked_usdc r + EPSILON \<ge> escrow]"

definition apply_capacity_resolution ::
  "int \<Rightarrow> bool \<Rightarrow> CapacityModel option \<Rightarrow> string \<Rightarrow> rat \<Rightarrow> rat \<Rightarrow> rat \<Rightarrow> CapacityModel list \<Rightarrow> Runtime \<Rightarrow> ledger_result" where
  "apply_capacity_resolution now stored cap buyer escrow settled refunded rows rt =
     (case cap of
        None \<Rightarrow> (Inr rows, rt)
      | Some c \<Rightarrow>
          if total_bill_credits c + EPSILON < escrow
          then (Inl (HTTPException 409 ''capacity total_bill_credits lower than settlement escrow amount''), rt)
          else if total_locked_usdc c + EPSILON < escrow
          then (Inl (HTTPException 409 ''capacity total_locked_usdc lower than settlement escrow amount''), rt)
          else
            let (n, rows1) = apply_delta now buyer (resolution_deltas escrow settled refunded @ [(Disputed_credits, - escrow)])
                  (resolution_guards escrow @ [\<lambda>r. disputed_credits r + EPSILON \<ge> escrow]) None rows
            in if n = 1 then checked_and_audited now stored buyer rows1 rt
               else let (m, rows2) = apply_delta now buyer (resolution_deltas escrow settled refunded @ [(Reserved_credits, - escrow)])
                          (resolution_guards escrow @ [\<lambda>r. reserved_credits r + EPSILON \<ge> escrow]) None rows
                    in if m = 1 then checked_and_audited now stored buyer rows2 rt
                       else (Inl (HTTPException 409
                              ''capacity: neither disputed_credits nor reserved_credits cover escrow amount''), rt))"

definition release_dispute_freeze ::
  "int \<Rightarrow> CapacityModel option \<Rightarrow> string \<Rightarrow> rat \<Rightarrow> bool \<Rightarrow> CapacityModel list \<Rightarrow>
   LedgerConflict + (rat \<times> CapacityModel list)" where
  "release_dispute_freeze now cap buyer escrow settled rows =
     (case cap of
        None \<Rightarrow> Inr (0, rows)
      | Some c \<Rightarrow>
          let held = min (max 0 escrow) (max 0 (disputed_credits c))
          in if held \<le> EPSILON then Inr (0, rows)
             else case apply_delta_or_raise now buyer
                         [(Disputed_credits, - held), (Total_bill_credits, - held), (Total_locked_usdc, - held),
                          (Burned_credits, if settled then held else 0),
                          (Released_credits, if settled then 0 else held)]
                         [\<lambda>r. disputed_credits r + EPSILON \<ge> held, \<lambda>r. total_bill_credits r + EPSILON \<ge> held,
                          \<lambda>r. total_locked_usdc r + EPSILON \<ge> held] None
                         ''disputed freeze changed concurrently; retry the release'' rows of
                    Inl e \<Rightarrow> Inl e
                  | Inr rows' \<Rightarrow> Inr (held, rows'))"

text \<open>\<^verbatim>\<open>_release_dispute_freeze_after_revert\<close>: a conflict is logged and swallowed.\<close>

definition release_dispute_freeze_after_revert ::
  "int \<Rightarrow> string \<Rightarrow> rat \<Rightarrow> CapacityModel list \<Rightarrow> CapacityModel list" where
  "release_dispute_freeze_after_revert now buyer amount rows =
     (if buyer = [] \<or> amount \<le> EPSILON then rows
      else case apply_delta_or_raise now buyer [(Disputed_credits, - amount), (Reserved_credits, amount)]
                  [\<lambda>r. disputed_credits r + EPSILON \<ge> amount] None
                  ''dispute freeze changed concurrently; retry'' rows of
             Inl e \<Rightarrow> rows
           | Inr rows' \<Rightarrow> rows')"

section \<open>Guarded updates keep the ledger in order\<close>

text \<open>A row is in order when both conservation rules hold within the tolerance, no bucket is below zero
  by more than the tolerance, and nothing negative was ever burned or released. The value of a row is
  what was deposited: what is still locked, what was paid out and what was handed back.\<close>

definition row_ok :: "CapacityModel \<Rightarrow> bool" where
  "row_ok r \<longleftrightarrow>
     \<bar>total_bill_credits r - active_credits r\<bar> \<le> EPSILON \<and> active_credits r \<le> total_locked_usdc r + EPSILON
     \<and> - EPSILON \<le> available_credits r \<and> - EPSILON \<le> reserved_credits r \<and> - EPSILON \<le> in_progress_credits r
     \<and> - EPSILON \<le> confirmed_progress_credits r \<and> - EPSILON \<le> disputed_credits r
     \<and> - EPSILON \<le> pending_settlement_credits r \<and> 0 \<le> burned_credits r \<and> 0 \<le> released_credits r"

definition row_value :: "CapacityModel \<Rightarrow> rat" where
  "row_value r = total_locked_usdc r + burned_credits r + released_credits r"

definition ledger_ok :: "CapacityModel list \<Rightarrow> bool" where
  "ledger_ok rows \<longleftrightarrow> distinct (map cap_identity_id rows) \<and> list_all row_ok rows"

definition ledger_value :: "CapacityModel list \<Rightarrow> rat" where
  "ledger_value rows = sum_list (map row_value rows)"

lemma EPSILON_pos: "0 < EPSILON"
  by (simp add: EPSILON_def)

lemma add_balance_simps [simp]:
  "add_balance (Total_locked_usdc, d) r = r\<lparr>total_locked_usdc := total_locked_usdc r + d\<rparr>"
  "add_balance (Total_bill_credits, d) r = r\<lparr>total_bill_credits := total_bill_credits r + d\<rparr>"
  "add_balance (Available_credits, d) r = r\<lparr>available_credits := available_credits r + d\<rparr>"
  "add_balance (Reserved_credits, d) r = r\<lparr>reserved_credits := reserved_credits r + d\<rparr>"
  "add_balance (In_progress_credits, d) r = r\<lparr>in_progress_credits := in_progress_credits r + d\<rparr>"
  "add_balance (Confirmed_progress_credits, d) r = r\<lparr>confirmed_progress_credits := confirmed_progress_credits r + d\<rparr>"
  "add_balance (Disputed_credits, d) r = r\<lparr>disputed_credits := disputed_credits r + d\<rparr>"
  "add_balance (Pending_settlement_credits, d) r = r\<lparr>pending_settlement_credits := pending_settlement_credits r + d\<rparr>"
  "add_balance (Burned_credits, d) r = r\<lparr>burned_credits := burned_credits r + d\<rparr>"
  "add_balance (Released_credits, d) r = r\<lparr>released_credits := released_credits r + d\<rparr>"
  by (simp_all add: add_balance_def)

lemma add_balance_identity [simp]: "cap_identity_id (add_balance x r) = cap_identity_id r"
  by (cases x; cases "fst x") auto

lemma fold_add_balance_identity [simp]: "cap_identity_id (fold add_balance ds r) = cap_identity_id r"
  by (induction ds arbitrary: r) auto

lemma stamp_row [simp]:
  "row_ok ((set_profile p r)\<lparr>cap_updated_at := now\<rparr>) = row_ok r"
  "row_value ((set_profile p r)\<lparr>cap_updated_at := now\<rparr>) = row_value r"
  "cap_identity_id (set_profile p r) = cap_identity_id r"
  by (simp_all add: set_profile_def row_ok_def row_value_def active_credits_def split: option.split)

text \<open>An update is safe when it keeps every row that passes its guards in order and adds \<open>d\<close> to its value.\<close>

definition safe_update :: "(balance_field \<times> rat) list \<Rightarrow> (CapacityModel \<Rightarrow> bool) list \<Rightarrow> rat \<Rightarrow> bool" where
  "safe_update deltas guards d \<longleftrightarrow>
     (\<forall>r. row_ok r \<longrightarrow> list_all (\<lambda>g. g r) guards \<longrightarrow>
        row_ok (fold add_balance deltas r) \<and> row_value (fold add_balance deltas r) = row_value r + d)"

lemma update_where_values:
  "(\<And>r. r \<in> set rows \<Longrightarrow> p r \<Longrightarrow> g (f r) = g r + d) \<Longrightarrow>
   sum_list (map g (snd (update_where p f rows))) = sum_list (map g rows) + of_nat (fst (update_where p f rows)) * d"
  for d :: rat
  by (induction rows) (auto simp: update_where_def algebra_simps)

lemma update_where_all:
  "list_all P rows \<Longrightarrow> (\<And>r. P r \<Longrightarrow> p r \<Longrightarrow> P (f r)) \<Longrightarrow> list_all P (snd (update_where p f rows))"
  by (auto simp: update_where_def list_all_iff)

lemma update_where_keys:
  "(\<And>r. g (f r) = g r) \<Longrightarrow> map g (snd (update_where p f rows)) = map g rows"
  by (simp add: update_where_def)

lemma apply_delta_safe:
  assumes "safe_update ds gs d" and "ledger_ok rows" and "apply_delta now key ds gs p rows = (n, rows')"
  shows "ledger_ok rows' \<and> ledger_value rows' = ledger_value rows + of_nat n * d"
proof -
  let ?p = "\<lambda>r. cap_identity_id r = key \<and> list_all (\<lambda>g. g r) gs"
  let ?f = "\<lambda>r. (set_profile p (fold add_balance ds r))\<lparr>cap_updated_at := now\<rparr>"
  from assms(3) have rows': "rows' = snd (update_where ?p ?f rows)" and n: "n = fst (update_where ?p ?f rows)"
    by (simp_all add: apply_delta_def)
  from assms(2) have ok: "list_all row_ok rows" and keys: "distinct (map cap_identity_id rows)"
    by (simp_all add: ledger_ok_def)
  have "list_all row_ok rows'" unfolding rows'
    by (rule update_where_all [OF ok]) (use assms(1) in \<open>simp add: safe_update_def\<close>)
  moreover have "map cap_identity_id rows' = map cap_identity_id rows" unfolding rows'
    by (rule update_where_keys) simp
  moreover have "ledger_value rows' = ledger_value rows + of_nat n * d" unfolding rows' n ledger_value_def
    by (rule update_where_values) (use assms(1) ok in \<open>auto simp: safe_update_def list_all_iff\<close>)
  ultimately show ?thesis using keys by (simp add: ledger_ok_def)
qed

lemma apply_delta_or_raise_safe:
  assumes "safe_update ds gs d" and "ledger_ok rows" and "apply_delta_or_raise now key ds gs p m rows = Inr rows'"
  shows "ledger_ok rows' \<and> ledger_value rows' = ledger_value rows + d"
  using apply_delta_safe [OF assms(1,2), of now key p] assms(3)
  by (auto simp: apply_delta_or_raise_def split: prod.splits if_splits)

subsection \<open>The updates of the operations are safe\<close>

lemmas safe_update_simps = safe_update_def row_ok_def row_value_def active_credits_def abs_le_iff

lemma safe_lock:
  "0 \<le> a \<Longrightarrow> safe_update [(Total_locked_usdc, a), (Total_bill_credits, a), (Available_credits, a)] [] a"
  by (auto simp: safe_update_simps)

lemma safe_release:
  "0 \<le> a \<Longrightarrow> safe_update [(Available_credits, - a), (Total_bill_credits, - a), (Total_locked_usdc, - a), (Released_credits, a)]
     ([\<lambda>r. available_credits r \<ge> a, \<lambda>r. total_bill_credits r \<ge> a, \<lambda>r. total_locked_usdc r \<ge> a] @ gs) 0"
  using EPSILON_pos by (auto simp: safe_update_simps)

lemma safe_freeze:
  "0 \<le> a \<Longrightarrow> safe_update [(Reserved_credits, - a), (Disputed_credits, a)] [\<lambda>r. reserved_credits r + EPSILON \<ge> a] 0"
  by (auto simp: safe_update_simps)

lemma safe_unfreeze:
  "0 \<le> a \<Longrightarrow> safe_update [(Disputed_credits, - a), (Reserved_credits, a)] [\<lambda>r. disputed_credits r + EPSILON \<ge> a] 0"
  by (auto simp: safe_update_simps)

lemma safe_resolution:
  assumes "0 \<le> s" "0 \<le> f" "s + f = e"
  shows "safe_update (resolution_deltas e s f @ [(Disputed_credits, - e)])
           (resolution_guards e @ [\<lambda>r. disputed_credits r + EPSILON \<ge> e]) 0"
    and "safe_update (resolution_deltas e s f @ [(Reserved_credits, - e)])
           (resolution_guards e @ [\<lambda>r. reserved_credits r + EPSILON \<ge> e]) 0"
  using assms by (auto simp: safe_update_simps resolution_deltas_def resolution_guards_def)

lemma safe_freeze_release:
  "0 \<le> h \<Longrightarrow>
   safe_update [(Disputed_credits, - h), (Total_bill_credits, - h), (Total_locked_usdc, - h),
       (Burned_credits, if settled then h else 0), (Released_credits, if settled then 0 else h)]
     [\<lambda>r. disputed_credits r + EPSILON \<ge> h, \<lambda>r. total_bill_credits r + EPSILON \<ge> h,
      \<lambda>r. total_locked_usdc r + EPSILON \<ge> h] 0"
  by (auto simp: safe_update_simps)

subsection \<open>The operations are safe\<close>

lemma row_ok_no_gap: "row_ok r \<Longrightarrow> capacity_conservation_gap r = None"
  by (simp add: row_ok_def capacity_conservation_gap_def)

lemma find_capacity_ok: "ledger_ok rows \<Longrightarrow> find_capacity identity rows = Some r \<Longrightarrow> row_ok r"
  by (auto simp: ledger_ok_def find_capacity_def find_Some_iff list_all_length)

lemma after_write_ok:
  "ledger_ok rows \<Longrightarrow> assert_capacity_after_write now identity rows = Inr rows' \<Longrightarrow> rows' = rows"
  using find_capacity_ok [of rows identity] row_ok_no_gap
  by (auto simp: assert_capacity_after_write_def Let_def split: option.splits sum.splits if_splits)

lemma audited_then_Inr:
  "audited_then now stored rows rt k = (Inr x, rt') \<Longrightarrow> \<exists>rt''. k rt'' = (Inr x, rt')"
  by (auto simp: audited_then_def split: prod.splits sum.splits)

lemma validated_Inr: "validated now stored identity rows rt = (Inr rows', rt') \<Longrightarrow> rows' = rows"
  by (auto simp: validated_def split: sum.splits dest!: audited_then_Inr)

lemma checked_and_audited_Inr:
  "ledger_ok rows \<Longrightarrow> checked_and_audited now stored identity rows rt = (Inr rows', rt') \<Longrightarrow> rows' = rows"
  by (auto simp: checked_and_audited_def split: sum.splits dest!: audited_then_Inr after_write_ok)

lemma ensure_row_ok: "ledger_ok rows \<Longrightarrow> ledger_ok (ensure_row now key rows)"
  using EPSILON_pos
  by (auto simp: ensure_row_def ledger_ok_def find_capacity_def find_None_iff row_ok_def zero_capacity_def active_credits_def)

lemma ensure_row_value [simp]: "ledger_value (ensure_row now key rows) = ledger_value rows"
  by (simp add: ensure_row_def ledger_value_def row_value_def zero_capacity_def)

lemma lock_usdc_safe:
  assumes "ledger_ok rows"
    and "lock_usdc now stored auth escrow_min escrow_max identity amount profile rows rt = (Inr rows', rt')"
  shows "0 < amount \<and> ledger_ok rows' \<and> ledger_value rows' = ledger_value rows + amount"
proof -
  let ?ds = "[(Total_locked_usdc, amount), (Total_bill_credits, amount), (Available_credits, amount)]"
  from assms(2) obtain rt2 where pos: "0 < amount"
    and "apply_delta now identity ?ds [] profile (ensure_row now identity rows) = (1, rows')"
    by (auto simp: lock_usdc_def split: sum.splits if_splits prod.splits dest!: audited_then_Inr validated_Inr)
  from apply_delta_safe [OF safe_lock ensure_row_ok [OF assms(1)] this(2)] pos show ?thesis by simp
qed

lemma release_unused_safe:
  assumes "ledger_ok rows" and "release_unused now stored auth cap identity amount profile rows rt = (Inr rows', rt')"
  shows "ledger_ok rows' \<and> ledger_value rows' = ledger_value rows"
proof -
  from assms(2) obtain before m where pos: "0 < amount" and step:
    "apply_delta_or_raise now identity
       [(Available_credits, - amount), (Total_bill_credits, - amount), (Total_locked_usdc, - amount), (Released_credits, amount)]
       ([\<lambda>r. available_credits r \<ge> amount, \<lambda>r. total_bill_credits r \<ge> amount,
         \<lambda>r. total_locked_usdc r \<ge> amount] @ responsibility_snapshot_guards before) profile m rows = Inr rows'"
    unfolding release_unused_def
    by (fastforce split: sum.splits if_splits option.splits LedgerConflict.splits dest!: audited_then_Inr validated_Inr)
  from apply_delta_or_raise_safe [OF safe_release assms(1) step] pos show ?thesis by simp
qed

lemma move_reserved_to_disputed_safe:
  assumes "ledger_ok rows" and "0 \<le> escrow"
    and "move_reserved_to_disputed now stored cap buyer escrow rows rt = (Inr rows', rt')"
  shows "ledger_ok rows' \<and> ledger_value rows' = ledger_value rows"
proof -
  from assms(3) obtain m rows1 where
    step: "apply_delta_or_raise now buyer [(Reserved_credits, - escrow), (Disputed_credits, escrow)]
             [\<lambda>r. reserved_credits r + EPSILON \<ge> escrow] None m rows = Inr rows1"
    and checked: "checked_and_audited now stored buyer rows1 rt = (Inr rows', rt')"
    by (auto simp: move_reserved_to_disputed_def split: sum.splits if_splits option.splits LedgerConflict.splits)
  from apply_delta_or_raise_safe [OF safe_freeze [OF assms(2)] assms(1) step]
    checked_and_audited_Inr [OF _ checked] show ?thesis by simp
qed

lemma apply_capacity_resolution_safe:
  assumes "ledger_ok rows" and "0 \<le> settled" "0 \<le> refunded" "settled + refunded = escrow"
    and "apply_capacity_resolution now stored cap buyer escrow settled refunded rows rt = (Inr rows', rt')"
  shows "ledger_ok rows' \<and> ledger_value rows' = ledger_value rows"
proof (cases cap)
  case None
  with assms show ?thesis by (simp add: apply_capacity_resolution_def)
next
  case (Some c)
  note safe = safe_resolution [OF assms(2-4)]
  from assms(5) Some obtain n rows1 where checked: "checked_and_audited now stored buyer rows1 rt = (Inr rows', rt')"
    and step: "apply_delta now buyer (resolution_deltas escrow settled refunded @ [(Disputed_credits, - escrow)])
         (resolution_guards escrow @ [\<lambda>r. disputed_credits r + EPSILON \<ge> escrow]) None rows = (n, rows1)
      \<or> apply_delta now buyer (resolution_deltas escrow settled refunded @ [(Reserved_credits, - escrow)])
         (resolution_guards escrow @ [\<lambda>r. reserved_credits r + EPSILON \<ge> escrow]) None rows = (n, rows1)"
    unfolding apply_capacity_resolution_def by (auto simp: Let_def split: prod.splits if_splits)
  from step have "ledger_ok rows1 \<and> ledger_value rows1 = ledger_value rows"
    using apply_delta_safe [OF safe(1) assms(1)] apply_delta_safe [OF safe(2) assms(1)] by auto
  with checked_and_audited_Inr [OF _ checked] show ?thesis by simp
qed

lemma release_dispute_freeze_safe:
  assumes "ledger_ok rows" and "release_dispute_freeze now cap buyer escrow settled rows = Inr (held, rows')"
  shows "ledger_ok rows' \<and> ledger_value rows' = ledger_value rows"
proof (cases cap)
  case None
  with assms show ?thesis by (simp add: release_dispute_freeze_def)
next
  case (Some c)
  define h where "h = min (max 0 escrow) (max 0 (disputed_credits c))"
  then have "0 \<le> h" by simp
  note safe = apply_delta_or_raise_safe [OF safe_freeze_release [OF this, of settled] assms(1)]
  from assms(2) show ?thesis unfolding release_dispute_freeze_def Some option.case Let_def h_def [symmetric]
    using assms(1) safe by (auto split: if_split_asm sum.split_asm)
qed

lemma release_after_revert_safe:
  assumes "ledger_ok rows"
  shows "ledger_ok (release_dispute_freeze_after_revert now buyer amount rows)
    \<and> ledger_value (release_dispute_freeze_after_revert now buyer amount rows) = ledger_value rows"
  using assms apply_delta_or_raise_safe [OF safe_unfreeze assms, of amount now buyer None] EPSILON_pos
  by (auto simp: release_dispute_freeze_after_revert_def split: sum.splits)

section \<open>Properties\<close>

lemma find_capacity_update:
  assumes "\<And>r. cap_identity_id (f r) = cap_identity_id r"
  shows "find_capacity j (snd (update_where (\<lambda>r. cap_identity_id r = i) f rows))
    = map_option (\<lambda>r. if i = j then f r else r) (find_capacity j rows)"
  using assms by (induction rows) (auto simp: update_where_def find_capacity_def)

lemma heal_row_conserved:
  "capacity_conservation_gap (heal_row now r) = None"
  "active_credits (heal_row now r) = active_credits r"
  "total_locked_usdc r \<le> total_locked_usdc (heal_row now r)"
  "cap_identity_id (heal_row now r) = cap_identity_id r"
  using EPSILON_pos by (auto simp: heal_row_def capacity_conservation_gap_def active_credits_def)

lemma assert_capacity_conserved: "capacity_conservation_gap r = None \<Longrightarrow> assert_capacity (Some r) = Inr ()"
  by (auto simp: assert_capacity_def assert_capacity_invariants_def capacity_conservation_gap_def split: if_splits)

text \<open>The check that follows a write never fails on a row that exists: it repairs the derived columns so
  that both conservation rules hold, keeps the credits of every bucket together, never lowers the
  locked amount, and does not touch the rows of other identities.\<close>

lemma repair_always_succeeds:
  assumes "find_capacity i rows = Some r"
  shows "\<exists>rows' r'. assert_capacity_after_write now i rows = Inr rows'
    \<and> find_capacity i rows' = Some r' \<and> capacity_conservation_gap r' = None
    \<and> active_credits r' = active_credits r \<and> total_locked_usdc r \<le> total_locked_usdc r'
    \<and> (\<forall>j. j \<noteq> i \<longrightarrow> find_capacity j rows' = find_capacity j rows)"
proof (cases "capacity_conservation_gap r")
  case None
  with assms show ?thesis
    by (intro exI [of _ rows] exI [of _ r]) (simp add: assert_capacity_after_write_def assert_capacity_conserved)
next
  case (Some g)
  let ?rows = "snd (update_where (\<lambda>r. cap_identity_id r = i) (heal_row now) rows)"
  have found: "find_capacity j ?rows = map_option (\<lambda>r. if i = j then heal_row now r else r) (find_capacity j rows)" for j
    by (rule find_capacity_update) (rule heal_row_conserved(4))
  then have "find_capacity i ?rows = Some (heal_row now r)" using assms by simp
  with Some assms have "assert_capacity_after_write now i rows = Inr ?rows"
    by (simp add: assert_capacity_after_write_def heal_capacity_conservation_def assert_capacity_conserved heal_row_conserved)
  then show ?thesis using found assms heal_row_conserved
    by (intro exI [of _ ?rows] exI [of _ "heal_row now r"]) (auto simp: option.map_ident)
qed

text \<open>A buyer with one task in dispute and another one accepted, each of the amount \<open>e\<close>.\<close>

definition two_tasks :: "string \<Rightarrow> rat \<Rightarrow> CapacityModel" where
  "two_tasks buyer e = (zero_capacity 0 buyer)\<lparr>total_locked_usdc := 2 * e, total_bill_credits := 2 * e,
     reserved_credits := e, disputed_credits := e\<rparr>"

text \<open>A resolution does not know which task it resolves: when the buyer has another task of the same
  amount in dispute, settling the undisputed task takes the frozen credits of the disputed one. When
  the chain later ends the dispute, the release of its freeze finds nothing and reports zero, and the
  credits of that task stay reserved.\<close>

lemma resolution_takes_foreign_freeze:
  assumes "EPSILON < e"
  shows "\<exists>r' rt'. apply_capacity_resolution now stored (Some (two_tasks b e)) b e e 0 [two_tasks b e] rt = (Inr [r'], rt')
    \<and> disputed_credits r' = 0 \<and> reserved_credits r' = e \<and> burned_credits r' = e
    \<and> release_dispute_freeze now' (Some r') b e settled [r'] = Inr (0, [r'])"
  using assms EPSILON_pos
  by (simp add: apply_capacity_resolution_def two_tasks_def zero_capacity_def apply_delta_def update_where_def
      resolution_deltas_def resolution_guards_def checked_and_audited_def assert_capacity_after_write_def
      find_capacity_def capacity_conservation_gap_def active_credits_def set_profile_def assert_capacity_def
      assert_capacity_invariants_def audited_then_def audit_capacity_anchor_and_maybe_trip_def
      ANCHOR_EPSILON_def release_dispute_freeze_def Let_def)

text \<open>No pause ever blocks the release of unused capacity, but a breach of the anchor does: whatever
  the amount, the row and the switch, the release fails with 503 while the credits of the table
  exceed the locked amount.\<close>

lemma breach_blocks_release:
  "operation_blocked ''release_unused_capacity'' (rt_state rt) = False
   \<and> (sum_list (map total_bill_credits rows) > sum_list (map total_locked_usdc rows) + ANCHOR_EPSILON \<longrightarrow> 0 < amount \<longrightarrow>
      (\<exists>msg. fst (release_unused now stored (Inr ()) cap identity amount profile rows rt) = Inl (HTTPException 503 msg)))"
proof -
  have "lower (strip ''release_unused_capacity'') = ''release_unused_capacity''" by code_simp
  then have "operation_blocked ''release_unused_capacity'' s = False" for s by (simp add: operation_blocked_def Let_def)
  then show ?thesis
    by (auto simp: release_unused_def assert_runtime_operation_allowed_def audited_then_def
        audit_capacity_anchor_and_maybe_trip_def Let_def)
qed

end
