(* ===== verification/Money.thy ===== *)
theory Money
  imports Complex_Main Prelude
begin

text \<open>
  Amounts of money: the single rounding to token units (\<^verbatim>\<open>services/settlement_amounts.py\<close>) and the
  ceiling on claimed value by progress (\<^verbatim>\<open>services/progress_curve.py\<close>). Python floats are rationals here: NaN, infinities and the rounding of
  binary floating point are outside the model, Python's own rounding to integers and to decimals is in it.
\<close>

section \<open>Python's rounding\<close>

text \<open>\<^verbatim>\<open>round(x)\<close>: to the nearest integer, ties to the even one; \<^verbatim>\<open>round(x, n)\<close> on the scaled value.\<close>

definition py_round :: "rat \<Rightarrow> int" where
  "py_round x =
     (let f = \<lfloor>x\<rfloor>; d = x - of_int f in
      if d < 1 / 2 then f else if d > 1 / 2 then f + 1 else if even f then f else f + 1)"

definition round_decimals :: "rat \<Rightarrow> nat \<Rightarrow> rat" where
  "round_decimals x n = of_int (py_round (x * 10 ^ n)) / 10 ^ n"

lemma py_round_cases: "py_round x = \<lfloor>x\<rfloor> \<and> x - of_int \<lfloor>x\<rfloor> \<le> 1 / 2 \<or> py_round x = \<lfloor>x\<rfloor> + 1 \<and> 1 / 2 \<le> x - of_int \<lfloor>x\<rfloor>"
  by (simp add: py_round_def Let_def)

lemma py_round_error: "\<bar>of_int (py_round x) - x\<bar> \<le> 1 / 2"
  using py_round_cases [of x] of_int_floor_le [of x] floor_correct [of x] by (auto simp: abs_le_iff)

lemma round_decimals_error: "\<bar>round_decimals x d - x\<bar> \<le> 1 / 2 / 10 ^ d"
proof -
  have "round_decimals x d - x = (of_int (py_round (x * 10 ^ d)) - x * 10 ^ d) / 10 ^ d"
    by (simp add: round_decimals_def field_simps)
  then have "\<bar>round_decimals x d - x\<bar> = \<bar>of_int (py_round (x * 10 ^ d)) - x * 10 ^ d\<bar> / 10 ^ d" by (simp add: abs_divide)
  also have "\<dots> \<le> 1 / 2 / 10 ^ d" by (rule divide_right_mono [OF py_round_error]) simp
  finally show ?thesis .
qed

lemma py_round_of_int [simp]: "py_round (of_int i) = i"
  by (simp add: py_round_def)

lemma py_round_mono:
  assumes "x \<le> y"
  shows "py_round x \<le> py_round y"
proof (cases "\<lfloor>x\<rfloor> = \<lfloor>y\<rfloor>")
  case True
  then show ?thesis using assms by (auto simp: py_round_def Let_def)
next
  case False
  then have "\<lfloor>x\<rfloor> + 1 \<le> \<lfloor>y\<rfloor>" using floor_mono [OF assms] by linarith
  then show ?thesis using py_round_cases [of x] py_round_cases [of y] by linarith
qed

lemma py_round_nonneg: "0 \<le> x \<Longrightarrow> 0 \<le> py_round x"
  using py_round_mono [of 0 x] py_round_of_int [of 0] by simp

lemma py_round_le: "x \<le> of_int i \<Longrightarrow> py_round x \<le> i"
  using py_round_mono [of x "of_int i"] by simp

section \<open>Amounts in token units\<close>

definition to_minor_units :: "nat \<Rightarrow> rat \<Rightarrow> int" where
  "to_minor_units decimals amount_usdc = py_round (amount_usdc * 10 ^ decimals)"

definition from_minor_units :: "nat \<Rightarrow> int \<Rightarrow> rat" where
  "from_minor_units decimals amount_minor = of_int amount_minor / 10 ^ decimals"

definition normalize_amount :: "nat \<Rightarrow> rat \<Rightarrow> rat" where
  "normalize_amount decimals amount_usdc = from_minor_units decimals (to_minor_units decimals amount_usdc)"

definition excess_decimals :: "nat \<Rightarrow> rat \<Rightarrow> bool" where
  "excess_decimals decimals amount_usdc \<longleftrightarrow>
     (let scaled = amount_usdc * 10 ^ decimals in 1 / 10 ^ 6 \<le> \<bar>scaled - of_int (py_round scaled)\<bar>)"

datatype amount_error = TooManyDecimals string nat

definition assert_token_precision :: "nat \<Rightarrow> rat \<Rightarrow> string \<Rightarrow> amount_error + unit" where
  "assert_token_precision decimals amount_usdc field =
     (if excess_decimals decimals amount_usdc then Inl (TooManyDecimals field decimals) else Inr ())"

definition split_amounts :: "nat \<Rightarrow> rat \<Rightarrow> rat \<Rightarrow> rat \<times> rat" where
  "split_amounts decimals escrow_amount settled_percent =
     (let escrow_minor = to_minor_units decimals escrow_amount;
          pct = max 0 (min 100 settled_percent);
          settled_minor0 = py_round (of_int escrow_minor * pct / 100);
          settled_minor = max 0 (min escrow_minor settled_minor0)
      in (from_minor_units decimals settled_minor, from_minor_units decimals (escrow_minor - settled_minor)))"

lemma to_from_minor [simp]: "to_minor_units d (from_minor_units d n) = n"
  by (simp add: to_minor_units_def from_minor_units_def)

lemma from_minor_add: "from_minor_units d a + from_minor_units d b = from_minor_units d (a + b)"
  by (simp add: from_minor_units_def add_divide_distrib)

lemma from_minor_mono: "from_minor_units d a \<le> from_minor_units d b \<longleftrightarrow> a \<le> b"
  by (simp add: from_minor_units_def divide_le_cancel)

lemma from_minor_zero [simp]: "from_minor_units d 0 = 0"
  by (simp add: from_minor_units_def)

text \<open>The settled part in token units.\<close>

definition settled_minor :: "int \<Rightarrow> rat \<Rightarrow> int" where
  "settled_minor m p = max 0 (min m (py_round (of_int m * max 0 (min 100 p) / 100)))"

lemma split_amounts_settled:
  "split_amounts d e p = (from_minor_units d (settled_minor (to_minor_units d e) p),
     from_minor_units d (to_minor_units d e - settled_minor (to_minor_units d e) p))"
  by (simp add: split_amounts_def settled_minor_def Let_def)

lemma settled_minor_exact:
  assumes "0 \<le> m"
  shows "settled_minor m p = py_round (of_int m * max 0 (min 100 p) / 100)"
proof -
  let ?q = "max 0 (min 100 p)" and ?x = "of_int m * max 0 (min 100 p) / (100 :: rat)"
  have q: "0 \<le> ?q" "?q \<le> 100" by simp_all
  have "0 \<le> ?x" using assms q by (intro divide_nonneg_pos mult_nonneg_nonneg) simp_all
  moreover have "?x \<le> of_int m * 100 / 100" using assms q by (intro divide_right_mono mult_left_mono) simp_all
  ultimately have "0 \<le> py_round ?x" "py_round ?x \<le> m" by (simp_all add: py_round_nonneg py_round_le)
  then show ?thesis by (simp add: settled_minor_def)
qed

lemma settled_minor_bounds: "0 \<le> m \<Longrightarrow> 0 \<le> settled_minor m p \<and> settled_minor m p \<le> m"
  by (simp add: settled_minor_def)

lemma settled_minor_mono:
  assumes "0 \<le> m" "p \<le> p'"
  shows "settled_minor m p \<le> settled_minor m p'"
proof -
  have "max 0 (min 100 p) \<le> max 0 (min 100 p')" using assms(2) by linarith
  then show ?thesis unfolding settled_minor_exact [OF assms(1)] using assms(1)
    by (intro py_round_mono divide_right_mono mult_left_mono) simp_all
qed

section \<open>The progress curve\<close>

text \<open>
  A rule spec is absent or empty, linear, piecewise with its raw points, or of another type. Points are
  lists of numbers, as they come from JSON.
\<close>

datatype rule_spec = NoSpec | Linear | Piecewise "rat list list option" | OtherType string

datatype curve_error = UnsupportedType | PointsRequired | BadPoint | PointsDoNotCover | ClaimExceedsCeiling rat rat

fun read_points :: "rat list list \<Rightarrow> curve_error + (rat \<times> rat) list" where
  "read_points [] = Inr []"
| "read_points ([p, v] # items) = (case read_points items of Inl e \<Rightarrow> Inl e | Inr ps \<Rightarrow> Inr ((p, v) # ps))"
| "read_points (_ # items) = Inl BadPoint"

text \<open>The loop over the segments. When no segment applies, the value of the last point is returned.\<close>

fun segment_value :: "(rat \<times> rat) list \<Rightarrow> rat \<Rightarrow> rat" where
  "segment_value ((p0, v0) # (p1, v1) # ps) pp =
     (if p0 \<le> pp \<and> pp \<le> p1 \<or> ps = [] \<and> \<bar>pp - p1\<bar> < 1 / 10 ^ 9 then
        (if \<bar>p1 - p0\<bar> < 1 / 10 ^ 12 then max v0 v1
         else v0 + (pp - p0) / (p1 - p0) * (v1 - v0))
      else segment_value ((p1, v1) # ps) pp)"
| "segment_value [(p, v)] pp = v"
| "segment_value [] pp = 0"

definition max_allowed_claimed_value_percent :: "rat \<Rightarrow> rule_spec \<Rightarrow> curve_error + rat" where
  "max_allowed_claimed_value_percent progress_percent spec =
     (case spec of
        NoSpec \<Rightarrow> Inr progress_percent
      | Linear \<Rightarrow> Inr progress_percent
      | OtherType t \<Rightarrow> Inl UnsupportedType
      | Piecewise None \<Rightarrow> Inl PointsRequired
      | Piecewise (Some raw_points) \<Rightarrow>
          if length raw_points < 2 then Inl PointsRequired
          else case read_points raw_points of Inl e \<Rightarrow> Inl e
            | Inr unsorted \<Rightarrow>
                let points = sort_key fst unsorted in
                if fst (hd points) > 1 / 10 ^ 9 \<or> fst (last points) < 100 - 1 / 10 ^ 9 then Inl PointsDoNotCover
                else Inr (segment_value points (max 0 (min 100 progress_percent))))"

definition validate_claimed_against_curve :: "rat \<Rightarrow> rat \<Rightarrow> rule_spec \<Rightarrow> curve_error + unit" where
  "validate_claimed_against_curve progress_percent claimed_value_percent spec =
     (case max_allowed_claimed_value_percent progress_percent spec of
        Inl e \<Rightarrow> Inl e
      | Inr limit \<Rightarrow>
          if claimed_value_percent - 1 / 10 ^ 6 > limit
          then Inl (ClaimExceedsCeiling claimed_value_percent limit) else Inr ())"

text \<open>Points in ascending order of progress and of value.\<close>

definition ascending :: "(rat \<times> rat) list \<Rightarrow> bool" where
  "ascending ps \<longleftrightarrow> sorted (map fst ps) \<and> sorted (map snd ps)"

lemma ascending_Cons2 [simp]:
  "ascending ((p0, v0) # (p1, v1) # ps) \<longleftrightarrow> p0 \<le> p1 \<and> v0 \<le> v1 \<and> ascending ((p1, v1) # ps)"
  by (auto simp: ascending_def)

lemma interpolate_mono:
  "p0 < p1 \<Longrightarrow> v0 \<le> v1 \<Longrightarrow> x \<le> y \<Longrightarrow> v0 + (x - p0) / (p1 - p0) * (v1 - v0) \<le> v0 + (y - p0) / (p1 - p0) * (v1 - (v0 :: rat))"
  by (intro add_left_mono mult_right_mono divide_right_mono) simp_all

text \<open>On a segment that contains the progress the value lies between the two ends.\<close>

lemma segment_between:
  assumes "p0 \<le> x" "x \<le> p1" "v0 \<le> v1"
  shows "v0 \<le> segment_value ((p0, v0) # (p1, v1) # ps) x \<and> segment_value ((p0, v0) # (p1, v1) # ps) x \<le> v1"
proof (cases "\<bar>p1 - p0\<bar> < 1 / 10 ^ 12")
  case True
  then show ?thesis using assms by simp
next
  case False
  then have lt: "p0 < p1" using assms by auto
  have "v0 + (p0 - p0) / (p1 - p0) * (v1 - v0) \<le> v0 + (x - p0) / (p1 - p0) * (v1 - v0)"
    "v0 + (x - p0) / (p1 - p0) * (v1 - v0) \<le> v0 + (p1 - p0) / (p1 - p0) * (v1 - v0)"
    using assms by (intro interpolate_mono [OF lt]; simp)+
  then show ?thesis using False assms lt by simp
qed

lemma segment_skip:
  "p1 < x \<Longrightarrow> ps \<noteq> [] \<Longrightarrow> segment_value ((p0, v0) # (p1, v1) # ps) x = segment_value ((p1, v1) # ps) x"
  by simp

lemma segment_range:
  "ascending ((p, v) # ps) \<Longrightarrow> p \<le> x \<Longrightarrow> x \<le> fst (last ((p, v) # ps)) \<Longrightarrow>
   v \<le> segment_value ((p, v) # ps) x \<and> segment_value ((p, v) # ps) x \<le> snd (last ((p, v) # ps))"
proof (induction ps arbitrary: p v)
  case (Cons q ps)
  obtain p1 v1 where q: "q = (p1, v1)" by (cases q)
  have top: "v1 \<le> snd (last (q # ps))"
    using Cons.prems(1) unfolding q ascending_def by (cases "ps = []") (auto dest: last_in_set)
  show ?case
  proof (cases "x \<le> p1")
    case True
    then show ?thesis using segment_between [of p x p1 v v1 ps] Cons.prems top by (auto simp: q)
  next
    case False
    then have "ps \<noteq> []" using Cons.prems(3) by (auto simp: q)
    moreover have "v1 \<le> segment_value ((p1, v1) # ps) x \<and> segment_value ((p1, v1) # ps) x \<le> snd (last ((p1, v1) # ps))"
      using False Cons.prems by (intro Cons.IH) (auto simp: q)
    ultimately show ?thesis using False Cons.prems(1) by (auto simp: q segment_skip simp del: segment_value.simps)
  qed
qed simp

lemma segment_mono:
  "ascending ((p, v) # ps) \<Longrightarrow> p \<le> x \<Longrightarrow> x \<le> y \<Longrightarrow> y \<le> fst (last ((p, v) # ps)) \<Longrightarrow>
   segment_value ((p, v) # ps) x \<le> segment_value ((p, v) # ps) y"
proof (induction ps arbitrary: p v)
  case (Cons q ps)
  obtain p1 v1 where q: "q = (p1, v1)" by (cases q)
  have asc: "ascending ((p1, v1) # ps)" "p \<le> p1" "v \<le> v1" using Cons.prems(1) by (simp_all add: q)
  consider "y \<le> p1" | "x \<le> p1" "p1 < y" | "p1 < x" by linarith
  then show ?case
  proof cases
    case 1
    show ?thesis
    proof (cases "\<bar>p1 - p\<bar> < 1 / 10 ^ 12")
      case True
      then show ?thesis using 1 Cons.prems(2,3) by (simp add: q)
    next
      case False
      then have "p < p1" using asc by auto
      from interpolate_mono [OF this asc(3) Cons.prems(3)] show ?thesis
        using False 1 Cons.prems(2,3) by (simp add: q)
    qed
  next
    case 2
    then have ne: "ps \<noteq> []" using Cons.prems(4) by (auto simp: q)
    have "segment_value ((p, v) # q # ps) x \<le> v1"
      using segment_between [of p x p1 v v1 ps] 2 Cons.prems(2) asc by (simp only: q)
    also have "v1 \<le> segment_value ((p1, v1) # ps) y"
      using segment_range [OF asc(1), of y] 2 Cons.prems(4) ne by (simp add: q del: segment_value.simps)
    finally show ?thesis unfolding q segment_skip [OF 2(2) ne] .
  next
    case 3
    then have y: "p1 < y" using Cons.prems(3) by linarith
    then have ne: "ps \<noteq> []" using Cons.prems(4) by (auto simp: q)
    have "segment_value ((p1, v1) # ps) x \<le> segment_value ((p1, v1) # ps) y"
      using 3 Cons.prems(3,4) ne by (intro Cons.IH [OF asc(1)]) (simp_all add: q)
    then show ?thesis unfolding q segment_skip [OF 3 ne] segment_skip [OF y ne] .
  qed
qed simp

lemma read_points_map: "read_points (map (\<lambda>(p, v). [p, v]) ps) = Inr ps"
  by (induction ps) auto

section \<open>Properties\<close>

text \<open>C22. Splitting an escrow by percentage loses nothing: the settled and the refunded part add up
  exactly to the escrow in token units, neither is negative, the settled part is off from the exact
  share by at most half a token unit, and a higher percentage never settles less.\<close>

theorem split_amounts_exact:
  assumes "0 \<le> escrow" "split_amounts d escrow pct = (settled, refunded)"
    and "split_amounts d escrow pct' = (settled', refunded')" "pct \<le> pct'"
  shows "settled + refunded = normalize_amount d escrow \<and> 0 \<le> settled \<and> 0 \<le> refunded
    \<and> \<bar>settled - normalize_amount d escrow * max 0 (min 100 pct) / 100\<bar> \<le> 1 / (2 * 10 ^ d)
    \<and> settled \<le> settled'"
proof -
  let ?m = "to_minor_units d escrow" and ?q = "max 0 (min 100 pct)"
  have m: "0 \<le> ?m" using assms(1) by (simp add: to_minor_units_def py_round_nonneg)
  have s: "settled = from_minor_units d (settled_minor ?m pct)" "refunded = from_minor_units d (?m - settled_minor ?m pct)"
    "settled' = from_minor_units d (settled_minor ?m pct')"
    using assms(2,3) by (simp_all add: split_amounts_settled)
  have "settled - normalize_amount d escrow * ?q / 100 = (of_int (settled_minor ?m pct) - of_int ?m * ?q / 100) / 10 ^ d"
    by (simp add: s normalize_amount_def from_minor_units_def diff_divide_distrib)
  moreover have "\<bar>of_int (settled_minor ?m pct) - of_int ?m * ?q / 100\<bar> \<le> 1 / 2"
    unfolding settled_minor_exact [OF m] by (rule py_round_error)
  ultimately have "\<bar>settled - normalize_amount d escrow * ?q / 100\<bar> \<le> 1 / (2 * 10 ^ d)"
    by (simp add: abs_divide divide_right_mono flip: divide_divide_eq_left)
  moreover have "0 \<le> settled" "0 \<le> refunded"
    using settled_minor_bounds [OF m, of pct] by (simp_all add: s from_minor_units_def)
  moreover have "settled \<le> settled'" unfolding s from_minor_mono by (rule settled_minor_mono [OF m assms(4)])
  ultimately show ?thesis by (simp add: s from_minor_add normalize_amount_def)
qed

theorem split_amounts_exact_witness:
  "fst (split_amounts 6 (12345 / 1000) 50) + snd (split_amounts 6 (12345 / 1000) 50) = normalize_amount 6 (12345 / 1000)"
  using split_amounts_exact [of "12345 / 1000" 6 50 _ _ 100 _ _, OF _ prod.collapse [symmetric] prod.collapse [symmetric]]
  by simp

text \<open>An amount in token units survives the conversion to USDC and back, so aligning an amount is
  idempotent and moves it by at most half a token unit.\<close>

lemma minor_units_roundtrip:
  "to_minor_units d (from_minor_units d n) = n
   \<and> normalize_amount d (normalize_amount d x) = normalize_amount d x
   \<and> \<bar>normalize_amount d x - x\<bar> \<le> 1 / (2 * 10 ^ d)"
proof -
  have "normalize_amount d x = round_decimals x d"
    by (simp add: normalize_amount_def from_minor_units_def to_minor_units_def round_decimals_def)
  then have "\<bar>normalize_amount d x - x\<bar> \<le> 1 / 2 / 10 ^ d" by (simp only: round_decimals_error)
  then show ?thesis by (simp add: normalize_amount_def)
qed

text \<open>C34. The ceiling of a piecewise rule whose points ascend and cover the whole range is monotone in
  the progress and stays between the values of the first and the last point.\<close>

theorem curve_monotone_bounded:
  assumes "raw = map (\<lambda>(p, v). [p, v]) ps" "2 \<le> length ps" "ascending ps"
    and "fst (hd ps) \<le> 0" "100 \<le> fst (last ps)" "progress \<le> progress'"
  shows "\<exists>c c'. max_allowed_claimed_value_percent progress (Piecewise (Some raw)) = Inr c
    \<and> max_allowed_claimed_value_percent progress' (Piecewise (Some raw)) = Inr c'
    \<and> snd (hd ps) \<le> c \<and> c \<le> c' \<and> c' \<le> snd (last ps)"
proof -
  obtain p v qs where ps: "ps = (p, v) # qs" using assms(2) by (cases ps) auto
  have "sort_key fst ps = ps" using assms(3) by (simp add: ascending_def sorted_sort_id sort_key_id_if_sorted)
  then have c: "max_allowed_claimed_value_percent x (Piecewise (Some raw)) = Inr (segment_value ps (max 0 (min 100 x)))" for x
    using assms(1,2,4,5) by (simp add: max_allowed_claimed_value_percent_def read_points_map Let_def)
  let ?x = "max 0 (min 100 progress)" and ?y = "max 0 (min 100 progress')"
  have xy: "p \<le> ?x" "?x \<le> ?y" "?y \<le> fst (last ps)" using assms(4-6) by (auto simp: ps)
  have "segment_value ps ?x \<le> segment_value ps ?y"
    using segment_mono [of p v qs ?x ?y] assms(3) xy by (simp only: ps)
  moreover have "snd (hd ps) \<le> segment_value ps ?x" "segment_value ps ?y \<le> snd (last ps)"
    using segment_range [of p v qs ?x] segment_range [of p v qs ?y] assms(3) xy by (auto simp only: ps list.sel snd_conv)
  ultimately show ?thesis using c by blast
qed

theorem curve_monotone_bounded_witness:
  "\<exists>c c'. max_allowed_claimed_value_percent 20 (Piecewise (Some [[0, 0], [50, 80], [100, 100]])) = Inr c
    \<and> max_allowed_claimed_value_percent 60 (Piecewise (Some [[0, 0], [50, 80], [100, 100]])) = Inr c'
    \<and> 0 \<le> c \<and> c \<le> c' \<and> c' \<le> 100"
  using curve_monotone_bounded [of "[[0, 0], [50, 80], [100, 100]]" "[(0, 0), (50, 80), (100, 100)]" 20 60]
  by (simp add: ascending_def)

text \<open>The tolerance at the start of the range opens the curve: with a first point just above zero, a
  task without any progress may claim the value of the last point.\<close>

lemma zero_progress_claims_all:
  "validate_claimed_against_curve 0 100 (Piecewise (Some [[1 / 10 ^ 10, 0], [100, 100]])) = Inr ()"
  by (simp add: validate_claimed_against_curve_def max_allowed_claimed_value_percent_def)

end
