(* ===== verification/Responsibility_Graph.thy ===== *)
theory Responsibility_Graph
  imports Complex_Main Prelude
begin

text \<open>
  The responsibility graph (\<^verbatim>\<open>services/responsibility_graph.py\<close>): ingestion of an edge, once per hash and
  once per voucher, and the signals raised for it: a self loop, a reverse edge, and an authorization
  cycle found by a breadth-first search of bounded depth. The hash of an edge is SHA-256 over its JSON
  text with the numbers printed by the runtime; it is the argument \<open>edge_hash\<close>. A table is the list of
  its rows in the order of insertion. The scoring, reporting and batch-scan half of the module is not
  modelled.
\<close>

section \<open>Edges and signals\<close>

text \<open>The values of a metadata or payload dict.\<close>

datatype pyval = VNone | VStr string | VNum rat

type_synonym pydict = "(string \<times> pyval) list"

datatype ResponsibilityEdgeType = VOUCHER_ACCEPT | TASK_DELEGATION | MANUAL_LINK

record ResponsibilityEdge =
  re_edge_hash :: string
  re_source_identity_id :: string
  re_target_identity_id :: string
  re_edge_type :: ResponsibilityEdgeType
  re_task_id :: "string option"
  re_voucher_id :: "string option"
  re_metadata :: pydict
  re_created_at :: int

datatype ResponsibilitySignalType = DIRECT_LOOP | MUTUAL_EXCHANGE | CYCLE_AUTHORIZATION

datatype ResponsibilitySignalSeverity = INFO | MEDIUM | HIGH

record ResponsibilitySignal =
  rg_signal_type :: ResponsibilitySignalType
  rg_severity :: ResponsibilitySignalSeverity
  rg_identity_id :: string
  rg_edge_hash :: string
  rg_related_edge_hashes :: "string list"
  rg_task_id :: "string option"
  rg_detail :: string
  rg_created_at :: int

section \<open>The cycle search\<close>

text \<open>The edges that leave the node at the head of the queue: either the hashes of the path that
  reaches the target, or the entries to append to the queue.\<close>

fun scan_edges ::
  "string \<Rightarrow> string list \<Rightarrow> nat \<Rightarrow> ResponsibilityEdge list \<Rightarrow> string list + (string \<times> string list \<times> nat) list" where
  "scan_edges target path_hashes hops [] = Inr []"
| "scan_edges target path_hashes hops (edge # edges) =
     (let next_path = path_hashes @ [re_edge_hash edge]
      in if re_target_identity_id edge = target then Inl next_path
         else case scan_edges target path_hashes hops edges of
                Inl found \<Rightarrow> Inl found
              | Inr queue \<Rightarrow> Inr ((re_target_identity_id edge, next_path, hops + 1) # queue))"

definition leaving :: "ResponsibilityEdge list \<Rightarrow> string \<Rightarrow> ResponsibilityEdge list" where
  "leaving edges node = filter (\<lambda>e. re_source_identity_id e = node) edges"

function search ::
  "ResponsibilityEdge list \<Rightarrow> string \<Rightarrow> nat \<Rightarrow> (string \<times> string list \<times> nat) list \<Rightarrow> (string \<times> nat) list \<Rightarrow> string list" where
  "search edges target max_hops [] visited = []"
| "search edges target max_hops ((node, path_hashes, hops) # queue) visited =
     (if hops \<ge> max_hops \<or> (node, hops) \<in> set visited then search edges target max_hops queue visited
      else case scan_edges target path_hashes hops (leaving edges node) of
             Inl found \<Rightarrow> found
           | Inr found_next \<Rightarrow> search edges target max_hops (queue @ found_next) ((node, hops) # visited))"
  by pat_completeness auto

lemma scan_edges_Inr:
  "scan_edges target p h es = Inr found_next \<Longrightarrow>
   found_next = map (\<lambda>e. (re_target_identity_id e, p @ [re_edge_hash e], h + 1)) es
   \<and> (\<forall>e \<in> set es. re_target_identity_id e \<noteq> target)"
  by (induction es arbitrary: found_next) (auto simp: Let_def split: if_splits sum.splits)

lemma scan_edges_Inl:
  "scan_edges target p h es = Inl found \<Longrightarrow>
   \<exists>e \<in> set es. re_target_identity_id e = target \<and> found = p @ [re_edge_hash e]"
  by (induction es) (auto simp: Let_def split: if_splits sum.splits)

text \<open>Every turn either drops an entry of the queue or visits a new pair of a node and a depth.\<close>

definition open_keys ::
  "ResponsibilityEdge list \<Rightarrow> nat \<Rightarrow> (string \<times> string list \<times> nat) list \<Rightarrow> (string \<times> nat) list \<Rightarrow> (string \<times> nat) set" where
  "open_keys edges m queue visited =
     (fst ` set queue \<union> re_target_identity_id ` set edges \<union> fst ` set visited) \<times> {..<m} - set visited"

lemma finite_open_keys: "finite (open_keys edges m queue visited)"
  by (simp add: open_keys_def)

lemma open_keys_drop:
  "card (open_keys edges m queue visited) \<le> card (open_keys edges m (x # queue) visited)"
  by (rule card_mono [OF finite_open_keys]) (auto simp: open_keys_def)

lemma open_keys_visit:
  assumes "h < m" "(n, h) \<notin> set visited" "fst ` set found_next \<subseteq> re_target_identity_id ` set edges"
  shows "card (open_keys edges m (queue @ found_next) ((n, h) # visited)) < card (open_keys edges m ((n, p, h) # queue) visited)"
proof (rule psubset_card_mono [OF finite_open_keys])
  have "(n, h) \<in> open_keys edges m ((n, p, h) # queue) visited" using assms(1,2) by (auto simp: open_keys_def)
  moreover have "open_keys edges m (queue @ found_next) ((n, h) # visited) \<subseteq> open_keys edges m ((n, p, h) # queue) visited"
    using assms(3) by (auto simp: open_keys_def)
  moreover have "(n, h) \<notin> open_keys edges m (queue @ found_next) ((n, h) # visited)" by (simp add: open_keys_def)
  ultimately show "open_keys edges m (queue @ found_next) ((n, h) # visited) \<subset> open_keys edges m ((n, p, h) # queue) visited"
    by blast
qed

termination search
proof (relation "measures [\<lambda>(es, t, m, q, v). card (open_keys es m q v), \<lambda>(es, t, m, q, v). length q]",
    goal_cases)
  case 1
  show ?case by simp
next
  case (2 edges target m node path hops queue visited)
  show ?case using open_keys_drop [of edges m queue visited "(node, path, hops)"] by auto
next
  case (3 edges target m node path hops queue visited found_next)
  from scan_edges_Inr [OF 3(2)] have "fst ` set found_next \<subseteq> re_target_identity_id ` set edges"
    by (auto simp: leaving_def)
  with open_keys_visit [of hops m node visited found_next edges queue path] 3(1) show ?case by auto
qed

definition find_cycle_path_hashes :: "ResponsibilityEdge list \<Rightarrow> string \<Rightarrow> string \<Rightarrow> nat \<Rightarrow> string list" where
  "find_cycle_path_hashes edges start target max_hops =
     (if start = target then [] else search edges target max_hops [(start, [], 0)] [])"

section \<open>Signals and ingestion\<close>

text \<open>The newest row: \<^verbatim>\<open>ORDER BY created_at DESC LIMIT 1\<close>, the row inserted last among equals.\<close>

fun newest :: "ResponsibilityEdge list \<Rightarrow> ResponsibilityEdge option" where
  "newest [] = None"
| "newest (e # es) =
     (case newest es of None \<Rightarrow> Some e
      | Some f \<Rightarrow> if re_created_at e > re_created_at f then Some e else Some f)"

definition detect_signals :: "int \<Rightarrow> ResponsibilityEdge \<Rightarrow> ResponsibilityEdge list \<Rightarrow> ResponsibilitySignal list" where
  "detect_signals now edge edges =
     (let signal = (\<lambda>kind sev related detail.
            \<lparr>rg_signal_type = kind, rg_severity = sev, rg_identity_id = re_source_identity_id edge,
             rg_edge_hash = re_edge_hash edge, rg_related_edge_hashes = related, rg_task_id = re_task_id edge,
             rg_detail = detail, rg_created_at = now\<rparr>);
          loop = (if re_source_identity_id edge = re_target_identity_id edge
                  then [signal DIRECT_LOOP HIGH [re_edge_hash edge] ''source and target identities are identical'']
                  else []);
          mutual = (case newest (filter (\<lambda>e. re_source_identity_id e = re_target_identity_id edge
                              \<and> re_target_identity_id e = re_source_identity_id edge
                              \<and> re_edge_hash e \<noteq> re_edge_hash edge) edges) of
                      None \<Rightarrow> []
                    | Some r \<Rightarrow> [signal MUTUAL_EXCHANGE MEDIUM [re_edge_hash edge, re_edge_hash r]
                                ''detected reverse direction authorization edge'']);
          cycle_hashes = find_cycle_path_hashes edges (re_target_identity_id edge) (re_source_identity_id edge) 6;
          cyc = (if cycle_hashes = [] then []
                 else [signal CYCLE_AUTHORIZATION HIGH (re_edge_hash edge # cycle_hashes)
                        ''authorization cycle detected in responsibility graph''])
      in loop @ mutual @ cyc)"

type_synonym edge_hash_fn =
  "string \<Rightarrow> string \<Rightarrow> ResponsibilityEdgeType \<Rightarrow> string option \<Rightarrow> string option \<Rightarrow> pydict \<Rightarrow> string"

record Responsibility_DB =
  rd_edges :: "ResponsibilityEdge list"
  rd_signals :: "ResponsibilitySignal list"

definition ingest_edge ::
  "edge_hash_fn \<Rightarrow> int \<Rightarrow> string \<Rightarrow> string \<Rightarrow> ResponsibilityEdgeType \<Rightarrow> string option \<Rightarrow> string option \<Rightarrow> pydict \<Rightarrow>
   Responsibility_DB \<Rightarrow> (ResponsibilityEdge \<times> ResponsibilitySignal list) \<times> Responsibility_DB" where
  "ingest_edge edge_hash now source target kind task voucher metadata db =
     (let h = edge_hash source target kind task voucher metadata;
          signals_of = (\<lambda>x. filter (\<lambda>s. rg_edge_hash s = x) (rd_signals db))
      in case find (\<lambda>e. re_edge_hash e = h) (rd_edges db) of
           Some e \<Rightarrow> ((e, signals_of h), db)
         | None \<Rightarrow>
             (case (if voucher \<noteq> None \<and> voucher \<noteq> Some [] then find (\<lambda>e. re_voucher_id e = voucher) (rd_edges db) else None) of
                Some e \<Rightarrow> ((e, signals_of (re_edge_hash e)), db)
              | None \<Rightarrow>
                  (let e = \<lparr>re_edge_hash = h, re_source_identity_id = source, re_target_identity_id = target,
                            re_edge_type = kind, re_task_id = task, re_voucher_id = voucher,
                            re_metadata = metadata, re_created_at = now\<rparr>;
                       edges = rd_edges db @ [e];
                       signals = detect_signals now e edges
                   in ((e, signals), \<lparr>rd_edges = edges, rd_signals = rd_signals db @ signals\<rparr>))))"

section \<open>The search finds the shortest cycle\<close>

text \<open>\<open>walk edges a es b\<close>: the edges \<open>es\<close> of the table lead from \<open>a\<close> to \<open>b\<close>.\<close>

fun walk :: "ResponsibilityEdge list \<Rightarrow> string \<Rightarrow> ResponsibilityEdge list \<Rightarrow> string \<Rightarrow> bool" where
  "walk edges a [] b \<longleftrightarrow> a = b"
| "walk edges a (e # es) b \<longleftrightarrow>
     e \<in> set edges \<and> re_source_identity_id e = a \<and> walk edges (re_target_identity_id e) es b"

lemma walk_append: "walk edges a (xs @ ys) c \<longleftrightarrow> (\<exists>b. walk edges a xs b \<and> walk edges b ys c)"
  by (induction xs arbitrary: a) auto

text \<open>The invariant of the search: an entry of the queue is a walk from the start; the queue is sorted by
  depth, over at most two depths; and what an expanded node leads to was visited, is in the queue, or
  lies too deep, and is never the target.\<close>

definition frontier_ok ::
  "ResponsibilityEdge list \<Rightarrow> string \<Rightarrow> string \<Rightarrow> nat \<Rightarrow> (string \<times> string list \<times> nat) list \<Rightarrow> (string \<times> nat) list \<Rightarrow> bool" where
  "frontier_ok edges start target m queue visited \<longleftrightarrow>
     (\<forall>n p h. (n, p, h) \<in> set queue \<longrightarrow> (\<exists>w. walk edges start w n \<and> p = map re_edge_hash w \<and> h = length w))
     \<and> sorted (map (snd \<circ> snd) queue)
     \<and> (\<forall>n p h. (n, p, h) \<in> set queue \<longrightarrow> h \<le> Suc (snd (snd (hd queue))))
     \<and> ((start, 0) \<in> set visited \<or> (\<exists>p. (start, p, 0) \<in> set queue) \<or> m = 0)
     \<and> (\<forall>n h e. (n, h) \<in> set visited \<longrightarrow> e \<in> set (leaving edges n) \<longrightarrow> re_target_identity_id e \<noteq> target
          \<and> ((re_target_identity_id e, Suc h) \<in> set visited
             \<or> (\<exists>p. (re_target_identity_id e, p, Suc h) \<in> set queue) \<or> m \<le> Suc h))"

lemma frontier_okI:
  assumes "\<And>n p h. (n, p, h) \<in> set queue \<Longrightarrow> \<exists>w. walk edges start w n \<and> p = map re_edge_hash w \<and> h = length w"
    and "sorted (map (snd \<circ> snd) queue)"
    and "\<And>n p h. (n, p, h) \<in> set queue \<Longrightarrow> h \<le> Suc (snd (snd (hd queue)))"
    and "(start, 0) \<in> set visited \<or> (\<exists>p. (start, p, 0) \<in> set queue) \<or> m = 0"
    and "\<And>n h e. (n, h) \<in> set visited \<Longrightarrow> e \<in> set (leaving edges n) \<Longrightarrow> re_target_identity_id e \<noteq> target
          \<and> ((re_target_identity_id e, Suc h) \<in> set visited
             \<or> (\<exists>p. (re_target_identity_id e, p, Suc h) \<in> set queue) \<or> m \<le> Suc h)"
  shows "frontier_ok edges start target m queue visited"
  using assms unfolding frontier_ok_def by blast

lemma frontier_okD:
  assumes "frontier_ok edges start target m queue visited"
  shows "(n, p, h) \<in> set queue \<Longrightarrow> \<exists>w. walk edges start w n \<and> p = map re_edge_hash w \<and> h = length w"
    and "sorted (map (snd \<circ> snd) queue)"
    and "(n, p, h) \<in> set queue \<Longrightarrow> h \<le> Suc (snd (snd (hd queue)))"
    and "(start, 0) \<in> set visited \<or> (\<exists>p. (start, p, 0) \<in> set queue) \<or> m = 0"
    and "(n, h) \<in> set visited \<Longrightarrow> e \<in> set (leaving edges n) \<Longrightarrow> re_target_identity_id e \<noteq> target
          \<and> ((re_target_identity_id e, Suc h) \<in> set visited
             \<or> (\<exists>p. (re_target_identity_id e, p, Suc h) \<in> set queue) \<or> m \<le> Suc h)"
  using assms unfolding frontier_ok_def by blast+

lemma frontier_drop:
  assumes ok: "frontier_ok edges start target m ((n, p, h) # queue) visited" and skip: "m \<le> h \<or> (n, h) \<in> set visited"
  shows "frontier_ok edges start target m queue visited"
proof (rule frontier_okI, goal_cases)
  case (1 n' p' h')
  then show ?case by (intro frontier_okD(1) [OF ok]) simp
next
  case 2
  show ?case using frontier_okD(2) [OF ok] by simp
next
  case (3 n' p' h')
  then have "h' \<le> Suc h" using frontier_okD(3) [OF ok, of n' p' h'] by simp
  moreover have "h \<le> snd (snd (hd queue))" using frontier_okD(2) [OF ok] 3 by (cases queue) auto
  ultimately show ?case by simp
next
  case 4
  show ?case using frontier_okD(4) [OF ok] skip by auto
next
  case (5 n' h' e)
  from frontier_okD(5) [OF ok 5] skip show ?case by auto
qed

lemma frontier_visit:
  assumes ok: "frontier_ok edges start target m ((n, p, h) # queue) visited"
    and nxt: "scan_edges target p h (leaving edges n) = Inr found_next"
  shows "frontier_ok edges start target m (queue @ found_next) ((n, h) # visited)"
proof -
  note m = scan_edges_Inr [OF nxt]
  from frontier_okD(1) [OF ok, of n p h] obtain w
    where w: "walk edges start w n" "p = map re_edge_hash w" "h = length w" by auto
  have depth: "map (snd \<circ> snd) found_next = replicate (length found_next) (Suc h)"
    using m by (simp add: map_replicate_const comp_def)
  have queue: "h \<le> h' \<and> h' \<le> Suc h" if "(n', p', h') \<in> set queue" for n' p' h'
    using that frontier_okD(2) [OF ok] frontier_okD(3) [OF ok, of n' p' h'] by force
  have new: "\<exists>e \<in> set (leaving edges n). n' = re_target_identity_id e \<and> p' = p @ [re_edge_hash e] \<and> h' = Suc h"
    if "(n', p', h') \<in> set found_next" for n' p' h' using that m by auto
  show ?thesis
  proof (rule frontier_okI, goal_cases)
    case (1 n' p' h')
    then consider "(n', p', h') \<in> set queue" | "(n', p', h') \<in> set found_next" by auto
    then show ?case
    proof cases
      case 1
      then show ?thesis by (intro frontier_okD(1) [OF ok]) simp
    next
      case 2
      from new [OF this] obtain e where "e \<in> set (leaving edges n)" "n' = re_target_identity_id e"
        "p' = p @ [re_edge_hash e]" "h' = Suc h" by auto
      with w show ?thesis by (intro exI [of _ "w @ [e]"]) (auto simp: walk_append leaving_def)
    qed
  next
    case 2
    have "x \<le> Suc h" if "x \<in> snd ` snd ` set queue" for x using that queue by force
    with frontier_okD(2) [OF ok] show ?case
      unfolding map_append depth by (auto simp: sorted_append)
  next
    case (3 n' p' h')
    then have "h' \<le> Suc h" using queue new by fastforce
    moreover have "h \<le> snd (snd (hd (queue @ found_next)))"
    proof (cases queue)
      case Nil
      with 3 have "hd found_next \<in> set found_next" by (cases found_next) auto
      with Nil show ?thesis using new [of "fst (hd found_next)" "fst (snd (hd found_next))" "snd (snd (hd found_next))"]
        by auto
    next
      case (Cons x xs)
      then show ?thesis using queue [of "fst x" "fst (snd x)" "snd (snd x)"] by simp
    qed
    ultimately show ?case by simp
  next
    case 4
    show ?case using frontier_okD(4) [OF ok] by auto
  next
    case (5 n' h' e)
    then consider "n' = n" "h' = h" | "(n', h') \<in> set visited" by auto
    then show ?case
    proof cases
      case 1
      with m 5(2) show ?thesis by auto
    next
      case 2
      from frontier_okD(5) [OF ok this 5(2)] show ?thesis by auto
    qed
  qed
qed

text \<open>While the head of the queue has depth \<open>h\<close>, no walk of at most \<open>h\<close> edges reaches the target.\<close>

lemma frontier_no_short_walk:
  assumes ok: "frontier_ok edges start target m queue visited"
    and deep: "\<And>n p h'. (n, p, h') \<in> set queue \<Longrightarrow> h \<le> h'" and "h \<le> m"
    and "walk edges start w target" and "start \<noteq> target"
  shows "h < length w"
proof (rule ccontr)
  assume short: "\<not> h < length w"
  have reached: "\<exists>n. walk edges start (take i w) n \<and> walk edges n (drop i w) target \<and> (n, i) \<in> set visited"
    if "i < length w" for i using that
  proof (induction i)
    case 0
    then have "(start, 0) \<in> set visited"
      using frontier_okD(4) [OF ok] deep [of start _ 0] short \<open>h \<le> m\<close> by auto
    with assms(4) show ?case by auto
  next
    case (Suc i)
    then obtain n where n: "walk edges start (take i w) n" "walk edges n (drop i w) target" "(n, i) \<in> set visited"
      by auto
    from Suc.prems have w: "drop i w = w ! i # drop (Suc i) w" "take (Suc i) w = take i w @ [w ! i]"
      by (simp_all add: Cons_nth_drop_Suc take_Suc_conv_app_nth)
    with n have e: "w ! i \<in> set (leaving edges n)" by (simp add: leaving_def)
    from Suc.prems short \<open>h \<le> m\<close> have "\<not> m \<le> Suc i" "\<not> h \<le> Suc i" by auto
    with frontier_okD(5) [OF ok n(3) e] deep have "(re_target_identity_id (w ! i), Suc i) \<in> set visited" by auto
    with n w show ?case by (intro exI [of _ "re_target_identity_id (w ! i)"]) (auto simp: walk_append)
  qed
  from assms(4,5) have "w \<noteq> []" by auto
  then have last: "length w - 1 < length w" "drop (length w - 1) w = [last w]"
    by (cases w rule: rev_cases; simp)+
  from reached [OF last(1)] obtain n where "walk edges n [last w] target" "(n, length w - 1) \<in> set visited"
    unfolding last(2) by auto
  then have "last w \<in> set (leaving edges n)" "re_target_identity_id (last w) = target" by (auto simp: leaving_def)
  with frontier_okD(5) [OF ok \<open>(n, length w - 1) \<in> set visited\<close>] show False by blast
qed

definition shortest_walk :: "ResponsibilityEdge list \<Rightarrow> string \<Rightarrow> ResponsibilityEdge list \<Rightarrow> string \<Rightarrow> bool" where
  "shortest_walk edges a w b \<longleftrightarrow> walk edges a w b \<and> (\<forall>w'. walk edges a w' b \<longrightarrow> length w \<le> length w')"

lemma search_correct:
  "frontier_ok edges start target m queue visited \<Longrightarrow> start \<noteq> target \<Longrightarrow>
   (if search edges target m queue visited = [] then \<forall>w. walk edges start w target \<longrightarrow> m < length w
    else \<exists>w. shortest_walk edges start w target \<and> length w \<le> m
           \<and> search edges target m queue visited = map re_edge_hash w)"
proof (induction edges target m queue visited rule: search.induct)
  case (1 edges target m visited)
  then show ?case using frontier_no_short_walk [OF 1(1), of m] by auto
next
  case (2 edges target m node path hops queue visited)
  note ok = 2(3)
  show ?case
  proof (cases "m \<le> hops \<or> (node, hops) \<in> set visited")
    case True
    with 2(1) [OF True frontier_drop [OF ok True] 2(4)] show ?thesis by simp
  next
    case False
    show ?thesis
    proof (cases "scan_edges target path hops (leaving edges node)")
      case (Inr found_next)
      with 2(2) [OF False Inr frontier_visit [OF ok Inr] 2(4)] False show ?thesis by simp
    next
      case (Inl found)
      from scan_edges_Inl [OF Inl] obtain e where e: "e \<in> set (leaving edges node)"
        "re_target_identity_id e = target" "found = path @ [re_edge_hash e]" by auto
      from frontier_okD(1) [OF ok, of node path hops] obtain w
        where w: "walk edges start w node" "path = map re_edge_hash w" "hops = length w" by auto
      have deep: "hops \<le> h'" if "(n, p, h') \<in> set ((node, path, hops) # queue)" for n p h'
        using that frontier_okD(2) [OF ok] by force
      have "hops < length w'" if "walk edges start w' target" for w'
        using frontier_no_short_walk [OF ok deep _ that 2(4)] False by simp
      moreover have "walk edges start (w @ [e]) target" using w(1) e by (auto simp: walk_append leaving_def)
      ultimately have "shortest_walk edges start (w @ [e]) target"
        using w(3) by (auto simp: shortest_walk_def Suc_le_eq)
      moreover have "search edges target m ((node, path, hops) # queue) visited = map re_edge_hash (w @ [e])"
        using False Inl e(3) w(2) by simp
      moreover have "length (w @ [e]) \<le> m" using False w(3) by simp
      ultimately show ?thesis by (metis Nil_is_append_conv map_is_Nil_conv not_Cons_self2)
    qed
  qed
qed

lemma find_cycle_correct:
  "find_cycle_path_hashes edges start target m = [] \<longleftrightarrow> start = target \<or> (\<forall>w. walk edges start w target \<longrightarrow> m < length w)"
  "find_cycle_path_hashes edges start target m \<noteq> [] \<Longrightarrow>
   \<exists>w. shortest_walk edges start w target \<and> length w \<le> m \<and> find_cycle_path_hashes edges start target m = map re_edge_hash w"
proof -
  have ok: "frontier_ok edges start target m [(start, [], 0)] []" by (rule frontier_okI) auto
  show "find_cycle_path_hashes edges start target m \<noteq> [] \<Longrightarrow>
    \<exists>w. shortest_walk edges start w target \<and> length w \<le> m \<and> find_cycle_path_hashes edges start target m = map re_edge_hash w"
    using search_correct [OF ok] by (auto simp: find_cycle_path_hashes_def split: if_splits)
  show "find_cycle_path_hashes edges start target m = [] \<longleftrightarrow> start = target \<or> (\<forall>w. walk edges start w target \<longrightarrow> m < length w)"
    using search_correct [OF ok] unfolding find_cycle_path_hashes_def shortest_walk_def
    by (auto simp del: search.simps split: if_splits) (metis leD)
qed

section \<open>Properties\<close>

lemma cycle_signal_iff:
  "(\<exists>s \<in> set (detect_signals now e edges). rg_signal_type s = CYCLE_AUTHORIZATION \<and> P (rg_related_edge_hashes s))
   \<longleftrightarrow> (let hs = find_cycle_path_hashes edges (re_target_identity_id e) (re_source_identity_id e) 6
        in hs \<noteq> [] \<and> P (re_edge_hash e # hs))"
  by (auto simp: detect_signals_def Let_def split: option.splits)

lemma ingest_new:
  assumes "\<forall>e \<in> set (rd_edges db). re_edge_hash e \<noteq> edge_hash source target kind task voucher metadata"
    and "voucher = None \<or> (\<forall>e \<in> set (rd_edges db). re_voucher_id e \<noteq> voucher)"
    and "ingest_edge edge_hash now source target kind task voucher metadata db = ((e, signals), db')"
  shows "rd_edges db' = rd_edges db @ [e] \<and> signals = detect_signals now e (rd_edges db')
    \<and> rd_signals db' = rd_signals db @ signals \<and> re_source_identity_id e = source
    \<and> re_target_identity_id e = target \<and> re_voucher_id e = voucher"
proof -
  have "find (\<lambda>e. re_edge_hash e = edge_hash source target kind task voucher metadata) (rd_edges db) = None"
    "voucher \<noteq> None \<Longrightarrow> find (\<lambda>e. re_voucher_id e = voucher) (rd_edges db) = None"
    using assms(1,2) by (auto simp: find_None_iff)
  with assms(3) show ?thesis by (auto simp: ingest_edge_def Let_def split: if_splits)
qed

text \<open>An edge for a voucher that already has one changes nothing.\<close>

lemma ingest_known_voucher:
  assumes "e \<in> set (rd_edges db)" "re_voucher_id e = Some v" "v \<noteq> []"
  shows "snd (ingest_edge edge_hash now source target kind task (Some v) metadata db) = db"
proof -
  have "find (\<lambda>e. re_voucher_id e = Some v) (rd_edges db) \<noteq> None" using assms by (auto simp: find_None_iff)
  with assms(3) show ?thesis by (auto simp: ingest_edge_def Let_def split: option.splits)
qed

text \<open>C16. Ingesting a new edge raises the cycle signal exactly when the graph, with the edge in it, has a
  path of at most six edges from the target back to the source of the edge; and the signal names the
  edges of a shortest such path after the edge itself.\<close>

theorem cycle_signal_exact:
  assumes "\<forall>e \<in> set (rd_edges db). re_edge_hash e \<noteq> edge_hash source target kind task voucher metadata"
    and "voucher = None \<or> (\<forall>e \<in> set (rd_edges db). re_voucher_id e \<noteq> voucher)"
    and "ingest_edge edge_hash now source target kind task voucher metadata db = ((e, signals), db')"
  shows "((\<exists>s \<in> set signals. rg_signal_type s = CYCLE_AUTHORIZATION)
       \<longleftrightarrow> source \<noteq> target \<and> (\<exists>w. walk (rd_edges db') target w source \<and> length w \<le> 6))
    \<and> (\<forall>s \<in> set signals. rg_signal_type s = CYCLE_AUTHORIZATION \<longrightarrow>
         (\<exists>w. shortest_walk (rd_edges db') target w source
            \<and> rg_related_edge_hashes s = re_edge_hash e # map re_edge_hash w))"
proof -
  note new = ingest_new [OF assms]
  let ?hs = "find_cycle_path_hashes (rd_edges db') target source 6"
  have "(\<exists>s \<in> set signals. rg_signal_type s = CYCLE_AUTHORIZATION) \<longleftrightarrow> ?hs \<noteq> []"
    using cycle_signal_iff [of now e "rd_edges db'" "\<lambda>_. True"] new by (simp add: Let_def)
  moreover have "?hs \<noteq> [] \<and> (\<exists>w. shortest_walk (rd_edges db') target w source
      \<and> rg_related_edge_hashes s = re_edge_hash e # map re_edge_hash w)"
    if "s \<in> set signals" "rg_signal_type s = CYCLE_AUTHORIZATION" for s
  proof -
    have "?hs \<noteq> [] \<and> rg_related_edge_hashes s = re_edge_hash e # ?hs"
      using cycle_signal_iff [of now e "rd_edges db'" "\<lambda>hs. hs = rg_related_edge_hashes s"] new that by (auto simp: Let_def)
    then show ?thesis using find_cycle_correct(2) [of "rd_edges db'" target source 6] by auto
  qed
  ultimately show ?thesis using find_cycle_correct(1) [of "rd_edges db'" target source 6] by (auto simp: not_less)
qed

text \<open>Three identities that authorize each other in a ring; the last edge closes it.\<close>

definition sample_edge :: "string \<Rightarrow> string \<Rightarrow> string \<Rightarrow> ResponsibilityEdge" where
  "sample_edge h a b = \<lparr>re_edge_hash = h, re_source_identity_id = a, re_target_identity_id = b,
     re_edge_type = MANUAL_LINK, re_task_id = None, re_voucher_id = None, re_metadata = [], re_created_at = 0\<rparr>"

theorem cycle_signal_exact_witness:
  "\<exists>s. s \<in> set (snd (fst (ingest_edge (\<lambda>_ _ _ _ _ _. ''h3'') 9 ''c'' ''a'' MANUAL_LINK None None []
         \<lparr>rd_edges = [sample_edge ''h1'' ''a'' ''b'', sample_edge ''h2'' ''b'' ''c''], rd_signals = []\<rparr>)))
     \<and> rg_signal_type s = CYCLE_AUTHORIZATION"
proof -
  let ?db = "\<lparr>rd_edges = [sample_edge ''h1'' ''a'' ''b'', sample_edge ''h2'' ''b'' ''c''], rd_signals = []\<rparr>"
  let ?r = "ingest_edge (\<lambda>_ _ _ _ _ _. ''h3'') 9 ''c'' ''a'' MANUAL_LINK None None [] ?db"
  have "set (rd_edges ?db) \<subseteq> set (rd_edges (snd ?r))"
    by (simp add: ingest_edge_def Let_def sample_edge_def)
  then have "walk (rd_edges (snd ?r)) ''a'' [sample_edge ''h1'' ''a'' ''b'', sample_edge ''h2'' ''b'' ''c''] ''c''"
    by (simp add: sample_edge_def)
  moreover have "length [sample_edge ''h1'' ''a'' ''b'', sample_edge ''h2'' ''b'' ''c''] \<le> 6" by simp
  moreover have "\<forall>e \<in> set (rd_edges ?db). re_edge_hash e \<noteq> ''h3''" by (simp add: sample_edge_def)
  moreover have "?r = ((fst (fst ?r), snd (fst ?r)), snd ?r)" by simp
  ultimately show ?thesis
    using cycle_signal_exact [of ?db "\<lambda>_ _ _ _ _ _. ''h3''" "''c''" "''a''" MANUAL_LINK None None "[]" 9
        "fst (fst ?r)" "snd (fst ?r)" "snd ?r"] by blast
qed

end
