(* ===== verification/Voucher_Lifecycle.thy ===== *)
theory Voucher_Lifecycle
  imports Capacity_Ledger Money Responsibility_Graph
begin

text \<open>
  Authorization vouchers and the credits they hold: acceptance and rejection by the seller
  (\<^verbatim>\<open>services/voucher_lifecycle.py\<close>), the sweep of expired vouchers and of leaked reservations
  (\<^verbatim>\<open>services/voucher_reaper.py\<close>), what a settlement does to its voucher
  (\<^verbatim>\<open>services/settlement_voucher.py\<close>), the check of a voucher by a seller (\<^verbatim>\<open>api/routes/vouchers.py\<close>), and
  the transaction around a request (\<^verbatim>\<open>db/session.py\<close>).

  An operation runs on the tables of its session; \<open>get_session\<close> commits them, or rolls them back when the
  operation raises. The brake and the webhooks are outside of the transaction. The voucher and the
  capacity row that an operation read before it writes are arguments of their own, as in the theory of
  the capacity ledger. Instants are microseconds.
\<close>

section \<open>Tables and transactions\<close>

datatype VoucherStatus = V_CREATED | V_ACCEPTED | V_USED | V_EXPIRED | V_CANCELLED | V_REJECTED

record VoucherModel =
  vm_voucher_id :: string
  vm_buyer_identity_id :: string
  vm_seller_identity_id :: string
  vm_amount :: rat
  vm_currency :: string
  vm_bill_credit_amount :: rat
  vm_task_type :: string
  vm_expiry_time :: int
  vm_nonce :: string
  vm_status :: VoucherStatus
  vm_buyer_sub_identity_id :: "string option"
  vm_seller_sub_identity_id :: "string option"
  vm_seller_profile_id :: "string option"
  vm_accepted_at :: "int option"
  vm_rejection_reason :: "string option"
  vm_rejected_at :: "int option"
  vm_rejected_by_identity_id :: "string option"

record VoucherEvent =
  ve_voucher_id :: string
  ve_event_type :: string
  ve_actor_identity_id :: "string option"
  ve_target_identity_id :: "string option"
  ve_payload :: pydict
  ve_created_at :: int

record Voucher_World =
  vw_vouchers :: "VoucherModel list"
  vw_capacities :: "CapacityModel list"
  vw_graph :: Responsibility_DB
  vw_events :: "VoucherEvent list"
  vw_runtime :: Runtime
  vw_webhooks :: "(string \<times> pydict) list"

type_synonym 'a handler = "Voucher_World \<Rightarrow> (http_error + 'a) \<times> Voucher_World"

definition get_session :: "'a handler \<Rightarrow> 'a handler" where
  "get_session body w =
     (case body w of
        (Inl e, w') \<Rightarrow> (Inl e, w\<lparr>vw_runtime := vw_runtime w', vw_webhooks := vw_webhooks w'\<rparr>)
      | (Inr a, w') \<Rightarrow> (Inr a, w'))"

definition update_voucher :: "string \<Rightarrow> (VoucherModel \<Rightarrow> VoucherModel) \<Rightarrow> Voucher_World \<Rightarrow> Voucher_World" where
  "update_voucher vid f w =
     w\<lparr>vw_vouchers := map (\<lambda>v. if vm_voucher_id v = vid then f v else v) (vw_vouchers w)\<rparr>"

definition find_voucher :: "string \<Rightarrow> Voucher_World \<Rightarrow> VoucherModel option" where
  "find_voucher vid w = find (\<lambda>v. vm_voucher_id v = vid) (vw_vouchers w)"

definition record_voucher_event ::
  "int \<Rightarrow> string \<Rightarrow> string \<Rightarrow> pydict \<Rightarrow> string option \<Rightarrow> string option \<Rightarrow> Voucher_World \<Rightarrow> Voucher_World" where
  "record_voucher_event now vid kind payload actor target w =
     w\<lparr>vw_events := vw_events w @
        [\<lparr>ve_voucher_id = vid, ve_event_type = kind, ve_actor_identity_id = actor,
          ve_target_identity_id = target, ve_payload = payload, ve_created_at = now\<rparr>]\<rparr>"

definition emit_openclaw_event :: "string \<Rightarrow> pydict \<Rightarrow> Voucher_World \<Rightarrow> Voucher_World" where
  "emit_openclaw_event kind payload w = w\<lparr>vw_webhooks := vw_webhooks w @ [(kind, payload)]\<rparr>"

definition opt_val :: "string option \<Rightarrow> pyval" where
  "opt_val v = (case v of None \<Rightarrow> VNone | Some s \<Rightarrow> VStr s)"

section \<open>Acceptance and rejection\<close>

text \<open>\<open>profile_owner\<close> looks up the owner of a role profile. The profile of the seller is written only when
  it is given and not empty.\<close>

definition seller_profile_ok :: "(string \<Rightarrow> string option) \<Rightarrow> string \<Rightarrow> string option \<Rightarrow> bool" where
  "seller_profile_ok profile_owner seller profile =
     (case profile of None \<Rightarrow> True | Some p \<Rightarrow> p = [] \<or> profile_owner p = Some seller)"

definition with_profile :: "string option \<Rightarrow> VoucherModel \<Rightarrow> VoucherModel" where
  "with_profile profile v =
     (case profile of None \<Rightarrow> v | Some p \<Rightarrow> if p = [] then v else v\<lparr>vm_seller_profile_id := Some p\<rparr>)"

definition reserve_deltas :: "rat \<Rightarrow> (balance_field \<times> rat) list" where
  "reserve_deltas amount = [(Available_credits, - amount), (Reserved_credits, amount)]"

text \<open>The writes that follow a reservation that went through.\<close>

definition finish_accept ::
  "edge_hash_fn \<Rightarrow> int \<Rightarrow> VoucherModel \<Rightarrow> string \<Rightarrow> string \<Rightarrow> string option \<Rightarrow> Voucher_World \<Rightarrow> Voucher_World" where
  "finish_accept edge_hash now row seller actor profile w =
     (let vid = vm_voucher_id row;
          w1 = update_voucher vid (\<lambda>v. (with_profile profile v)\<lparr>vm_status := V_ACCEPTED, vm_accepted_at := Some now\<rparr>) w;
          metadata = [(''amount'', VNum (vm_amount row)), (''currency'', VStr (vm_currency row)),
                      (''task_type'', VStr (vm_task_type row)),
                      (''buyer_sub_identity_id'', opt_val (vm_buyer_sub_identity_id row)),
                      (''seller_sub_identity_id'', opt_val (vm_seller_sub_identity_id row)), (''actor'', VStr actor)];
          w2 = w1\<lparr>vw_graph := snd (ingest_edge edge_hash now (vm_buyer_identity_id row) (vm_seller_identity_id row)
                  VOUCHER_ACCEPT None (Some vid) metadata (vw_graph w1))\<rparr>;
          w3 = record_voucher_event now vid ''voucher.accepted''
                 [(''actor'', VStr actor), (''bill_credit_amount'', VNum (vm_bill_credit_amount row))]
                 (Some seller) (Some (vm_buyer_identity_id row)) w2
      in emit_openclaw_event ''voucher.accepted''
           [(''voucher_id'', VStr vid), (''buyer_identity_id'', VStr (vm_buyer_identity_id row)),
            (''seller_identity_id'', VStr (vm_seller_identity_id row)),
            (''bill_credit_amount'', VNum (vm_bill_credit_amount row)), (''amount'', VNum (vm_amount row)),
            (''task_type'', VStr (vm_task_type row))] w3)"

definition accept_voucher_row ::
  "edge_hash_fn \<Rightarrow> (string \<Rightarrow> string option) \<Rightarrow> int \<Rightarrow> bool \<Rightarrow> CapacityModel option \<Rightarrow> VoucherModel \<Rightarrow>
   string \<Rightarrow> string \<Rightarrow> string option \<Rightarrow> VoucherModel handler" where
  "accept_voucher_row edge_hash profile_owner now stored cap row seller actor profile w =
     (if vm_status row \<noteq> V_CREATED then (Inl (HTTPException 409 ''voucher already processed''), w)
      else if vm_expiry_time row \<le> now
        then (Inl (HTTPException 409 ''voucher expired''),
              update_voucher (vm_voucher_id row) (\<lambda>v. v\<lparr>vm_status := V_EXPIRED\<rparr>) w)
      else if vm_seller_identity_id row \<noteq> seller then (Inl (HTTPException 403 ''seller mismatch''), w)
      else if \<not> seller_profile_ok profile_owner seller profile
        then (Inl (HTTPException 404 ''profile not found for this seller''), w)
      else if (case cap of None \<Rightarrow> True | Some c \<Rightarrow> available_credits c < vm_bill_credit_amount row)
        then (Inl (HTTPException 409 ''insufficient buyer available credits''), w)
      else case apply_delta_or_raise now (vm_buyer_identity_id row) (reserve_deltas (vm_bill_credit_amount row))
                  [\<lambda>r. available_credits r + EPSILON \<ge> vm_bill_credit_amount row] None
                  ''insufficient buyer available credits'' (vw_capacities w) of
             Inl (LedgerConflict m) \<Rightarrow> (Inl (HTTPException 409 m), w)
           | Inr caps \<Rightarrow>
               (case checked_and_audited now stored (vm_buyer_identity_id row) caps (vw_runtime w) of
                  (Inl e, rt) \<Rightarrow> (Inl e, w\<lparr>vw_runtime := rt\<rparr>)
                | (Inr caps', rt) \<Rightarrow>
                    (Inr ((with_profile profile row)\<lparr>vm_status := V_ACCEPTED, vm_accepted_at := Some now\<rparr>),
                     finish_accept edge_hash now row seller actor profile
                       (w\<lparr>vw_capacities := caps', vw_runtime := rt\<rparr>))))"

definition reject_voucher_row ::
  "int \<Rightarrow> VoucherModel \<Rightarrow> string \<Rightarrow> string \<Rightarrow> string \<Rightarrow> VoucherModel handler" where
  "reject_voucher_row now row seller reason actor w =
     (if vm_status row \<noteq> V_CREATED then (Inl (HTTPException 409 ''voucher already processed''), w)
      else if vm_seller_identity_id row \<noteq> seller then (Inl (HTTPException 403 ''seller mismatch''), w)
      else
        (let vid = vm_voucher_id row;
             f = (\<lambda>v. v\<lparr>vm_status := V_REJECTED, vm_rejection_reason := Some (take 2000 reason),
                       vm_rejected_at := Some now, vm_rejected_by_identity_id := Some seller\<rparr>);
             w1 = record_voucher_event now vid ''voucher.rejected''
                    [(''reason'', VStr reason), (''actor'', VStr actor), (''code'', VStr actor)]
                    (Some seller) (Some (vm_buyer_identity_id row)) (update_voucher vid f w)
         in (Inr (f row),
             emit_openclaw_event ''voucher.rejected''
               [(''voucher_id'', VStr vid), (''buyer_identity_id'', VStr (vm_buyer_identity_id row)),
                (''seller_identity_id'', VStr (vm_seller_identity_id row)), (''reason'', VStr reason),
                (''actor'', VStr actor)] w1)))"

text \<open>\<^verbatim>\<open>verify_voucher\<close>: the answers \<open>is_expired\<close>, \<open>is_used\<close> and \<open>can_start\<close>.\<close>

definition verify_voucher ::
  "int \<Rightarrow> string \<Rightarrow> rat option \<Rightarrow> CapacityModel option \<Rightarrow> VoucherModel \<Rightarrow> bool \<times> bool \<times> bool" where
  "verify_voucher now seller expected_amount cap row =
     (let is_expired = vm_expiry_time row \<le> now;
          is_used = vm_status row \<in> {V_USED, V_CANCELLED};
          seller_matches = (vm_seller_identity_id row = seller);
          amount_matches = (case expected_amount of None \<Rightarrow> True | Some a \<Rightarrow> \<bar>vm_amount row - a\<bar> < EPSILON);
          has_capacity = (case cap of None \<Rightarrow> False | Some c \<Rightarrow> available_credits c \<ge> vm_bill_credit_amount row);
          accepted = (vm_status row = V_ACCEPTED);
          reserved_ok = (case cap of None \<Rightarrow> False
                         | Some c \<Rightarrow> accepted \<and> reserved_credits c + EPSILON \<ge> vm_bill_credit_amount row)
      in (is_expired, is_used,
          \<not> is_expired \<and> \<not> is_used \<and> seller_matches \<and> amount_matches
          \<and> (if accepted then reserved_ok else has_capacity)))"

section \<open>Release of reservations\<close>

text \<open>\<^verbatim>\<open>_assert_capacity_healed\<close>: a missing row passes.\<close>

definition assert_capacity_healed ::
  "int \<Rightarrow> string \<Rightarrow> CapacityModel list \<Rightarrow> http_error + CapacityModel list" where
  "assert_capacity_healed now identity rows =
     (if find_capacity identity rows = None then Inr rows else assert_capacity_after_write now identity rows)"

definition unreserve_deltas :: "rat \<Rightarrow> (balance_field \<times> rat) list" where
  "unreserve_deltas amount = [(Reserved_credits, - amount), (Available_credits, amount)]"

definition give_back ::
  "int \<Rightarrow> string \<Rightarrow> rat \<Rightarrow> string \<Rightarrow> CapacityModel list \<Rightarrow> http_error + (bool \<times> CapacityModel list)" where
  "give_back now identity amount message rows =
     (case apply_delta_or_raise now identity (unreserve_deltas amount)
             [\<lambda>r. reserved_credits r + EPSILON \<ge> amount] None message rows of
        Inl e \<Rightarrow> Inr (False, rows)
      | Inr rows' \<Rightarrow>
          (case assert_capacity_healed now identity rows' of Inl e \<Rightarrow> Inl e | Inr rows'' \<Rightarrow> Inr (True, rows'')))"

definition release_reservation ::
  "int \<Rightarrow> VoucherModel \<Rightarrow> CapacityModel list \<Rightarrow> http_error + (rat \<times> CapacityModel list)" where
  "release_reservation now voucher rows =
     (let amount = round_decimals (vm_bill_credit_amount voucher) 6
      in if amount \<le> 0 then Inr (0, rows)
         else case give_back now (vm_buyer_identity_id voucher) amount
                     ''reserved credits no longer cover this voucher'' rows of
                Inl e \<Rightarrow> Inl e
              | Inr (done, rows') \<Rightarrow> Inr (if done then amount else 0, rows'))"

definition due_vouchers :: "int \<Rightarrow> nat \<Rightarrow> Voucher_World \<Rightarrow> VoucherModel list" where
  "due_vouchers stamp limit w =
     take limit (sort_key vm_expiry_time
       (filter (\<lambda>v. vm_status v \<in> {V_CREATED, V_ACCEPTED} \<and> vm_expiry_time v \<le> stamp) (vw_vouchers w)))"

fun expire_all ::
  "int \<Rightarrow> VoucherModel list \<Rightarrow> Voucher_World \<Rightarrow> (http_error + (string \<times> string \<times> rat) list) \<times> Voucher_World" where
  "expire_all now [] w = (Inr [], w)"
| "expire_all now (v # vs) w =
     (case (if vm_status v = V_ACCEPTED then release_reservation now v (vw_capacities w) else Inr (0, vw_capacities w)) of
        Inl e \<Rightarrow> (Inl e, w)
      | Inr (released, caps) \<Rightarrow>
          (case expire_all now vs (update_voucher (vm_voucher_id v) (\<lambda>u. u\<lparr>vm_status := V_EXPIRED\<rparr>)
                                     (w\<lparr>vw_capacities := caps\<rparr>)) of
             (Inl e, w') \<Rightarrow> (Inl e, w')
           | (Inr rest, w') \<Rightarrow>
               (Inr (if released > 0 then (vm_voucher_id v, vm_buyer_identity_id v, released) # rest else rest), w')))"

definition expire_due ::
  "bool \<Rightarrow> int \<Rightarrow> nat \<Rightarrow> Voucher_World \<Rightarrow> (http_error + (string \<times> string \<times> rat) list) \<times> Voucher_World" where
  "expire_due enabled now limit w = (if enabled then expire_all now (due_vouchers now limit w) w else (Inr [], w))"

text \<open>The sweep of leaked reservations reads the pairs of buyer and status of the settlements.\<close>

definition in_flight :: "(string \<times> string) list \<Rightarrow> string \<Rightarrow> nat" where
  "in_flight settlements identity =
     length (filter (\<lambda>(client, status). client = identity \<and> status \<notin> {''settled'', ''refunded'', ''cancelled''}) settlements)"

definition held_by_vouchers :: "VoucherModel list \<Rightarrow> string \<Rightarrow> rat" where
  "held_by_vouchers vouchers identity =
     sum_list (map vm_bill_credit_amount
       (filter (\<lambda>v. vm_buyer_identity_id v = identity \<and> vm_status v = V_ACCEPTED) vouchers))"

definition leak_excess :: "(string \<times> string) list \<Rightarrow> VoucherModel list \<Rightarrow> CapacityModel \<Rightarrow> rat" where
  "leak_excess settlements vouchers cap =
     (if in_flight settlements (cap_identity_id cap) > 0 then 0
      else round_decimals (reserved_credits cap - held_by_vouchers vouchers (cap_identity_id cap)) 6)"

fun restore_rows ::
  "int \<Rightarrow> (string \<times> string) list \<Rightarrow> VoucherModel list \<Rightarrow> CapacityModel list \<Rightarrow> CapacityModel list \<Rightarrow>
   http_error + ((string \<times> rat) list \<times> CapacityModel list)" where
  "restore_rows now settlements vouchers [] rows = Inr ([], rows)"
| "restore_rows now settlements vouchers (cap # caps) rows =
     (let excess = leak_excess settlements vouchers cap
      in if excess \<le> EPSILON then restore_rows now settlements vouchers caps rows
         else case give_back now (cap_identity_id cap) excess
                     ''reserved credits are not held by any live voucher'' rows of
                Inl e \<Rightarrow> Inl e
              | Inr (done, rows') \<Rightarrow>
                  (case restore_rows now settlements vouchers caps rows' of
                     Inl e \<Rightarrow> Inl e
                   | Inr (healed, rows'') \<Rightarrow>
                       Inr (if done then (cap_identity_id cap, excess) # healed else healed, rows'')))"

definition restore_leaked_reservations ::
  "int \<Rightarrow> nat \<Rightarrow> (string \<times> string) list \<Rightarrow> VoucherModel list \<Rightarrow> CapacityModel list \<Rightarrow>
   http_error + ((string \<times> rat) list \<times> CapacityModel list)" where
  "restore_leaked_reservations now limit settlements vouchers rows =
     restore_rows now settlements vouchers
       (take limit (sort_key cap_identity_id (filter (\<lambda>r. reserved_credits r > EPSILON) rows))) rows"

section \<open>Vouchers of a settlement\<close>

text \<open>\<open>linked\<close> is the voucher of the settlement of the task, if there is such a settlement with a voucher.\<close>

definition mark_voucher_used_if_linked :: "string option \<Rightarrow> Voucher_World \<Rightarrow> Voucher_World" where
  "mark_voucher_used_if_linked linked w =
     (case linked of None \<Rightarrow> w
      | Some vid \<Rightarrow>
          if vid = [] then w
          else case find_voucher vid w of None \<Rightarrow> w
               | Some v \<Rightarrow> if vm_status v = V_ACCEPTED then update_voucher vid (\<lambda>v. v\<lparr>vm_status := V_USED\<rparr>) w else w)"

definition cancel_voucher_reservation_for_task ::
  "int \<Rightarrow> string option \<Rightarrow> Voucher_World \<Rightarrow> (http_error + (string \<times> rat) option) \<times> Voucher_World" where
  "cancel_voucher_reservation_for_task now linked w =
     (case linked of None \<Rightarrow> (Inr None, w)
      | Some vid \<Rightarrow>
          if strip vid = [] then (Inr None, w)
          else case find_voucher vid w of None \<Rightarrow> (Inr None, w)
               | Some v \<Rightarrow>
                   if vm_status v \<notin> {V_CREATED, V_ACCEPTED} then (Inr None, w)
                   else case (if vm_status v = V_ACCEPTED then release_reservation now v (vw_capacities w)
                              else Inr (0, vw_capacities w)) of
                          Inl e \<Rightarrow> (Inl e, w)
                        | Inr (released, caps) \<Rightarrow>
                            (Inr (Some (vid, released)),
                             update_voucher vid (\<lambda>v. v\<lparr>vm_status := V_CANCELLED\<rparr>) (w\<lparr>vw_capacities := caps\<rparr>)))"

section \<open>The credits stay in order\<close>

lemma safe_reserve:
  "0 \<le> a \<Longrightarrow> safe_update (reserve_deltas a) [\<lambda>r. available_credits r + EPSILON \<ge> a] 0"
  by (auto simp: reserve_deltas_def safe_update_simps)

lemma safe_unreserve:
  "0 \<le> a \<Longrightarrow> safe_update (unreserve_deltas a) [\<lambda>r. reserved_credits r + EPSILON \<ge> a] 0"
  by (auto simp: unreserve_deltas_def safe_update_simps)

lemma healed_ok: "ledger_ok rows \<Longrightarrow> assert_capacity_healed now i rows = Inr rows' \<Longrightarrow> rows' = rows"
  by (auto simp: assert_capacity_healed_def split: if_splits dest: after_write_ok)

lemma give_back_safe:
  assumes "ledger_ok rows" "0 \<le> amount" "give_back now i amount m rows = Inr (b, rows')"
  shows "ledger_ok rows' \<and> ledger_value rows' = ledger_value rows"
  using assms apply_delta_or_raise_safe [OF safe_unreserve [OF assms(2)] assms(1)]
  by (auto simp: give_back_def split: sum.splits dest!: healed_ok [rotated])

lemma release_reservation_safe:
  assumes "ledger_ok rows" "release_reservation now v rows = Inr (x, rows')"
  shows "ledger_ok rows' \<and> ledger_value rows' = ledger_value rows"
proof (cases "round_decimals (vm_bill_credit_amount v) 6 \<le> 0")
  case True
  with assms show ?thesis by (simp add: release_reservation_def)
next
  case False
  with assms(2) obtain b where "give_back now (vm_buyer_identity_id v) (round_decimals (vm_bill_credit_amount v) 6)
      ''reserved credits no longer cover this voucher'' rows = Inr (b, rows')"
    by (auto simp: release_reservation_def Let_def split: sum.splits prod.splits)
  from give_back_safe [OF assms(1) _ this] False show ?thesis by simp
qed

lemma update_voucher_capacities [simp]: "vw_capacities (update_voucher vid f w) = vw_capacities w"
  by (simp add: update_voucher_def)

lemma expire_all_safe:
  assumes "ledger_ok (vw_capacities w)" "expire_all now vs w = (Inr xs, w')"
  shows "ledger_ok (vw_capacities w') \<and> ledger_value (vw_capacities w') = ledger_value (vw_capacities w)"
  using assms
proof (induction vs arbitrary: w xs)
  case (Cons v vs)
  let ?r = "if vm_status v = V_ACCEPTED then release_reservation now v (vw_capacities w) else Inr (0, vw_capacities w)"
  let ?w = "\<lambda>caps. update_voucher (vm_voucher_id v) (\<lambda>u. u\<lparr>vm_status := V_EXPIRED\<rparr>) (w\<lparr>vw_capacities := caps\<rparr>)"
  from Cons.prems(2) obtain released caps ys where r: "?r = Inr (released, caps)"
    and rest: "expire_all now vs (?w caps) = (Inr ys, w')"
    by (auto split: sum.splits prod.splits)
  from r Cons.prems(1) have "ledger_ok caps \<and> ledger_value caps = ledger_value (vw_capacities w)"
    by (auto split: if_splits dest: release_reservation_safe)
  with Cons.IH [OF _ rest] show ?case by simp
qed simp

lemma restore_rows_safe:
  assumes "ledger_ok rows" "restore_rows now ss vs caps rows = Inr (xs, rows')"
  shows "ledger_ok rows' \<and> ledger_value rows' = ledger_value rows"
  using assms
proof (induction caps arbitrary: rows xs)
  case (Cons cap caps)
  show ?case
  proof (cases "leak_excess ss vs cap \<le> EPSILON")
    case True
    with Cons show ?thesis by simp
  next
    case False
    with Cons.prems(2) obtain b rows1 ys where g: "give_back now (cap_identity_id cap) (leak_excess ss vs cap)
        ''reserved credits are not held by any live voucher'' rows = Inr (b, rows1)"
      and rest: "restore_rows now ss vs caps rows1 = Inr (ys, rows')"
      by (auto simp: Let_def split: sum.splits prod.splits)
    from False EPSILON_pos have "0 \<le> leak_excess ss vs cap" by simp
    from give_back_safe [OF Cons.prems(1) this g] Cons.IH [OF _ rest] show ?thesis by simp
  qed
qed simp

lemma finish_accept_capacities [simp]:
  "vw_capacities (finish_accept edge_hash now row seller actor profile w) = vw_capacities w"
  by (simp add: finish_accept_def Let_def emit_openclaw_event_def record_voucher_event_def)

lemma accept_safe:
  assumes "ledger_ok (vw_capacities w)" "0 \<le> vm_bill_credit_amount row"
    and "accept_voucher_row edge_hash profile_owner now stored cap row seller actor profile w = (Inr row', w')"
  shows "ledger_ok (vw_capacities w') \<and> ledger_value (vw_capacities w') = ledger_value (vw_capacities w)"
proof -
  from assms(3) obtain m caps rt where
    step: "apply_delta_or_raise now (vm_buyer_identity_id row) (reserve_deltas (vm_bill_credit_amount row))
       [\<lambda>r. available_credits r + EPSILON \<ge> vm_bill_credit_amount row] None m (vw_capacities w) = Inr caps"
    and checked: "checked_and_audited now stored (vm_buyer_identity_id row) caps (vw_runtime w) = (Inr (vw_capacities w'), rt)"
    unfolding accept_voucher_row_def
    by (auto split: if_split_asm sum.split_asm prod.split_asm LedgerConflict.split_asm)
  from apply_delta_or_raise_safe [OF safe_reserve [OF assms(2)] assms(1) step] checked_and_audited_Inr [OF _ checked]
  show ?thesis by simp
qed

lemma cancel_safe:
  assumes "ledger_ok (vw_capacities w)" "cancel_voucher_reservation_for_task now linked w = (Inr x, w')"
  shows "ledger_ok (vw_capacities w') \<and> ledger_value (vw_capacities w') = ledger_value (vw_capacities w)"
  using assms unfolding cancel_voucher_reservation_for_task_def
  by (auto split: option.split_asm if_split_asm sum.split_asm prod.split_asm dest: release_reservation_safe)

text \<open>The operations of the ledger as a step relation over the table and the sum deposited so far. The
  snapshots and clocks are arbitrary, so every interleaving of sessions is a run of it.\<close>

inductive ledger_step :: "CapacityModel list \<times> rat \<Rightarrow> CapacityModel list \<times> rat \<Rightarrow> bool" where
  lock: "lock_usdc now stored auth lo hi identity amount profile rows rt = (Inr rows', rt') \<Longrightarrow>
    ledger_step (rows, d) (rows', d + amount)"
| release: "release_unused now stored auth cap identity amount profile rows rt = (Inr rows', rt') \<Longrightarrow>
    ledger_step (rows, d) (rows', d)"
| freeze: "0 \<le> escrow \<Longrightarrow> move_reserved_to_disputed now stored cap buyer escrow rows rt = (Inr rows', rt') \<Longrightarrow>
    ledger_step (rows, d) (rows', d)"
| resolve: "0 \<le> settled \<Longrightarrow> 0 \<le> refunded \<Longrightarrow> settled + refunded = escrow \<Longrightarrow>
    apply_capacity_resolution now stored cap buyer escrow settled refunded rows rt = (Inr rows', rt') \<Longrightarrow>
    ledger_step (rows, d) (rows', d)"
| unfreeze: "release_dispute_freeze now cap buyer escrow paid rows = Inr (held, rows') \<Longrightarrow>
    ledger_step (rows, d) (rows', d)"
| revert: "ledger_step (rows, d) (release_dispute_freeze_after_revert now buyer amount rows, d)"
| accept: "0 \<le> vm_bill_credit_amount row \<Longrightarrow>
    accept_voucher_row edge_hash profile_owner now stored cap row seller actor profile w = (Inr row', w') \<Longrightarrow>
    ledger_step (vw_capacities w, d) (vw_capacities w', d)"
| expire: "expire_due enabled now limit w = (Inr xs, w') \<Longrightarrow>
    ledger_step (vw_capacities w, d) (vw_capacities w', d)"
| cancel: "cancel_voucher_reservation_for_task now linked w = (Inr x, w') \<Longrightarrow>
    ledger_step (vw_capacities w, d) (vw_capacities w', d)"
| restore: "restore_leaked_reservations now limit settlements vouchers rows = Inr (xs, rows') \<Longrightarrow>
    ledger_step (rows, d) (rows', d)"

definition ledger_inv :: "rat \<Rightarrow> CapacityModel list \<times> rat \<Rightarrow> bool" where
  "ledger_inv c s \<longleftrightarrow> ledger_ok (fst s) \<and> ledger_value (fst s) = c + snd s"

lemma expire_due_safe:
  "ledger_ok (vw_capacities w) \<Longrightarrow> expire_due enabled now limit w = (Inr xs, w') \<Longrightarrow>
   ledger_ok (vw_capacities w') \<and> ledger_value (vw_capacities w') = ledger_value (vw_capacities w)"
  by (auto simp: expire_due_def split: if_splits dest: expire_all_safe)

lemma restore_safe:
  "ledger_ok rows \<Longrightarrow> restore_leaked_reservations now limit ss vs rows = Inr (xs, rows') \<Longrightarrow>
   ledger_ok rows' \<and> ledger_value rows' = ledger_value rows"
  unfolding restore_leaked_reservations_def by (rule restore_rows_safe)

lemma ledger_step_inv: "ledger_step s t \<Longrightarrow> ledger_inv c s \<Longrightarrow> ledger_inv c t"
proof (induction rule: ledger_step.induct)
  case lock
  then show ?case using lock_usdc_safe by (fastforce simp: ledger_inv_def)
next
  case release
  then show ?case using release_unused_safe by (fastforce simp: ledger_inv_def)
next
  case freeze
  then show ?case using move_reserved_to_disputed_safe by (fastforce simp: ledger_inv_def)
next
  case resolve
  then show ?case using apply_capacity_resolution_safe by (fastforce simp: ledger_inv_def)
next
  case unfreeze
  then show ?case using release_dispute_freeze_safe by (fastforce simp: ledger_inv_def)
next
  case revert
  then show ?case using release_after_revert_safe by (simp add: ledger_inv_def)
next
  case accept
  then show ?case using accept_safe by (fastforce simp: ledger_inv_def)
next
  case expire
  then show ?case using expire_due_safe by (fastforce simp: ledger_inv_def)
next
  case cancel
  then show ?case using cancel_safe by (fastforce simp: ledger_inv_def)
next
  case restore
  then show ?case using restore_safe by (fastforce simp: ledger_inv_def)
qed

interpretation ledger: kept ledger_step "ledger_inv c" for c
  by unfold_locales (rule ledger_step_inv)

section \<open>Properties\<close>

lemma row_ok_payout: "row_ok r \<Longrightarrow> burned_credits r + released_credits r \<le> row_value r + 7 * EPSILON"
  by (simp add: row_ok_def row_value_def active_credits_def)

lemma ledger_payout:
  "list_all row_ok rows \<Longrightarrow>
   sum_list (map (\<lambda>r. burned_credits r + released_credits r) rows) \<le> ledger_value rows + 7 * EPSILON * of_nat (length rows)"
proof (induction rows)
  case (Cons r rows)
  then show ?case using row_ok_payout [of r] by (simp add: ledger_value_def algebra_simps)
qed (simp add: ledger_value_def)

text \<open>C1. The capacity ledger conserves money under every interleaving of locks, releases, acceptances,
  dispute freezes, resolutions, reverts, expiries, cancellations and repairs of leaks, whatever stale
  rows the sessions acted on: every row keeps its conservation rules and no bucket falls below zero,
  within the tolerance; what is locked, paid out and handed back adds up to the initial value and the
  deposits; so no more is paid out and handed back than was ever put in.\<close>

theorem ledger_conserves_deposits:
  assumes "ledger_step\<^sup>*\<^sup>* (rows, 0) (rows', deposits)" and "ledger_ok rows"
  shows "list_all row_ok rows' \<and> ledger_value rows' = ledger_value rows + deposits
    \<and> sum_list (map (\<lambda>r. burned_credits r + released_credits r) rows')
        \<le> ledger_value rows + deposits + 7 * EPSILON * of_nat (length rows')"
proof -
  have "ledger_inv (ledger_value rows) (rows', deposits)"
    by (rule ledger.reach_keeps [OF assms(1)]) (use assms(2) in \<open>simp add: ledger_inv_def\<close>)
  then show ?thesis using ledger_payout [of rows'] by (simp add: ledger_inv_def ledger_ok_def)
qed

theorem ledger_conserves_deposits_witness:
  "ledger_value (snd (apply_delta 1 ''b'' [(Total_locked_usdc, 5), (Total_bill_credits, 5), (Available_credits, 5)] [] None
      (ensure_row 1 ''b'' []))) = ledger_value [] + 5"
proof -
  let ?rows = "snd (apply_delta 1 ''b'' [(Total_locked_usdc, 5), (Total_bill_credits, 5), (Available_credits, 5)] [] None
      (ensure_row 1 ''b'' []))"
  let ?rt = "\<lparr>rt_state = initial_safety_state, rt_row = None\<rparr>"
  have op: "assert_runtime_operation_allowed ''new_lock'' initial_safety_state = Inr ()" by code_simp
  have "lock_usdc 1 True (Inr ()) 1 10 ''b'' 5 None [] ?rt = (Inr ?rows, snd (lock_usdc 1 True (Inr ()) 1 10 ''b'' 5 None [] ?rt))"
    using EPSILON_pos
    by (simp add: lock_usdc_def op audited_then_def audit_capacity_anchor_and_maybe_trip_def ANCHOR_EPSILON_def
        apply_delta_def update_where_def ensure_row_def find_capacity_def zero_capacity_def set_profile_def
        validated_def assert_capacity_def assert_capacity_invariants_def active_credits_def Let_def)
  from ledger_step.lock [OF this, of 0] have "ledger_step\<^sup>*\<^sup>* ([], 0) (?rows, 5)" by (simp add: r_into_rtranclp)
  from ledger_conserves_deposits [OF this] show ?thesis by (simp add: ledger_ok_def)
qed

lemma apply_delta_hit:
  assumes "distinct (map cap_identity_id rows)" "find_capacity i rows = Some c" "list_all (\<lambda>g. g c) gs"
  shows "\<exists>rows'. apply_delta now i ds gs p rows = (1, rows')
    \<and> find_capacity i rows' = Some ((set_profile p (fold add_balance ds c))\<lparr>cap_updated_at := now\<rparr>)"
  using assms
proof (induction rows)
  case (Cons r rows)
  show ?case
  proof (cases "cap_identity_id r = i")
    case True
    with Cons.prems have "filter (\<lambda>r. cap_identity_id r = i \<and> list_all (\<lambda>g. g r) gs) rows = []"
      by (auto simp: filter_empty_conv) (metis imageI)
    with True Cons.prems show ?thesis by (simp add: apply_delta_def update_where_def find_capacity_def)
  next
    case False
    with Cons show ?thesis by (auto simp: apply_delta_def update_where_def find_capacity_def)
  qed
qed (simp add: find_capacity_def)

lemma apply_delta_miss:
  assumes "distinct (map cap_identity_id rows)" "find_capacity i rows = Some c" "\<not> list_all (\<lambda>g. g c) gs"
  shows "apply_delta now i ds gs p rows = (0, rows)"
proof -
  have none: "\<not> (cap_identity_id r = i \<and> list_all (\<lambda>g. g r) gs)" if "r \<in> set rows" for r
  proof -
    have "r = c" if "cap_identity_id r = i"
      using assms(1,2) \<open>r \<in> set rows\<close> that
      by (auto simp: find_capacity_def find_Some_iff distinct_map inj_on_def)
    with assms(3) show ?thesis by auto
  qed
  then have "filter (\<lambda>r. cap_identity_id r = i \<and> list_all (\<lambda>g. g r) gs) rows = []" by (simp add: filter_empty_conv)
  moreover have "map (\<lambda>r. if cap_identity_id r = i \<and> list_all (\<lambda>g. g r) gs
      then (set_profile p (fold add_balance ds r))\<lparr>cap_updated_at := now\<rparr> else r) rows = rows"
    by (rule map_idI) (use none in auto)
  ultimately show ?thesis by (simp add: apply_delta_def update_where_def)
qed

text \<open>An acceptance goes through whenever the voucher reads as created and the credits are there.\<close>

lemma accept_success:
  assumes "vm_status row = V_CREATED" "now < vm_expiry_time row" "0 \<le> vm_bill_credit_amount row"
    and "ledger_ok (vw_capacities w)" "find_capacity (vm_buyer_identity_id row) (vw_capacities w) = Some c"
    and "vm_bill_credit_amount row \<le> available_credits c" "vm_bill_credit_amount row \<le> available_credits seen"
    and "sum_list (map total_bill_credits (vw_capacities w)) \<le> sum_list (map total_locked_usdc (vw_capacities w)) + ANCHOR_EPSILON"
  shows "\<exists>row' w'. accept_voucher_row edge_hash profile_owner now stored (Some seen) row (vm_seller_identity_id row) actor None w
      = (Inr row', w')
    \<and> find_capacity (vm_buyer_identity_id row) (vw_capacities w')
      = Some (c\<lparr>available_credits := available_credits c - vm_bill_credit_amount row,
               reserved_credits := reserved_credits c + vm_bill_credit_amount row, cap_updated_at := now\<rparr>)
    \<and> ledger_ok (vw_capacities w') \<and> map vm_voucher_id (vw_vouchers w') = map vm_voucher_id (vw_vouchers w)
    \<and> sum_list (map total_bill_credits (vw_capacities w')) = sum_list (map total_bill_credits (vw_capacities w))
    \<and> sum_list (map total_locked_usdc (vw_capacities w')) = sum_list (map total_locked_usdc (vw_capacities w))"
proof -
  let ?i = "vm_buyer_identity_id row" and ?a = "vm_bill_credit_amount row"
  let ?gs = "[\<lambda>r. available_credits r + EPSILON \<ge> ?a]"
  let ?c = "c\<lparr>available_credits := available_credits c - ?a, reserved_credits := reserved_credits c + ?a, cap_updated_at := now\<rparr>"
  have g: "list_all (\<lambda>g. g c) ?gs" using assms(6) EPSILON_pos by simp
  from apply_delta_hit [OF _ assms(5) g, of now "reserve_deltas ?a" None] assms(4)
  obtain caps where caps: "apply_delta now ?i (reserve_deltas ?a) ?gs None (vw_capacities w) = (1, caps)"
    "find_capacity ?i caps = Some ?c"
    by (auto simp: ledger_ok_def reserve_deltas_def set_profile_def)
  then have step: "apply_delta_or_raise now ?i (reserve_deltas ?a) ?gs None m (vw_capacities w) = Inr caps" for m
    by (simp add: apply_delta_or_raise_def)
  have sums: "sum_list (map total_bill_credits caps) = sum_list (map total_bill_credits (vw_capacities w))"
    "sum_list (map total_locked_usdc caps) = sum_list (map total_locked_usdc (vw_capacities w))"
    using caps(1) by (auto simp: apply_delta_def update_where_def reserve_deltas_def set_profile_def comp_def
        intro!: arg_cong [where f = sum_list])
  from apply_delta_or_raise_safe [OF safe_reserve [OF assms(3)] assms(4) step] have ok: "ledger_ok caps" by simp
  then have "assert_capacity_after_write now ?i caps = Inr caps"
    using caps(2) row_ok_no_gap [OF find_capacity_ok [OF ok caps(2)]]
    by (simp add: assert_capacity_after_write_def assert_capacity_conserved)
  then have "\<exists>rt. checked_and_audited now stored ?i caps (vw_runtime w) = (Inr caps, rt)"
    using assms(8) sums by (simp add: checked_and_audited_def audited_then_def audit_capacity_anchor_and_maybe_trip_def Let_def)
  then obtain rt where "checked_and_audited now stored ?i caps (vw_runtime w) = (Inr caps, rt)" by blast
  then show ?thesis using assms(1,2,7) step caps(2) ok sums
    by (simp add: accept_voucher_row_def seller_profile_ok_def finish_accept_def Let_def emit_openclaw_event_def
        record_voucher_event_def update_voucher_def with_profile_def comp_def if_distrib cong: if_cong)
qed

text \<open>A buyer with credits and one voucher of theirs, not yet accepted.\<close>

definition sample_voucher :: "rat \<Rightarrow> VoucherStatus \<Rightarrow> VoucherModel" where
  "sample_voucher bill status =
     \<lparr>vm_voucher_id = ''v1'', vm_buyer_identity_id = ''b'', vm_seller_identity_id = ''s'', vm_amount = bill,
      vm_currency = ''USDC'', vm_bill_credit_amount = bill, vm_task_type = ''t'', vm_expiry_time = 100, vm_nonce = ''n'',
      vm_status = status, vm_buyer_sub_identity_id = None, vm_seller_sub_identity_id = None,
      vm_seller_profile_id = None, vm_accepted_at = None, vm_rejection_reason = None, vm_rejected_at = None,
      vm_rejected_by_identity_id = None\<rparr>"

definition sample_capacity :: "rat \<Rightarrow> rat \<Rightarrow> CapacityModel" where
  "sample_capacity avail res = (zero_capacity 0 ''b'')\<lparr>total_locked_usdc := avail + res,
     total_bill_credits := avail + res, available_credits := avail, reserved_credits := res\<rparr>"

definition sample_world :: "CapacityModel \<Rightarrow> VoucherModel \<Rightarrow> Voucher_World" where
  "sample_world c v =
     \<lparr>vw_vouchers = [v], vw_capacities = [c], vw_graph = \<lparr>rd_edges = [], rd_signals = []\<rparr>, vw_events = [],
      vw_runtime = \<lparr>rt_state = initial_safety_state, rt_row = None\<rparr>, vw_webhooks = []\<rparr>"

text \<open>C36. A voucher is not accepted once: two sessions that both read it as created can both accept it, the
  second after the first has committed, and the buyer's credits are reserved twice for the one voucher.\<close>

theorem concurrent_accepts_reserve_twice:
  assumes "vm_status row = V_CREATED" "now < vm_expiry_time row" "0 \<le> vm_bill_credit_amount row"
    and "ledger_ok (vw_capacities w)" "find_capacity (vm_buyer_identity_id row) (vw_capacities w) = Some c"
    and "2 * vm_bill_credit_amount row \<le> available_credits c"
    and "sum_list (map total_bill_credits (vw_capacities w)) \<le> sum_list (map total_locked_usdc (vw_capacities w)) + ANCHOR_EPSILON"
  shows "\<exists>row1 w1 row2 w2 c2.
     accept_voucher_row edge_hash profile_owner now stored (Some c) row (vm_seller_identity_id row) actor None w = (Inr row1, w1)
   \<and> accept_voucher_row edge_hash profile_owner now stored (Some c) row (vm_seller_identity_id row) actor None w1 = (Inr row2, w2)
   \<and> find_capacity (vm_buyer_identity_id row) (vw_capacities w2) = Some c2
   \<and> reserved_credits c2 = reserved_credits c + 2 * vm_bill_credit_amount row
   \<and> map vm_voucher_id (vw_vouchers w2) = map vm_voucher_id (vw_vouchers w)"
proof -
  let ?a = "vm_bill_credit_amount row"
  let ?c = "\<lambda>c. c\<lparr>available_credits := available_credits c - ?a, reserved_credits := reserved_credits c + ?a, cap_updated_at := now\<rparr>"
  from assms(3,6) have enough: "?a \<le> available_credits c" by simp
  from accept_success [OF assms(1-5) enough enough assms(7), of edge_hash profile_owner stored actor]
  obtain row1 w1 where 1:
    "accept_voucher_row edge_hash profile_owner now stored (Some c) row (vm_seller_identity_id row) actor None w = (Inr row1, w1)"
    "find_capacity (vm_buyer_identity_id row) (vw_capacities w1) = Some (?c c)" "ledger_ok (vw_capacities w1)"
    "map vm_voucher_id (vw_vouchers w1) = map vm_voucher_id (vw_vouchers w)"
    "sum_list (map total_bill_credits (vw_capacities w1)) \<le> sum_list (map total_locked_usdc (vw_capacities w1)) + ANCHOR_EPSILON"
    using assms(7) by fastforce
  have "?a \<le> available_credits (?c c)" using assms(6) by simp
  from accept_success [OF assms(1-3) 1(3,2) this enough 1(5), of edge_hash profile_owner stored actor]
  obtain row2 w2 where 2:
    "accept_voucher_row edge_hash profile_owner now stored (Some c) row (vm_seller_identity_id row) actor None w1 = (Inr row2, w2)"
    "find_capacity (vm_buyer_identity_id row) (vw_capacities w2) = Some (?c (?c c))"
    "map vm_voucher_id (vw_vouchers w2) = map vm_voucher_id (vw_vouchers w1)" by blast
  from 1(1,4) 2 show ?thesis
    by (intro exI [of _ row1] exI [of _ w1] exI [of _ row2] exI [of _ w2] exI [of _ "?c (?c c)"]) simp
qed

theorem concurrent_accepts_reserve_twice_witness:
  "\<exists>c2 w2. find_capacity ''b'' (vw_capacities w2) = Some c2 \<and> reserved_credits c2 = 10
     \<and> (\<exists>r w1. accept_voucher_row (\<lambda>_ _ _ _ _ _. ''h'') (\<lambda>_. None) 1 True (Some (sample_capacity 20 0))
            (sample_voucher 5 V_CREATED) ''s'' ''api'' None w1 = (Inr r, w2))"
proof -
  let ?w = "sample_world (sample_capacity 20 0) (sample_voucher 5 V_CREATED)"
  have "ledger_ok (vw_capacities ?w)"
    using EPSILON_pos by (simp add: ledger_ok_def sample_world_def sample_capacity_def zero_capacity_def row_ok_def active_credits_def)
  moreover have "find_capacity ''b'' (vw_capacities ?w) = Some (sample_capacity 20 0)"
    by (simp add: find_capacity_def sample_world_def sample_capacity_def zero_capacity_def)
  ultimately show ?thesis
    using concurrent_accepts_reserve_twice [of "sample_voucher 5 V_CREATED" 1 ?w "sample_capacity 20 0"
        "\<lambda>_ _ _ _ _ _. ''h''" "\<lambda>_. None" True "''api''"]
    by (auto simp: sample_voucher_def sample_world_def sample_capacity_def zero_capacity_def ANCHOR_EPSILON_def)
qed

text \<open>An acceptance that finds the voucher expired marks it as expired and raises, and the session rolls
  the mark back: nothing of the request is kept and the voucher still reads as created.\<close>

lemma expired_mark_rolled_back:
  assumes "vm_status row = V_CREATED" "vm_expiry_time row \<le> now"
  shows "get_session (accept_voucher_row edge_hash profile_owner now stored cap row seller actor profile) w
    = (Inl (HTTPException 409 ''voucher expired''), w)"
  using assms by (simp add: get_session_def accept_voucher_row_def update_voucher_def)

text \<open>A reservation can be impossible to give back: it is taken in full, but given back rounded to six
  decimals. When the rounding goes up, neither the expiry of the voucher nor the sweep of leaked
  reservations releases anything, and the credits stay reserved.\<close>

lemma rounded_up_reservation_stuck:
  assumes "reserved_credits c = vm_bill_credit_amount v" "cap_identity_id c = vm_buyer_identity_id v"
    and "round_decimals (vm_bill_credit_amount v) 6 > vm_bill_credit_amount v + EPSILON" "0 < vm_bill_credit_amount v"
  shows "release_reservation now v [c] = Inr (0, [c])
    \<and> restore_leaked_reservations now limit [] [] [c] = Inr ([], [c])"
proof -
  let ?x = "round_decimals (vm_bill_credit_amount v) 6"
  have "find_capacity (vm_buyer_identity_id v) [c] = Some c" using assms(2) by (simp add: find_capacity_def)
  from apply_delta_miss [OF _ this, of "[\<lambda>r. reserved_credits r + EPSILON \<ge> ?x]"]
  have "give_back now (vm_buyer_identity_id v) ?x m [c] = Inr (False, [c])" for m
    using assms(1,3) by (simp add: give_back_def apply_delta_or_raise_def)
  moreover have "0 < ?x" "\<not> ?x \<le> EPSILON" using assms(3,4) EPSILON_pos by simp_all
  ultimately show ?thesis using assms(1,2)
    by (cases limit) (auto simp: release_reservation_def Let_def restore_leaked_reservations_def leak_excess_def
        in_flight_def held_by_vouchers_def)
qed

text \<open>The check of a voucher tells the seller of a rejected voucher to start: it only looks for the
  statuses used and cancelled, while no rejected voucher can be accepted any more.\<close>

lemma rejected_voucher_can_start:
  assumes "vm_status row = V_REJECTED" "now < vm_expiry_time row" "vm_bill_credit_amount row \<le> available_credits c"
  shows "verify_voucher now (vm_seller_identity_id row) None (Some c) row = (False, False, True)
    \<and> fst (accept_voucher_row edge_hash profile_owner now stored (Some c) row (vm_seller_identity_id row) actor profile w)
      = Inl (HTTPException 409 ''voucher already processed'')"
  using assms by (simp add: verify_voucher_def accept_voucher_row_def Let_def)

end
