(* ===== verification/Settlement_Engine.thy ===== *)
theory Settlement_Engine
  imports Lifecycle Stores
begin

text \<open>
  The settlement lifecycle (\<^verbatim>\<open>core/settlement/engine.py\<close> with the statuses of \<^verbatim>\<open>core/schemas.py\<close>): the
  mapping of legacy statuses, the transition table, what counts as terminal and as accepted, and the
  in-memory store. The HTTP client of the module only forwards calls and is not modelled.
\<close>

section \<open>Statuses\<close>

datatype TaskStatus =
    DRAFT | PENDING | ACCEPTED | IN_PROGRESS | PROGRESS_SUBMITTED | PROGRESS_CONFIRMED | DELIVERED
  | DISPUTED | ARBITRATED | SETTLED | REFUNDED | CANCELLED
  | CREATED | LOCKED | RUNNING | SUBMITTED | BUYER_REGRET | VERIFYING | VERIFIED | RELEASED | FAILED
  | ARBITRATION | BUYER_WINS | SELLER_WINS | PARTIAL
  | AUTHORIZED | AUTO_CONFIRMED | PARTIALLY_SETTLED | FROZEN

definition all_statuses :: "TaskStatus list" where
  "all_statuses =
     [DRAFT, PENDING, ACCEPTED, IN_PROGRESS, PROGRESS_SUBMITTED, PROGRESS_CONFIRMED, DELIVERED,
      DISPUTED, ARBITRATED, SETTLED, REFUNDED, CANCELLED,
      CREATED, LOCKED, RUNNING, SUBMITTED, BUYER_REGRET, VERIFYING, VERIFIED, RELEASED, FAILED,
      ARBITRATION, BUYER_WINS, SELLER_WINS, PARTIAL,
      AUTHORIZED, AUTO_CONFIRMED, PARTIALLY_SETTLED, FROZEN]"

definition status_value :: "TaskStatus \<Rightarrow> string" where
  "status_value s = (case s of
     DRAFT \<Rightarrow> ''draft'' | PENDING \<Rightarrow> ''pending'' | ACCEPTED \<Rightarrow> ''accepted'' | IN_PROGRESS \<Rightarrow> ''in_progress''
   | PROGRESS_SUBMITTED \<Rightarrow> ''progress_submitted'' | PROGRESS_CONFIRMED \<Rightarrow> ''progress_confirmed''
   | DELIVERED \<Rightarrow> ''delivered'' | DISPUTED \<Rightarrow> ''disputed'' | ARBITRATED \<Rightarrow> ''arbitrated'' | SETTLED \<Rightarrow> ''settled''
   | REFUNDED \<Rightarrow> ''refunded'' | CANCELLED \<Rightarrow> ''cancelled'' | CREATED \<Rightarrow> ''created'' | LOCKED \<Rightarrow> ''locked''
   | RUNNING \<Rightarrow> ''running'' | SUBMITTED \<Rightarrow> ''submitted'' | BUYER_REGRET \<Rightarrow> ''buyer_regret''
   | VERIFYING \<Rightarrow> ''verifying'' | VERIFIED \<Rightarrow> ''verified'' | RELEASED \<Rightarrow> ''released'' | FAILED \<Rightarrow> ''failed''
   | ARBITRATION \<Rightarrow> ''arbitration'' | BUYER_WINS \<Rightarrow> ''buyer_wins'' | SELLER_WINS \<Rightarrow> ''seller_wins''
   | PARTIAL \<Rightarrow> ''partial'' | AUTHORIZED \<Rightarrow> ''authorized'' | AUTO_CONFIRMED \<Rightarrow> ''auto_confirmed''
   | PARTIALLY_SETTLED \<Rightarrow> ''partially_settled'' | FROZEN \<Rightarrow> ''frozen'')"

text \<open>\<^verbatim>\<open>TaskStatus(s)\<close>; \<open>None\<close> is the ValueError of an unknown value.\<close>

definition parse_status :: "string \<Rightarrow> TaskStatus option" where
  "parse_status v = find (\<lambda>s. status_value s = v) all_statuses"

definition LEGACY_TO_CANONICAL_STATUS :: "(TaskStatus \<times> TaskStatus) list" where
  "LEGACY_TO_CANONICAL_STATUS =
     [(CREATED, DRAFT), (LOCKED, ACCEPTED), (RUNNING, IN_PROGRESS), (SUBMITTED, DELIVERED),
      (BUYER_REGRET, SETTLED), (VERIFYING, DELIVERED), (VERIFIED, DELIVERED), (RELEASED, SETTLED),
      (FAILED, CANCELLED), (ARBITRATION, ARBITRATED), (BUYER_WINS, REFUNDED), (SELLER_WINS, SETTLED),
      (PARTIAL, SETTLED), (AUTHORIZED, AUTHORIZED), (AUTO_CONFIRMED, AUTO_CONFIRMED),
      (PARTIALLY_SETTLED, PARTIALLY_SETTLED), (FROZEN, FROZEN)]"

definition VALID_TRANSITIONS :: "(TaskStatus \<times> TaskStatus list) list" where
  "VALID_TRANSITIONS =
     [(DRAFT, [PENDING, ACCEPTED, CANCELLED]),
      (PENDING, [ACCEPTED, CANCELLED]),
      (ACCEPTED, [IN_PROGRESS, DISPUTED, CANCELLED]),
      (IN_PROGRESS, [PROGRESS_SUBMITTED, DELIVERED, SETTLED, DISPUTED, CANCELLED]),
      (PROGRESS_SUBMITTED, [PROGRESS_SUBMITTED, PROGRESS_CONFIRMED, DELIVERED, SETTLED, DISPUTED]),
      (PROGRESS_CONFIRMED, [DELIVERED, DISPUTED, SETTLED, AUTO_CONFIRMED]),
      (DELIVERED, [SETTLED, DISPUTED, REFUNDED, FROZEN, AUTO_CONFIRMED]),
      (DISPUTED, [ARBITRATED, FROZEN]),
      (ARBITRATED, [SETTLED, REFUNDED, PARTIALLY_SETTLED, FROZEN]),
      (SETTLED, [FROZEN]),
      (PARTIALLY_SETTLED, [SETTLED, FROZEN]),
      (REFUNDED, [FROZEN]),
      (CANCELLED, [FROZEN]),
      (AUTO_CONFIRMED, [SETTLED, DISPUTED, FROZEN]),
      (FROZEN, [DELIVERED, DISPUTED, SETTLED, REFUNDED, CANCELLED])]"

definition FREEZE_OVERRIDE :: TaskStatus where "FREEZE_OVERRIDE = FROZEN"

definition STATUS_ORDER :: "(TaskStatus \<times> int) list" where
  "STATUS_ORDER =
     [(DRAFT, 1), (PENDING, 2), (ACCEPTED, 3), (IN_PROGRESS, 4), (PROGRESS_SUBMITTED, 5),
      (PROGRESS_CONFIRMED, 6), (DELIVERED, 7), (DISPUTED, 8), (ARBITRATED, 9), (AUTO_CONFIRMED, 10),
      (PARTIALLY_SETTLED, 11), (SETTLED, 12), (REFUNDED, 12), (CANCELLED, 12), (FROZEN, 13)]"

definition canonical_task_status :: "TaskStatus \<Rightarrow> TaskStatus" where
  "canonical_task_status status =
     (case map_of LEGACY_TO_CANONICAL_STATUS status of Some c \<Rightarrow> c | None \<Rightarrow> status)"

definition edges_of :: "TaskStatus \<Rightarrow> TaskStatus list" where
  "edges_of s = (case map_of VALID_TRANSITIONS s of Some es \<Rightarrow> es | None \<Rightarrow> [])"

definition is_terminal :: "TaskStatus \<Rightarrow> bool" where
  "is_terminal status = list_all (\<lambda>edge. edge = FREEZE_OVERRIDE) (edges_of (canonical_task_status status))"

definition can_transition :: "TaskStatus \<Rightarrow> TaskStatus \<Rightarrow> bool" where
  "can_transition from_status to_status =
     (canonical_task_status to_status \<in> set (edges_of (canonical_task_status from_status)))"

definition is_post_accepted :: "TaskStatus \<Rightarrow> bool" where
  "is_post_accepted status =
     ((case map_of STATUS_ORDER (canonical_task_status status) of Some n \<Rightarrow> n | None \<Rightarrow> 0) \<ge> 3)"

section \<open>The tables, by evaluation\<close>

lemma all_statuses_complete: "s \<in> set all_statuses"
  by (cases s) (simp_all add: all_statuses_def)

lemma for_all_statuses: "list_all P all_statuses \<Longrightarrow> P s"
  using all_statuses_complete by (simp add: list_all_iff)

lemma parse_status_value: "parse_status (status_value s) = Some s"
  by (rule for_all_statuses) code_simp

lemma canonical_idem [simp]: "canonical_task_status (canonical_task_status s) = canonical_task_status s"
  by (cases s) (simp_all add: canonical_task_status_def LEGACY_TO_CANONICAL_STATUS_def)

lemma can_transition_canonical [simp]:
  "can_transition (canonical_task_status s) t = can_transition s t"
  "can_transition s (canonical_task_status t) = can_transition s t"
  by (simp_all add: can_transition_def)

lemma is_post_accepted_canonical [simp]: "is_post_accepted (canonical_task_status s) = is_post_accepted s"
  by (simp add: is_post_accepted_def)

text \<open>Acceptance is never undone: from an accepted status only accepted statuses can be reached.\<close>

lemma post_accepted_table:
  "list_all (\<lambda>s. list_all (\<lambda>t. can_transition s t \<longrightarrow> is_post_accepted s \<longrightarrow> is_post_accepted t) all_statuses) all_statuses"
  by code_simp

lemma post_accepted_kept: "can_transition s t \<Longrightarrow> is_post_accepted s \<Longrightarrow> is_post_accepted t"
  using for_all_statuses [OF for_all_statuses [OF post_accepted_table, of s], of t] by simp

interpretation acceptance: kept can_transition is_post_accepted
  by unfold_locales (rule post_accepted_kept)

section \<open>The in-memory store\<close>

text \<open>The states are keyed by task; \<open>task_of\<close> and \<open>status_of\<close> read a state.\<close>

definition memory_save :: "('s \<Rightarrow> string) \<Rightarrow> 's \<Rightarrow> (string \<times> 's) list \<Rightarrow> (string \<times> 's) list" where
  "memory_save task_of state store = dict_set (task_of state) state store"

definition memory_get :: "string \<Rightarrow> (string \<times> 's) list \<Rightarrow> 's option" where
  "memory_get task_id store = map_of store task_id"

definition memory_list_by_status :: "('s \<Rightarrow> TaskStatus) \<Rightarrow> TaskStatus \<Rightarrow> (string \<times> 's) list \<Rightarrow> 's list" where
  "memory_list_by_status status_of status store = filter (\<lambda>s. status_of s = status) (map snd store)"

lemma memory_get_save:
  "memory_get t (memory_save task_of s store) = (if t = task_of s then Some s else memory_get t store)"
  by (simp add: memory_get_def memory_save_def)

section \<open>Properties\<close>

text \<open>What the lifecycle guarantees: the terminal statuses are exactly settled, refunded, cancelled and
  the off-task status authorized, with their legacy names; a terminal status can only be frozen; and once
  a settlement is accepted, every status it can reach by any number of transitions counts as accepted.\<close>

lemma lifecycle_guarantees:
  "(is_terminal s \<longleftrightarrow> canonical_task_status s \<in> {SETTLED, REFUNDED, CANCELLED, AUTHORIZED})
   \<and> (is_terminal s \<longrightarrow> can_transition s t \<longrightarrow> canonical_task_status t = FROZEN)
   \<and> (is_post_accepted s \<longrightarrow> can_transition\<^sup>*\<^sup>* s u \<longrightarrow> is_post_accepted u)"
proof -
  have "list_all (\<lambda>s. is_terminal s \<longleftrightarrow> canonical_task_status s \<in> set [SETTLED, REFUNDED, CANCELLED, AUTHORIZED]) all_statuses"
    by code_simp
  from for_all_statuses [OF this, of s]
  have "is_terminal s \<longleftrightarrow> canonical_task_status s \<in> {SETTLED, REFUNDED, CANCELLED, AUTHORIZED}" by simp
  moreover have "canonical_task_status t = FROZEN" if "is_terminal s" "can_transition s t"
    using that by (auto simp: is_terminal_def can_transition_def list_all_iff FREEZE_OVERRIDE_def)
  ultimately show ?thesis using acceptance.reach_keeps by blast
qed

text \<open>A terminal settlement is not finished: through a freeze a settled payment can be refunded and a
  refunded one settled, and this can be repeated without end.\<close>

lemma terminal_statuses_reopen:
  "is_terminal SETTLED \<and> is_terminal REFUNDED
   \<and> follows can_transition SETTLED (concat (replicate n [FROZEN, REFUNDED, FROZEN, SETTLED]))"
proof -
  have "follows can_transition SETTLED (concat (replicate n [FROZEN, REFUNDED, FROZEN, SETTLED]))"
  proof (induction n)
    case (Suc n)
    have "can_transition SETTLED FROZEN" "can_transition FROZEN REFUNDED" "can_transition REFUNDED FROZEN"
      "can_transition FROZEN SETTLED" by code_simp+
    with Suc show ?case by simp
  qed simp
  moreover have "is_terminal SETTLED" "is_terminal REFUNDED" by code_simp+
  ultimately show ?thesis by blast
qed

end
