(* ===== verification/Settlement_Store.thy ===== *)
theory Settlement_Store
  imports Complex_Main Settlement_Engine Json
begin

text \<open>
  The settlement rows and their store (\<^verbatim>\<open>db/stores/settlement_store.py\<close>, \<^verbatim>\<open>SettlementState\<close> of
  \<^verbatim>\<open>core/schemas.py\<close>, \<^verbatim>\<open>SettlementModel\<close> of \<^verbatim>\<open>db/models/orm.py\<close>): a save that guards the status and the
  immutable fields, the translation between states and rows, and the queries. The table is the list of
  its rows; the unique and foreign keys of the table and the automatic \<^verbatim>\<open>updated_at\<close> of an UPDATE are part of
  the model, the widths of the text columns are not. Instants are microseconds, amounts rationals.
\<close>

section \<open>States and rows\<close>

record SettlementState =
  ss_settlement_id :: string
  ss_task_id :: string
  ss_escrow_amount :: rat
  ss_currency :: string
  ss_status :: TaskStatus
  ss_client_agent_id :: string
  ss_worker_agent_id :: "string option"
  ss_profile_id :: "string option"
  ss_worker_profile_id :: "string option"
  ss_released_amount :: "rat option"
  ss_refunded_amount :: "rat option"
  ss_dispute_reason :: "string option"
  ss_rejection_reason_code :: "string option"
  ss_arbitration_notes :: "string option"
  ss_created_at :: int
  ss_updated_at :: int
  ss_released_at :: "int option"
  ss_settlement_mode :: string
  ss_chain_id :: "int option"
  ss_contract_address :: "string option"
  ss_tx_hash :: "string option"
  ss_evidence_bundle_hash :: "string option"
  ss_onchain_status :: "string option"
  ss_onchain_binding_id :: "int option"
  ss_onchain_buyer_bill_id :: "int option"
  ss_onchain_agent_bill_id :: "int option"
  ss_quote_id :: "string option"
  ss_voucher_id :: "string option"
  ss_delivery_deadline_at :: "int option"
  ss_confirm_window_hours :: "int option"
  ss_confirm_deadline_at :: "int option"
  ss_progress_rule_spec :: "json option"
  ss_funding_source :: string

record SettlementModel =
  sm_settlement_id :: string
  sm_task_id :: string
  sm_escrow_amount :: rat
  sm_currency :: string
  sm_status :: string
  sm_client_agent_id :: string
  sm_worker_agent_id :: "string option"
  sm_profile_id :: "string option"
  sm_worker_profile_id :: "string option"
  sm_released_amount :: "rat option"
  sm_refunded_amount :: "rat option"
  sm_dispute_reason :: "string option"
  sm_arbitration_notes :: "string option"
  sm_created_at :: int
  sm_updated_at :: int
  sm_released_at :: "int option"
  sm_settlement_mode :: string
  sm_chain_id :: "int option"
  sm_contract_address :: "string option"
  sm_tx_hash :: "string option"
  sm_evidence_bundle_hash :: "string option"
  sm_onchain_status :: "string option"
  sm_onchain_binding_id :: "int option"
  sm_onchain_buyer_bill_id :: "int option"
  sm_onchain_agent_bill_id :: "int option"
  sm_quote_id :: "string option"
  sm_voucher_id :: "string option"
  sm_delivery_deadline_at :: "int option"
  sm_confirm_window_hours :: "int option"
  sm_confirm_deadline_at :: "int option"
  sm_progress_rule_spec :: "json option"
  sm_funding_source :: string

definition or_internal :: "string \<Rightarrow> string" where
  "or_internal s = (if s = [] then ''internal'' else s)"

definition to_row :: "SettlementState \<Rightarrow> SettlementModel" where
  "to_row s =
     \<lparr>sm_settlement_id = ss_settlement_id s, sm_task_id = ss_task_id s, sm_escrow_amount = ss_escrow_amount s,
      sm_currency = ss_currency s, sm_status = status_value (canonical_task_status (ss_status s)),
      sm_client_agent_id = ss_client_agent_id s, sm_worker_agent_id = ss_worker_agent_id s,
      sm_profile_id = ss_profile_id s, sm_worker_profile_id = ss_worker_profile_id s,
      sm_released_amount = ss_released_amount s, sm_refunded_amount = ss_refunded_amount s,
      sm_dispute_reason = ss_dispute_reason s, sm_arbitration_notes = ss_arbitration_notes s,
      sm_created_at = ss_created_at s, sm_updated_at = ss_updated_at s, sm_released_at = ss_released_at s,
      sm_settlement_mode = ss_settlement_mode s, sm_chain_id = ss_chain_id s,
      sm_contract_address = ss_contract_address s, sm_tx_hash = ss_tx_hash s,
      sm_evidence_bundle_hash = ss_evidence_bundle_hash s, sm_onchain_status = ss_onchain_status s,
      sm_onchain_binding_id = ss_onchain_binding_id s, sm_onchain_buyer_bill_id = ss_onchain_buyer_bill_id s,
      sm_onchain_agent_bill_id = ss_onchain_agent_bill_id s, sm_quote_id = ss_quote_id s,
      sm_voucher_id = ss_voucher_id s, sm_delivery_deadline_at = ss_delivery_deadline_at s,
      sm_confirm_window_hours = ss_confirm_window_hours s, sm_confirm_deadline_at = ss_confirm_deadline_at s,
      sm_progress_rule_spec = ss_progress_rule_spec s, sm_funding_source = or_internal (ss_funding_source s)\<rparr>"

datatype settlement_error = Value_Error string | Integrity_Error string

text \<open>\<^verbatim>\<open>SettlementState\<close> accepts a confirmation window of 0 to 720 hours only.\<close>

definition window_ok :: "int option \<Rightarrow> bool" where
  "window_ok w = (case w of None \<Rightarrow> True | Some h \<Rightarrow> 0 \<le> h \<and> h \<le> 720)"

definition from_row :: "SettlementModel \<Rightarrow> settlement_error + SettlementState" where
  "from_row row =
     (case parse_status (sm_status row) of
        None \<Rightarrow> Inl (Value_Error ''not a valid TaskStatus'')
      | Some status \<Rightarrow>
          if \<not> window_ok (sm_confirm_window_hours row) then Inl (Value_Error ''confirm_window_hours'')
          else Inr \<lparr>ss_settlement_id = sm_settlement_id row, ss_task_id = sm_task_id row,
      ss_escrow_amount = sm_escrow_amount row, ss_currency = sm_currency row,
      ss_status = canonical_task_status status, ss_client_agent_id = sm_client_agent_id row,
      ss_worker_agent_id = sm_worker_agent_id row, ss_profile_id = sm_profile_id row,
      ss_worker_profile_id = sm_worker_profile_id row, ss_released_amount = sm_released_amount row,
      ss_refunded_amount = sm_refunded_amount row, ss_dispute_reason = sm_dispute_reason row,
      ss_rejection_reason_code = None, ss_arbitration_notes = sm_arbitration_notes row,
      ss_created_at = sm_created_at row, ss_updated_at = sm_updated_at row, ss_released_at = sm_released_at row,
      ss_settlement_mode = sm_settlement_mode row, ss_chain_id = sm_chain_id row,
      ss_contract_address = sm_contract_address row, ss_tx_hash = sm_tx_hash row,
      ss_evidence_bundle_hash = sm_evidence_bundle_hash row, ss_onchain_status = sm_onchain_status row,
      ss_onchain_binding_id = sm_onchain_binding_id row,
      ss_onchain_buyer_bill_id = sm_onchain_buyer_bill_id row,
      ss_onchain_agent_bill_id = sm_onchain_agent_bill_id row, ss_quote_id = sm_quote_id row,
      ss_voucher_id = sm_voucher_id row, ss_delivery_deadline_at = sm_delivery_deadline_at row,
      ss_confirm_window_hours = sm_confirm_window_hours row,
      ss_confirm_deadline_at = sm_confirm_deadline_at row, ss_progress_rule_spec = sm_progress_rule_spec row,
      ss_funding_source = or_internal (sm_funding_source row)\<rparr>)"

section \<open>The store\<close>

definition find_settlement :: "string \<Rightarrow> SettlementModel list \<Rightarrow> SettlementModel option" where
  "find_settlement sid rows = find (\<lambda>r. sm_settlement_id r = sid) rows"

text \<open>The first of the fields that may not change after acceptance and does.\<close>

definition changed_field :: "SettlementModel \<Rightarrow> SettlementModel \<Rightarrow> string option" where
  "changed_field existing row =
     (if sm_escrow_amount existing \<noteq> sm_escrow_amount row then Some ''escrow_amount''
      else if sm_currency existing \<noteq> sm_currency row then Some ''currency''
      else if sm_client_agent_id existing \<noteq> sm_client_agent_id row then Some ''client_agent_id''
      else if sm_worker_agent_id existing \<noteq> sm_worker_agent_id row then Some ''worker_agent_id''
      else None)"

text \<open>An UPDATE sets \<^verbatim>\<open>updated_at\<close> itself when the statement does not change it.\<close>

definition stamp_update :: "int \<Rightarrow> SettlementModel \<Rightarrow> SettlementModel \<Rightarrow> SettlementModel" where
  "stamp_update now existing row =
     (if row = existing then existing
      else if sm_updated_at row = sm_updated_at existing then row\<lparr>sm_updated_at := now\<rparr> else row)"

definition row_allowed :: "string list \<Rightarrow> SettlementModel list \<Rightarrow> SettlementModel \<Rightarrow> bool" where
  "row_allowed contracts others row \<longleftrightarrow>
     sm_task_id row \<in> set contracts \<and> sm_task_id row \<notin> sm_task_id ` set others"

definition save :: "int \<Rightarrow> string list \<Rightarrow> SettlementState \<Rightarrow> SettlementModel list \<Rightarrow> settlement_error + SettlementModel list" where
  "save now contracts state rows =
     (let row = to_row state in
      case find_settlement (ss_settlement_id state) rows of
        None \<Rightarrow>
          if row_allowed contracts rows row then Inr (rows @ [row]) else Inl (Integrity_Error ''settlements'')
      | Some existing \<Rightarrow>
          (case parse_status (sm_status existing) of
             None \<Rightarrow> Inl (Value_Error ''not a valid TaskStatus'')
           | Some status \<Rightarrow>
               (let existing_status = canonical_task_status status;
                    next_status = canonical_task_status (ss_status state)
                in if existing_status \<noteq> next_status \<and> \<not> can_transition existing_status next_status
                   then Inl (Value_Error ''invalid status transition persistence guard'')
                   else case (if is_post_accepted existing_status then changed_field existing row else None) of
                          Some f \<Rightarrow> Inl (Value_Error (''immutable field cannot be modified after accepted: '' @ f))
                        | None \<Rightarrow>
                            if row_allowed contracts (filter (\<lambda>r. sm_settlement_id r \<noteq> sm_settlement_id row) rows) row
                            then Inr (map (\<lambda>r. if sm_settlement_id r = sm_settlement_id row then stamp_update now existing row else r) rows)
                            else Inl (Integrity_Error ''settlements''))))"

definition get :: "string \<Rightarrow> SettlementModel list \<Rightarrow> settlement_error + SettlementState option" where
  "get task_id rows =
     (case filter (\<lambda>r. sm_task_id r = task_id) rows of
        [] \<Rightarrow> Inr None
      | [row] \<Rightarrow> (case from_row row of Inl e \<Rightarrow> Inl e | Inr s \<Rightarrow> Inr (Some s))
      | _ \<Rightarrow> Inl (Integrity_Error ''multiple rows were found''))"

fun from_rows :: "SettlementModel list \<Rightarrow> settlement_error + SettlementState list" where
  "from_rows [] = Inr []"
| "from_rows (r # rs) =
     (case from_row r of Inl e \<Rightarrow> Inl e
      | Inr s \<Rightarrow> (case from_rows rs of Inl e \<Rightarrow> Inl e | Inr ss \<Rightarrow> Inr (s # ss)))"

definition list_by_status :: "TaskStatus \<Rightarrow> SettlementModel list \<Rightarrow> settlement_error + SettlementState list" where
  "list_by_status status rows = from_rows (filter (\<lambda>r. sm_status r = status_value status) rows)"

section \<open>Tables stay well formed\<close>

definition rows_ok :: "string list \<Rightarrow> SettlementModel list \<Rightarrow> bool" where
  "rows_ok contracts rows \<longleftrightarrow>
     distinct (map sm_settlement_id rows) \<and> distinct (map sm_task_id rows)
     \<and> (\<forall>r \<in> set rows. sm_task_id r \<in> set contracts
          \<and> (\<exists>s. sm_status r = status_value (canonical_task_status s)) \<and> sm_funding_source r \<noteq> [])"

lemma to_row_simps [simp]:
  "sm_settlement_id (to_row s) = ss_settlement_id s" "sm_task_id (to_row s) = ss_task_id s"
  "sm_status (to_row s) = status_value (canonical_task_status (ss_status s))"
  "sm_funding_source (to_row s) = or_internal (ss_funding_source s)"
  "sm_escrow_amount (to_row s) = ss_escrow_amount s" "sm_currency (to_row s) = ss_currency s"
  "sm_client_agent_id (to_row s) = ss_client_agent_id s" "sm_worker_agent_id (to_row s) = ss_worker_agent_id s"
  by (simp_all add: to_row_def)

lemma or_internal_not_Nil [simp]: "or_internal s \<noteq> []"
  by (simp add: or_internal_def)

lemma stamp_update_simps [simp]:
  "sm_settlement_id (stamp_update now ex row) = sm_settlement_id row" "sm_task_id (stamp_update now ex row) = sm_task_id row"
  "sm_status (stamp_update now ex row) = sm_status row" "sm_funding_source (stamp_update now ex row) = sm_funding_source row"
  "sm_escrow_amount (stamp_update now ex row) = sm_escrow_amount row" "sm_currency (stamp_update now ex row) = sm_currency row"
  "sm_client_agent_id (stamp_update now ex row) = sm_client_agent_id row"
  "sm_worker_agent_id (stamp_update now ex row) = sm_worker_agent_id row"
  by (simp_all add: stamp_update_def)

text \<open>What a successful save writes: a new row at the end, or the row of the settlement in place.\<close>

lemma save_cases:
  assumes "save now contracts s rows = Inr rows'"
  obtains (insert) "find_settlement (ss_settlement_id s) rows = None" "row_allowed contracts rows (to_row s)"
      "rows' = rows @ [to_row s]"
  | (update) existing status where "find_settlement (ss_settlement_id s) rows = Some existing"
      "parse_status (sm_status existing) = Some status"
      "canonical_task_status status = canonical_task_status (ss_status s) \<or> can_transition status (ss_status s)"
      "is_post_accepted status \<Longrightarrow> changed_field existing (to_row s) = None"
      "row_allowed contracts (filter (\<lambda>r. sm_settlement_id r \<noteq> ss_settlement_id s) rows) (to_row s)"
      "rows' = map (\<lambda>r. if sm_settlement_id r = ss_settlement_id s then stamp_update now existing (to_row s) else r) rows"
  using assms by (auto simp: save_def Let_def split: option.splits if_splits)

lemma parse_canonical [simp]: "parse_status (status_value s) = Some s"
  by (rule parse_status_value)

lemma distinct_replace:
  assumes "distinct (map g rows)" and "g f \<notin> g ` set (filter (\<lambda>r. k r \<noteq> key) rows)" and "distinct (map k rows)"
  shows "distinct (map g (map (\<lambda>r. if k r = key then f else r) rows))"
  using assms
proof (induction rows)
  case (Cons r rows)
  show ?case
  proof (cases "k r = key")
    case True
    with Cons.prems(3) have "map (\<lambda>r. if k r = key then f else r) rows = rows" "filter (\<lambda>r. k r \<noteq> key) rows = rows"
      by (auto intro!: map_idI filter_True) (metis imageI)+
    with True Cons.prems show ?thesis by auto
  next
    case False
    with Cons.prems have "g r \<notin> (\<lambda>x. g (if k x = key then f else x)) ` set rows" by (auto split: if_splits)
    with False Cons show ?thesis by simp
  qed
qed simp

lemma find_settlement_ids: "find_settlement sid rows = None \<longleftrightarrow> sid \<notin> sm_settlement_id ` set rows"
  by (auto simp: find_settlement_def find_None_iff)

lemma find_settlement_append:
  "find_settlement sid (rows @ [r])
   = (case find_settlement sid rows of Some x \<Rightarrow> Some x | None \<Rightarrow> if sm_settlement_id r = sid then Some r else None)"
  by (induction rows) (auto simp: find_settlement_def)

lemma find_settlement_replace:
  "find_settlement sid (map (\<lambda>r. if sm_settlement_id r = i then f else r) rows)
   = (if sid = i then map_option (\<lambda>_. f) (find_settlement sid rows) else find_settlement sid rows)"
  if "sm_settlement_id f = i"
  using that by (induction rows) (auto simp: find_settlement_def)

text \<open>The row of a settlement after a save, and the rows of the others.\<close>

lemma find_settlement_save:
  assumes "save now contracts s rows = Inr rows'"
  shows "\<exists>r. find_settlement (ss_settlement_id s) rows' = Some r
      \<and> (r = to_row s \<or> (\<exists>ex. find_settlement (ss_settlement_id s) rows = Some ex \<and> r = stamp_update now ex (to_row s)))"
    and "sid \<noteq> ss_settlement_id s \<Longrightarrow> find_settlement sid rows' = find_settlement sid rows"
proof -
  show "\<exists>r. find_settlement (ss_settlement_id s) rows' = Some r
      \<and> (r = to_row s \<or> (\<exists>ex. find_settlement (ss_settlement_id s) rows = Some ex \<and> r = stamp_update now ex (to_row s)))"
    using assms
  proof (cases rule: save_cases)
    case insert
    then show ?thesis by (simp add: find_settlement_append)
  next
    case (update existing status)
    then show ?thesis by (simp add: find_settlement_replace)
  qed
  show "find_settlement sid rows' = find_settlement sid rows" if "sid \<noteq> ss_settlement_id s"
    using assms
  proof (cases rule: save_cases)
    case insert
    with that show ?thesis by (simp add: find_settlement_append split: option.split)
  next
    case (update existing status)
    with that show ?thesis by (simp add: find_settlement_replace)
  qed
qed

lemma save_rows_ok:
  assumes "save now contracts s rows = Inr rows'" and "rows_ok contracts rows"
  shows "rows_ok contracts rows'"
  using assms(1)
proof (cases rule: save_cases)
  case insert
  with assms(2) show ?thesis by (auto simp: rows_ok_def find_settlement_ids row_allowed_def)
next
  case (update existing status)
  let ?f = "stamp_update now existing (to_row s)"
  have "distinct (map sm_task_id rows')" unfolding update(6)
    using assms(2) update(5) by (intro distinct_replace) (auto simp: rows_ok_def row_allowed_def)
  moreover have "map sm_settlement_id rows' = map sm_settlement_id rows" unfolding update(6) by simp
  moreover have "r \<in> set rows \<or> r = ?f" if "r \<in> set rows'" for r using that unfolding update(6) by auto
  ultimately show ?thesis using assms(2) update(5) unfolding rows_ok_def row_allowed_def by fastforce
qed

section \<open>What the store promises\<close>

text \<open>The abstract store: the status of every settlement. A save moves one of them along an edge of the
  lifecycle, rewrites it, or adds a settlement.\<close>

definition status_map :: "SettlementModel list \<Rightarrow> string \<Rightarrow> TaskStatus option" where
  "status_map rows sid = (case find_settlement sid rows of None \<Rightarrow> None | Some r \<Rightarrow> parse_status (sm_status r))"

definition lifecycle_spec :: "(string \<Rightarrow> TaskStatus option) \<Rightarrow> string \<Rightarrow> TaskStatus \<Rightarrow> (string \<Rightarrow> TaskStatus option) \<Rightarrow> bool" where
  "lifecycle_spec m sid status m' \<longleftrightarrow>
     m' = m(sid \<mapsto> canonical_task_status status)
     \<and> (case m sid of None \<Rightarrow> True
        | Some old \<Rightarrow> canonical_task_status old = canonical_task_status status \<or> can_transition old status)"

lemma status_map_save:
  assumes "save now contracts s rows = Inr rows'"
  shows "status_map rows' = (status_map rows)(ss_settlement_id s \<mapsto> canonical_task_status (ss_status s))"
proof
  fix sid
  show "status_map rows' sid = ((status_map rows)(ss_settlement_id s \<mapsto> canonical_task_status (ss_status s))) sid"
    using find_settlement_save(1) [OF assms] find_settlement_save(2) [OF assms, of sid] by (cases "sid = ss_settlement_id s") (auto simp: status_map_def)
qed

text \<open>\<open>agreed sid terms rows\<close>: the settlement was accepted on these terms.\<close>

definition terms_of :: "SettlementModel \<Rightarrow> rat \<times> string \<times> string \<times> string option" where
  "terms_of r = (sm_escrow_amount r, sm_currency r, sm_client_agent_id r, sm_worker_agent_id r)"

definition agreed :: "string \<Rightarrow> rat \<times> string \<times> string \<times> string option \<Rightarrow> SettlementModel list \<Rightarrow> bool" where
  "agreed sid terms rows \<longleftrightarrow>
     (\<exists>r st. find_settlement sid rows = Some r \<and> parse_status (sm_status r) = Some st
        \<and> is_post_accepted st \<and> terms_of r = terms)"

definition save_step :: "string list \<Rightarrow> SettlementModel list \<Rightarrow> SettlementModel list \<Rightarrow> bool" where
  "save_step contracts rows rows' \<longleftrightarrow> (\<exists>now s. save now contracts s rows = Inr rows')"

lemma changed_field_terms: "changed_field a b = None \<Longrightarrow> terms_of b = terms_of a"
  by (auto simp: changed_field_def terms_of_def split: if_splits)

lemma terms_of_stamp [simp]: "terms_of (stamp_update now ex row) = terms_of row"
  by (simp add: terms_of_def)

lemma save_keeps_terms:
  assumes "save_step contracts rows rows'" and "agreed sid terms rows"
  shows "agreed sid terms rows'"
proof -
  from assms(1) obtain now s where save: "save now contracts s rows = Inr rows'" by (auto simp: save_step_def)
  show ?thesis
  proof (cases "sid = ss_settlement_id s")
    case False
    with find_settlement_save(2) [OF save False] assms(2) show ?thesis by (simp add: agreed_def)
  next
    case True
    from assms(2) obtain r st where r: "find_settlement sid rows = Some r" "parse_status (sm_status r) = Some st"
      "is_post_accepted st" "terms_of r = terms" by (auto simp: agreed_def)
    from save show ?thesis
    proof (cases rule: save_cases)
      case insert
      with r True show ?thesis by simp
    next
      case (update existing status)
      with r True have same: "existing = r" "status = st" by auto
      have "is_post_accepted (ss_status s)" using update(3) same r(3) acceptance.step_keeps is_post_accepted_canonical by metis
      moreover have "terms_of (to_row s) = terms" using changed_field_terms [OF update(4)] same r(3,4) by simp
      ultimately show ?thesis using find_settlement_save(1) [OF save] True
        by (auto simp: agreed_def)
    qed
  qed
qed

interpretation terms: kept "save_step contracts" "agreed sid terms" for contracts sid terms
  by unfold_locales (rule save_keeps_terms)

section \<open>Properties\<close>

text \<open>C8. The store refines the lifecycle: a save that succeeds changes the status of its own settlement only,
  to the canonical status of the state, and only by adding the settlement, rewriting it in the same
  status or moving it along an edge of the transition table; and the table stays well formed.\<close>

theorem save_refines_lifecycle:
  assumes "save now contracts s rows = Inr rows'" and "rows_ok contracts rows"
  shows "lifecycle_spec (status_map rows) (ss_settlement_id s) (ss_status s) (status_map rows') \<and> rows_ok contracts rows'"
proof -
  from assms(1) have "case status_map rows (ss_settlement_id s) of None \<Rightarrow> True
      | Some old \<Rightarrow> canonical_task_status old = canonical_task_status (ss_status s) \<or> can_transition old (ss_status s)"
    by (cases rule: save_cases) (simp_all add: status_map_def)
  then show ?thesis using status_map_save [OF assms(1)] save_rows_ok [OF assms] by (simp add: lifecycle_spec_def)
qed

text \<open>A settlement over one unit between a buyer and a worker.\<close>

definition sample_settlement :: "TaskStatus \<Rightarrow> SettlementState" where
  "sample_settlement status =
     \<lparr>ss_settlement_id = ''s1'', ss_task_id = ''t1'', ss_escrow_amount = 1, ss_currency = ''USDC'', ss_status = status,
      ss_client_agent_id = ''b'', ss_worker_agent_id = Some ''w'', ss_profile_id = None, ss_worker_profile_id = None,
      ss_released_amount = None, ss_refunded_amount = None, ss_dispute_reason = None,
      ss_rejection_reason_code = Some ''R1'', ss_arbitration_notes = None, ss_created_at = 0, ss_updated_at = 0,
      ss_released_at = None, ss_settlement_mode = ''offchain'', ss_chain_id = None, ss_contract_address = None,
      ss_tx_hash = None, ss_evidence_bundle_hash = None, ss_onchain_status = None, ss_onchain_binding_id = None,
      ss_onchain_buyer_bill_id = None, ss_onchain_agent_bill_id = None, ss_quote_id = None, ss_voucher_id = None,
      ss_delivery_deadline_at = None, ss_confirm_window_hours = None, ss_confirm_deadline_at = None,
      ss_progress_rule_spec = None, ss_funding_source = ''internal''\<rparr>"

lemma sample_save:
  "save 5 [''t1''] (sample_settlement st) [] = Inr [to_row (sample_settlement st)]"
  by (simp add: save_def find_settlement_def row_allowed_def to_row_def sample_settlement_def)

theorem save_refines_lifecycle_witness:
  "rows_ok [''t1''] [to_row (sample_settlement ACCEPTED)]
   \<and> lifecycle_spec (status_map []) ''s1'' ACCEPTED (status_map [to_row (sample_settlement ACCEPTED)])"
proof -
  have "rows_ok [''t1''] []" by (simp add: rows_ok_def)
  from save_refines_lifecycle [OF sample_save this, of ACCEPTED] show ?thesis by (simp add: sample_settlement_def)
qed

text \<open>C3. What was accepted stays agreed: once a settlement is accepted, no sequence of saves, of this or any
  other settlement, changes its escrow amount, its currency or its two parties, and it keeps counting
  as accepted.\<close>

theorem accepted_terms_immutable:
  assumes "(save_step contracts)\<^sup>*\<^sup>* rows rows'"
    and "find_settlement sid rows = Some r" "parse_status (sm_status r) = Some status" "is_post_accepted status"
  shows "\<exists>r' status'. find_settlement sid rows' = Some r' \<and> parse_status (sm_status r') = Some status'
    \<and> is_post_accepted status' \<and> sm_escrow_amount r' = sm_escrow_amount r \<and> sm_currency r' = sm_currency r
    \<and> sm_client_agent_id r' = sm_client_agent_id r \<and> sm_worker_agent_id r' = sm_worker_agent_id r"
proof -
  have "agreed sid (terms_of r) rows" using assms(2-4) by (auto simp: agreed_def)
  from terms.reach_keeps [OF assms(1) this] show ?thesis by (auto simp: agreed_def terms_of_def)
qed

theorem accepted_terms_immutable_witness:
  "\<exists>r'. find_settlement ''s1'' [to_row (sample_settlement ACCEPTED)] = Some r' \<and> sm_escrow_amount r' = 1"
proof -
  have "find_settlement ''s1'' [to_row (sample_settlement ACCEPTED)] = Some (to_row (sample_settlement ACCEPTED))"
    by (simp add: find_settlement_def sample_settlement_def)
  moreover have "parse_status (sm_status (to_row (sample_settlement ACCEPTED))) = Some ACCEPTED"
    by (simp add: sample_settlement_def canonical_task_status_def LEGACY_TO_CANONICAL_STATUS_def)
  moreover have "is_post_accepted ACCEPTED" by code_simp
  ultimately show ?thesis
    using accepted_terms_immutable [of "[''t1'']", OF rtranclp.rtrancl_refl, of "''s1''"]
    by (fastforce simp: sample_settlement_def)
qed

text \<open>The state as it is read back: with the canonical status, without the rejection code, and with a
  funding source.\<close>

definition read_back :: "SettlementState \<Rightarrow> SettlementState" where
  "read_back s = s\<lparr>ss_status := canonical_task_status (ss_status s), ss_rejection_reason_code := None,
     ss_funding_source := or_internal (ss_funding_source s)\<rparr>"

lemma from_to_row:
  "from_row (to_row s)
   = (if window_ok (ss_confirm_window_hours s) then Inr (read_back s) else Inl (Value_Error ''confirm_window_hours''))"
  by (simp add: from_row_def to_row_def read_back_def or_internal_def)

lemma save_new_get:
  assumes "find_settlement (ss_settlement_id s) rows = None"
    and "save now contracts s rows = Inr rows'"
  shows "get (ss_task_id s) rows' = (case from_row (to_row s) of Inl e \<Rightarrow> Inl e | Inr x \<Rightarrow> Inr (Some x))"
  using assms(2)
proof (cases rule: save_cases)
  case insert
  then have "filter (\<lambda>r. sm_task_id r = ss_task_id s) rows = []" by (auto simp: row_allowed_def filter_empty_conv) (metis imageI)
  with insert show ?thesis by (simp add: get_def)
qed (use assms(1) in simp)

text \<open>A new settlement is read back as it was saved, but in its canonical status and without its
  rejection reason code, which no column holds; and a state whose confirmation window was set outside of
  0 to 720 hours is saved and can never be read again.\<close>

lemma saved_settlement_read_back:
  assumes "find_settlement (ss_settlement_id s) rows = None"
    and "save now contracts s rows = Inr rows'"
  shows "get (ss_task_id s) rows' =
    (if window_ok (ss_confirm_window_hours s)
     then Inr (Some (s\<lparr>ss_status := canonical_task_status (ss_status s), ss_rejection_reason_code := None,
            ss_funding_source := or_internal (ss_funding_source s)\<rparr>))
     else Inl (Value_Error ''confirm_window_hours''))"
  using save_new_get [OF assms] by (simp add: from_to_row read_back_def)

end
