(* ===== verification/Settlement_Transitions.thy ===== *)
theory Settlement_Transitions
  imports Settlement_Store Capacity_Ledger
begin

text \<open>
  Audited status transitions (\<^verbatim>\<open>services/settlement_transitions.py\<close>, with the session of \<^verbatim>\<open>db/session.py\<close> and
  the denial classes of \<^verbatim>\<open>services/security_monitoring.py\<close>): the guard, the save, the audit row, the commit
  before the chain is touched, and the revert when the chain refuses. The HTTP routes have the same
  function under the name \<^verbatim>\<open>_apply_transition\<close>; only the guard stage and the metadata differ.

  A session has the committed tables and its own working copy. The argument \<open>chain_step\<close> is everything between
  the commit and the return of the chain call, which may commit changes of its own and of other
  sessions. The clock is read as \<open>now\<close> before and as \<open>later\<close> after the chain call. \<open>writable\<close> says whether
  the restoring UPDATE goes through, \<open>reject_text\<close> is the text of the audit row of a revert.
\<close>

section \<open>Tables and sessions\<close>

record SettlementTransitionAudit =
  ta_settlement_id :: string
  ta_task_id :: string
  ta_from_status :: "string option"
  ta_to_status :: string
  ta_transition_allowed :: bool
  ta_guard_stage :: string
  ta_reason :: "string option"
  ta_route_path :: "string option"
  ta_actor_id :: "string option"
  ta_source :: string
  ta_denial_class :: string
  ta_created_at :: int

record SecurityEvent =
  ev_task_id :: string
  ev_settlement_id :: string
  ev_from_status :: "string option"
  ev_to_status :: string
  ev_transition_allowed :: bool
  ev_guard_stage :: string
  ev_denial_class :: string
  ev_path :: string
  ev_actor_id :: string

record Settlement_DB =
  sd_contracts :: "string list"
  sd_settlements :: "SettlementModel list"
  sd_audits :: "SettlementTransitionAudit list"
  sd_capacities :: "CapacityModel list"

text \<open>The security events are not part of the transaction.\<close>

record Session =
  se_committed :: Settlement_DB
  se_working :: Settlement_DB
  se_events :: "SecurityEvent list"

definition commit :: "Session \<Rightarrow> Session" where
  "commit s = s\<lparr>se_committed := se_working s\<rparr>"

definition rollback :: "Session \<Rightarrow> Session" where
  "rollback s = s\<lparr>se_working := se_committed s\<rparr>"

definition with_session :: "(Session \<Rightarrow> ('e + 'a) \<times> Session) \<Rightarrow> Session \<Rightarrow> ('e + 'a) \<times> Session" where
  "with_session body s =
     (case body s of (Inl e, s') \<Rightarrow> (Inl e, rollback s') | (Inr a, s') \<Rightarrow> (Inr a, commit s'))"

section \<open>Audit\<close>

definition denial_class_for_guard_stage :: "string \<Rightarrow> string" where
  "denial_class_for_guard_stage guard_stage =
     (let stage = lower (strip guard_stage)
      in if stage = ''route'' \<or> stage = ''pipeline'' then ''state_machine''
         else if stage = ''chain'' then ''chain_gate''
         else ''store_conflict'')"

datatype transition_error = Refused nat string | Failed string

definition record_settlement_transition_audit ::
  "int \<Rightarrow> SettlementState \<Rightarrow> TaskStatus option \<Rightarrow> TaskStatus \<Rightarrow> bool \<Rightarrow> string \<Rightarrow> string option \<Rightarrow> string option \<Rightarrow>
   string option \<Rightarrow> Session \<Rightarrow> (transition_error + unit) \<times> Session" where
  "record_settlement_transition_audit now state from_status to_status allowed stage reason route actor s =
     (if ss_settlement_id state \<notin> sm_settlement_id ` set (sd_settlements (se_working s))
      then (Inl (Failed ''audit row without settlement''), s)
      else
        (let row = \<lparr>ta_settlement_id = ss_settlement_id state, ta_task_id = ss_task_id state,
                    ta_from_status = map_option status_value from_status, ta_to_status = status_value to_status,
                    ta_transition_allowed = allowed, ta_guard_stage = stage, ta_reason = reason,
                    ta_route_path = route, ta_actor_id = actor, ta_source = ''settlement_transitions'',
                    ta_denial_class = denial_class_for_guard_stage stage, ta_created_at = now\<rparr>;
             event = \<lparr>ev_task_id = ss_task_id state, ev_settlement_id = ss_settlement_id state,
                      ev_from_status = map_option status_value from_status, ev_to_status = status_value to_status,
                      ev_transition_allowed = allowed, ev_guard_stage = stage,
                      ev_denial_class = denial_class_for_guard_stage stage,
                      ev_path = (case route of None \<Rightarrow> ''unknown'' | Some p \<Rightarrow> if p = [] then ''unknown'' else p),
                      ev_actor_id = (case actor of None \<Rightarrow> ''anonymous'' | Some a \<Rightarrow> if a = [] then ''anonymous'' else a)\<rparr>
         in (Inr (), s\<lparr>se_working := (se_working s)\<lparr>sd_audits := sd_audits (se_working s) @ [row]\<rparr>,
                       se_events := se_events s @ [event]\<rparr>)))"

section \<open>Transition and revert\<close>

text \<open>The columns of \<^verbatim>\<open>_SETTLEMENT_SNAPSHOT_COLUMNS\<close>.\<close>

type_synonym snapshot = "string \<times> rat option \<times> rat option \<times> int option \<times> string option \<times> string option"

definition snapshot_of :: "SettlementModel \<Rightarrow> snapshot" where
  "snapshot_of r =
     (sm_status r, sm_released_amount r, sm_refunded_amount r, sm_released_at r, sm_arbitration_notes r, sm_dispute_reason r)"

definition snapshot_settlement_row :: "string \<Rightarrow> SettlementModel list \<Rightarrow> snapshot option" where
  "snapshot_settlement_row task rows = map_option snapshot_of (find (\<lambda>r. sm_task_id r = task) rows)"

definition restore_row :: "int \<Rightarrow> snapshot \<Rightarrow> SettlementModel \<Rightarrow> SettlementModel" where
  "restore_row now prior r =
     (case prior of (status, released, refunded, released_at, notes, dispute) \<Rightarrow>
        r\<lparr>sm_status := status, sm_released_amount := released, sm_refunded_amount := refunded,
          sm_released_at := released_at, sm_arbitration_notes := notes, sm_dispute_reason := dispute,
          sm_updated_at := now\<rparr>)"

definition restore_rows_of_task :: "int \<Rightarrow> string \<Rightarrow> snapshot \<Rightarrow> SettlementModel list \<Rightarrow> SettlementModel list" where
  "restore_rows_of_task now task prior rows = map (\<lambda>r. if sm_task_id r = task then restore_row now prior r else r) rows"

definition revert_chain_rejected_transition ::
  "int \<Rightarrow> bool \<Rightarrow> (string \<Rightarrow> string) \<Rightarrow> snapshot option \<Rightarrow> SettlementState \<Rightarrow> TaskStatus \<Rightarrow> TaskStatus \<Rightarrow> string \<Rightarrow>
   string \<Rightarrow> string option \<Rightarrow> Session \<Rightarrow> Session" where
  "revert_chain_rejected_transition later writable reject_text prior state from_status target reason route actor s =
     (case prior of
        None \<Rightarrow> s
      | Some p \<Rightarrow>
          if \<not> writable then rollback s
          else
            (let s1 = rollback s;
                 w1 = (se_working s1)\<lparr>sd_settlements := restore_rows_of_task later (ss_task_id state) p (sd_settlements (se_working s1))\<rparr>;
                 s2 = commit (s1\<lparr>se_working := w1\<rparr>);
                 s3 = (if canonical_task_status target = DISPUTED
                       then commit (s2\<lparr>se_working := (se_working s2)\<lparr>sd_capacities :=
                              release_dispute_freeze_after_revert later (ss_client_agent_id state) (ss_escrow_amount state)
                                (sd_capacities (se_working s2))\<rparr>\<rparr>)
                       else s2)
             in case record_settlement_transition_audit later state (Some from_status) target False ''chain''
                       (Some (reject_text reason)) (Some route) actor s3 of
                  (Inl e, s4) \<Rightarrow> rollback s4
                | (Inr u, s4) \<Rightarrow> commit s4))"

text \<open>A refusal is recorded and raised as 409.\<close>

definition refuse ::
  "int \<Rightarrow> SettlementState \<Rightarrow> TaskStatus \<Rightarrow> TaskStatus \<Rightarrow> string \<Rightarrow> string \<Rightarrow> string \<Rightarrow> string option \<Rightarrow>
   Session \<Rightarrow> (transition_error + 'a) \<times> Session" where
  "refuse now state from_status target stage detail route actor s =
     (case record_settlement_transition_audit now state (Some from_status) target False stage (Some detail) (Some route) actor s of
        (Inl e, s') \<Rightarrow> (Inl e, s')
      | (Inr u, s') \<Rightarrow> (Inl (Refused 409 detail), s'))"

text \<open>What follows the chain call: the revert, or the state read again.\<close>

definition after_chain ::
  "int \<Rightarrow> bool \<Rightarrow> (string \<Rightarrow> string) \<Rightarrow> snapshot option \<Rightarrow> SettlementState \<Rightarrow> TaskStatus \<Rightarrow> TaskStatus \<Rightarrow> string \<Rightarrow>
   string \<Rightarrow> string option \<Rightarrow> (string + unit) \<times> Session \<Rightarrow> (transition_error + SettlementState) \<times> Session" where
  "after_chain later writable reject_text prior state from_status target reason route actor outcome =
     (case outcome of
        (Inl e, s) \<Rightarrow>
          (Inl (Failed e), revert_chain_rejected_transition later writable reject_text prior state from_status target
             reason route actor s)
      | (Inr u, s) \<Rightarrow>
          (case get (ss_task_id state) (sd_settlements (se_working s)) of
             Inl e \<Rightarrow> (Inl (Failed ''settlement cannot be read''), s)
           | Inr None \<Rightarrow> (Inr state, s)
           | Inr (Some refreshed) \<Rightarrow> (Inr refreshed, s)))"

definition apply_settlement_transition ::
  "int \<Rightarrow> int \<Rightarrow> bool \<Rightarrow> (string \<Rightarrow> string) \<Rightarrow> (SettlementState \<Rightarrow> TaskStatus \<Rightarrow> Session \<Rightarrow> (string + unit) \<times> Session) \<Rightarrow>
   SettlementState \<Rightarrow> TaskStatus \<Rightarrow> string \<Rightarrow> string \<Rightarrow> string option \<Rightarrow> Session \<Rightarrow>
   (transition_error + SettlementState) \<times> Session" where
  "apply_settlement_transition now later writable reject_text chain_step state target reason route actor s =
     (let from_status = ss_status state in
      if \<not> can_transition from_status target
      then refuse now state from_status target ''pipeline''
             (''invalid status transition: '' @ status_value from_status @ '' -> '' @ status_value target) route actor s
      else
        (let prior = snapshot_settlement_row (ss_task_id state) (sd_settlements (se_working s));
             state' = state\<lparr>ss_status := target, ss_updated_at := now\<rparr>
         in case save now (sd_contracts (se_working s)) state' (sd_settlements (se_working s)) of
              Inl (Value_Error detail) \<Rightarrow> refuse now state' from_status target ''store'' detail route actor s
            | Inl (Integrity_Error e) \<Rightarrow> (Inl (Failed e), s)
            | Inr rows \<Rightarrow>
                (case record_settlement_transition_audit now state' (Some from_status) target True ''store'' (Some reason)
                        (Some route) actor (s\<lparr>se_working := (se_working s)\<lparr>sd_settlements := rows\<rparr>\<rparr>) of
                   (Inl e, s1) \<Rightarrow> (Inl e, s1)
                 | (Inr u, s1) \<Rightarrow>
                     after_chain later writable reject_text prior state' from_status target reason route actor
                       (chain_step state' target (commit s1)))))"

section \<open>Lemmas\<close>

lemma audit_tables:
  assumes "record_settlement_transition_audit now state f t a stage reason route actor s = (res, s')"
  shows "sd_settlements (se_working s') = sd_settlements (se_working s)
    \<and> sd_capacities (se_working s') = sd_capacities (se_working s) \<and> se_committed s' = se_committed s"
  using assms by (auto simp: record_settlement_transition_audit_def Let_def split: if_splits)

lemma snapshot_restore_row: "snapshot_of (restore_row now prior r) = prior"
  by (cases prior) (simp add: snapshot_of_def restore_row_def)

lemma restored_rows:
  "r \<in> set (restore_rows_of_task now task prior rows) \<Longrightarrow> sm_task_id r = task \<Longrightarrow> snapshot_of r = prior"
  by (auto simp: restore_rows_of_task_def snapshot_restore_row split: if_splits)

text \<open>After a revert the committed rows of the task carry the snapshot, whatever happened before.\<close>

lemma revert_rows:
  "sd_settlements (se_committed (revert_chain_rejected_transition later True reject_text (Some p) state f t reason route actor s))
   = restore_rows_of_task later (ss_task_id state) p (sd_settlements (se_committed s))"
  by (auto simp: revert_chain_rejected_transition_def Let_def commit_def rollback_def split: prod.split sum.split
      dest!: audit_tables)

lemma saved_id:
  "save now contracts s rows = Inr rows' \<Longrightarrow> ss_settlement_id s \<in> sm_settlement_id ` set rows'"
  using find_settlement_save(1) find_settlement_ids by (metis option.distinct(1))

text \<open>A step that passes the guard and is saved reaches the chain with everything committed: the row in the
  canonical target status and the audit row that allowed it.\<close>

definition allowed_audit :: "int \<Rightarrow> SettlementState \<Rightarrow> TaskStatus \<Rightarrow> SettlementTransitionAudit \<Rightarrow> bool" where
  "allowed_audit now state target a \<longleftrightarrow>
     ta_settlement_id a = ss_settlement_id state \<and> ta_task_id a = ss_task_id state
     \<and> ta_from_status a = Some (status_value (ss_status state)) \<and> ta_to_status a = status_value target
     \<and> ta_transition_allowed a \<and> ta_created_at a = now"

lemma transition_reaches_chain:
  assumes "can_transition (ss_status state) target"
    and "save now (sd_contracts (se_working s)) (state\<lparr>ss_status := target, ss_updated_at := now\<rparr>)
           (sd_settlements (se_working s)) = Inr rows"
  shows "\<exists>s2 a. apply_settlement_transition now later writable reject_text chain_step state target reason route actor s
      = after_chain later writable reject_text (snapshot_settlement_row (ss_task_id state) (sd_settlements (se_working s)))
          (state\<lparr>ss_status := target, ss_updated_at := now\<rparr>) (ss_status state) target reason route actor
          (chain_step (state\<lparr>ss_status := target, ss_updated_at := now\<rparr>) target s2)
    \<and> se_committed s2 = se_working s2 \<and> sd_settlements (se_committed s2) = rows
    \<and> sd_audits (se_committed s2) = sd_audits (se_working s) @ [a] \<and> allowed_audit now state target a"
proof -
  let ?st = "state\<lparr>ss_status := target, ss_updated_at := now\<rparr>"
  let ?s1 = "s\<lparr>se_working := (se_working s)\<lparr>sd_settlements := rows\<rparr>\<rparr>"
  have "ss_settlement_id state \<in> sm_settlement_id ` set rows" using saved_id [OF assms(2)] by simp
  then obtain s' a where audit: "record_settlement_transition_audit now ?st (Some (ss_status state)) target True ''store''
      (Some reason) (Some route) actor ?s1 = (Inr (), s')"
    and "se_working s' = (se_working ?s1)\<lparr>sd_audits := sd_audits (se_working ?s1) @ [a]\<rparr>" "allowed_audit now state target a"
    by (simp add: record_settlement_transition_audit_def Let_def allowed_audit_def)
  then show ?thesis using assms
    by (intro exI [of _ "commit s'"] exI [of _ a]) (simp add: apply_settlement_transition_def Let_def commit_def)
qed

section \<open>Properties\<close>


definition sample_db :: "TaskStatus \<Rightarrow> Settlement_DB" where
  "sample_db status = \<lparr>sd_contracts = [''t1''], sd_settlements = [to_row (sample_settlement status)], sd_audits = [],
     sd_capacities = []\<rparr>"

definition sample_session :: "TaskStatus \<Rightarrow> Session" where
  "sample_session status = \<lparr>se_committed = sample_db status, se_working = sample_db status, se_events = []\<rparr>"

lemma sample_step_saved:
  assumes "can_transition from_status target" "from_status = canonical_task_status from_status"
  shows "\<exists>rows. save now (sd_contracts (se_working (sample_session from_status)))
    ((sample_settlement from_status)\<lparr>ss_status := target, ss_updated_at := now\<rparr>)
    (sd_settlements (se_working (sample_session from_status))) = Inr rows"
  using assms by (auto simp: save_def Let_def sample_session_def sample_db_def find_settlement_def row_allowed_def
      sample_settlement_def to_row_def changed_field_def)


text \<open>C15. When the chain refuses a step, the committed rows of the task get back the status, the amounts, the
  release time, the notes and the dispute reason they had before the step, whatever was committed to
  them in between.\<close>

theorem chain_refusal_restores_snapshot:
  assumes "can_transition (ss_status state) target"
    and "save now (sd_contracts (se_working s)) (state\<lparr>ss_status := target, ss_updated_at := now\<rparr>)
           (sd_settlements (se_working s)) = Inr rows"
    and "find (\<lambda>r. sm_task_id r = ss_task_id state) (sd_settlements (se_working s)) = Some old"
    and "\<And>st t s2. \<exists>e s3. chain_step st t s2 = (Inl e, s3)"
    and "apply_settlement_transition now later True reject_text chain_step state target reason route actor s = (res, s')"
  shows "(\<exists>e. res = Inl (Failed e))
    \<and> (\<forall>r \<in> set (sd_settlements (se_committed s')). sm_task_id r = ss_task_id state \<longrightarrow> snapshot_of r = snapshot_of old)"
proof -
  let ?st = "state\<lparr>ss_status := target, ss_updated_at := now\<rparr>"
  obtain s2 where run: "(res, s') = after_chain later True reject_text (Some (snapshot_of old)) ?st (ss_status state) target
      reason route actor (chain_step ?st target s2)"
    using transition_reaches_chain [OF assms(1,2), of later True reject_text chain_step reason route actor] assms(3,5)
    by (auto simp: snapshot_settlement_row_def)
  obtain e s3 where "chain_step ?st target s2 = (Inl e, s3)" using assms(4) by blast
  with run have "res = Inl (Failed e)" and s': "s' = revert_chain_rejected_transition later True reject_text
      (Some (snapshot_of old)) ?st (ss_status state) target reason route actor s3"
    by (simp_all add: after_chain_def)
  moreover have "snapshot_of r = snapshot_of old"
    if "r \<in> set (sd_settlements (se_committed s'))" "sm_task_id r = ss_task_id state" for r
    using that restored_rows unfolding s' revert_rows by simp
  ultimately show ?thesis by blast
qed

text \<open>Another session settles the arbitrated settlement while the chain call is pending; then the call fails.\<close>

definition settled_meanwhile :: "SettlementState \<Rightarrow> TaskStatus \<Rightarrow> Session \<Rightarrow> (string + unit) \<times> Session" where
  "settled_meanwhile st t s =
     (Inl ''rpc'', s\<lparr>se_committed := (se_committed s)\<lparr>sd_settlements := [to_row (sample_settlement SETTLED)]\<rparr>\<rparr>)"

lemma sample_disputed:
  "can_transition DISPUTED ARBITRATED" "can_transition (ss_status (sample_settlement DISPUTED)) ARBITRATED"
  "DISPUTED = canonical_task_status DISPUTED"
  "find (\<lambda>r. sm_task_id r = ss_task_id (sample_settlement DISPUTED)) (sd_settlements (se_working (sample_session DISPUTED)))
     = Some (to_row (sample_settlement DISPUTED))"
proof -
  show "can_transition DISPUTED ARBITRATED" "DISPUTED = canonical_task_status DISPUTED" by code_simp+
  then show "can_transition (ss_status (sample_settlement DISPUTED)) ARBITRATED" by (simp add: sample_settlement_def)
qed (simp add: sample_session_def sample_db_def)

theorem chain_refusal_restores_snapshot_witness:
  "\<exists>e. fst (apply_settlement_transition 7 8 True id settled_meanwhile (sample_settlement DISPUTED) ARBITRATED ''r'' ''p'' None
      (sample_session DISPUTED)) = Inl (Failed e)"
proof -
  from sample_step_saved [OF sample_disputed(1,3), of 7] obtain rows
    where save: "save 7 (sd_contracts (se_working (sample_session DISPUTED)))
      ((sample_settlement DISPUTED)\<lparr>ss_status := ARBITRATED, ss_updated_at := 7\<rparr>)
      (sd_settlements (se_working (sample_session DISPUTED))) = Inr rows" by blast
  have "\<exists>e s3. settled_meanwhile st t s2 = (Inl e, s3)" for st t s2 by (simp add: settled_meanwhile_def)
  from chain_refusal_restores_snapshot [where chain_step = settled_meanwhile and later = 8 and reject_text = id
      and reason = "''r''" and route = "''p''" and actor = None,
      OF sample_disputed(2) save sample_disputed(4) this prod.collapse [symmetric]]
  show ?thesis by blast
qed

text \<open>The revert does not look at what it overwrites: when another session has moved the settlement on
  while the chain call was pending, here from arbitrated to settled, the revert puts it back into
  dispute, a step the lifecycle does not have.\<close>

lemma revert_undoes_concurrent_settlement:
  "\<not> can_transition SETTLED DISPUTED
   \<and> map sm_status (sd_settlements (se_committed (snd (settled_meanwhile st t s)))) = [''settled'']
   \<and> map sm_status (sd_settlements (se_committed (snd (apply_settlement_transition now later True reject_text settled_meanwhile
       (sample_settlement DISPUTED) ARBITRATED reason route actor (sample_session DISPUTED))))) = [''disputed'']"
proof -
  have names: "\<not> can_transition SETTLED DISPUTED" "status_value (canonical_task_status DISPUTED) = ''disputed''"
    "status_value (canonical_task_status SETTLED) = ''settled''" by code_simp+
  let ?st = "(sample_settlement DISPUTED)\<lparr>ss_status := ARBITRATED, ss_updated_at := now\<rparr>"
  from sample_step_saved [OF sample_disputed(1,3)] obtain rows
    where save: "save now (sd_contracts (se_working (sample_session DISPUTED))) ?st
      (sd_settlements (se_working (sample_session DISPUTED))) = Inr rows" by blast
  from transition_reaches_chain [OF sample_disputed(2) save, of later True reject_text settled_meanwhile reason route actor]
  obtain s2 where "apply_settlement_transition now later True reject_text settled_meanwhile (sample_settlement DISPUTED)
      ARBITRATED reason route actor (sample_session DISPUTED)
    = after_chain later True reject_text (Some (snapshot_of (to_row (sample_settlement DISPUTED)))) ?st
        (ss_status (sample_settlement DISPUTED)) ARBITRATED reason route actor (settled_meanwhile ?st ARBITRATED s2)"
    unfolding snapshot_settlement_row_def sample_disputed(4) by auto
  then show ?thesis using names
    by (simp add: after_chain_def settled_meanwhile_def revert_rows restore_rows_of_task_def restore_row_def snapshot_of_def)
      (simp add: sample_settlement_def)
qed

text \<open>A refused transition leaves no audit row: the row that records the refusal is written in the session
  that the refusal then rolls back, so the committed database is as before and only the security event
  remains.\<close>

lemma refusal_leaves_no_audit:
  assumes "\<not> can_transition (ss_status state) target" and "se_working s = se_committed s"
    and "ss_settlement_id state \<in> sm_settlement_id ` set (sd_settlements (se_committed s))"
  shows "\<exists>detail s' event. with_session (apply_settlement_transition now later writable reject_text chain_step state target reason route actor) s
      = (Inl (Refused 409 detail), s')
    \<and> se_committed s' = se_committed s \<and> se_working s' = se_committed s \<and> se_events s' = se_events s @ [event]
    \<and> \<not> ev_transition_allowed event \<and> ev_denial_class event = ''state_machine''"
proof -
  have "denial_class_for_guard_stage ''pipeline'' = ''state_machine''" by code_simp
  with assms show ?thesis
    by (simp add: with_session_def apply_settlement_transition_def refuse_def record_settlement_transition_audit_def
        rollback_def Let_def)
qed

end
