(* ===== verification/Cycle_Guard.thy ===== *)
theory Cycle_Guard
  imports Settlement_Store
begin

text \<open>
  The guard against payment cycles (\<^verbatim>\<open>services/settlement_cycle_guard.py\<close>): the depth-first search over the
  active settlements, as edges from buyer to worker, and the check made when a worker is locked. The
  stack is a list with its top at the head.
\<close>

section \<open>The search\<close>

definition successors :: "(string \<times> string) list \<Rightarrow> string \<Rightarrow> string list" where
  "successors edges n = map snd (filter (\<lambda>(c, w). c = n) edges)"

function reach_loop :: "(string \<times> string) list \<Rightarrow> string \<Rightarrow> string list \<Rightarrow> string list \<Rightarrow> bool" where
  "reach_loop edges buyer_id [] seen = False"
| "reach_loop edges buyer_id (n # stack) seen =
     (if n = buyer_id then True
      else if n \<in> set seen then reach_loop edges buyer_id stack seen
      else reach_loop edges buyer_id (rev (successors edges n) @ stack) (n # seen))"
  by pat_completeness auto

definition unseen :: "(string \<times> string) list \<Rightarrow> string list \<Rightarrow> string list \<Rightarrow> string set" where
  "unseen edges stack seen = (set stack \<union> snd ` set edges) - set seen"

lemma unseen_drop: "n \<in> set seen \<Longrightarrow> unseen edges stack seen = unseen edges (n # stack) seen"
  by (auto simp: unseen_def)

lemma unseen_visit:
  assumes "n \<notin> set seen"
  shows "unseen edges (rev (successors edges n) @ stack) (n # seen) \<subset> unseen edges (n # stack) seen"
proof -
  have "n \<in> unseen edges (n # stack) seen" using assms by (simp add: unseen_def)
  moreover have "unseen edges (rev (successors edges n) @ stack) (n # seen) \<subseteq> unseen edges (n # stack) seen - {n}"
    by (auto simp: unseen_def successors_def)
  ultimately show ?thesis by blast
qed

termination reach_loop
proof (relation "measures [\<lambda>(es, b, st, seen). card (unseen es st seen), \<lambda>(es, b, st, seen). length st]", goal_cases)
  case 1
  show ?case by simp
next
  case (2 edges buyer n stack seen)
  then show ?case using unseen_drop [of n seen edges stack] by simp
next
  case (3 edges buyer n stack seen)
  have "finite (unseen edges (n # stack) seen)" by (simp add: unseen_def)
  from psubset_card_mono [OF this unseen_visit] 3 show ?case by simp
qed

definition worker_reaches_buyer_on_edges :: "(string \<times> string) list \<Rightarrow> string \<Rightarrow> string \<Rightarrow> bool" where
  "worker_reaches_buyer_on_edges edges worker_id buyer_id =
     (if worker_id = buyer_id then False else reach_loop edges buyer_id [worker_id] [])"

section \<open>The guard\<close>

definition terminal_status_strings :: "string list" where
  "terminal_status_strings = [status_value SETTLED, status_value REFUNDED, status_value CANCELLED]"

fun active_edges :: "string \<Rightarrow> SettlementModel list \<Rightarrow> (string \<times> string) list" where
  "active_edges task_id [] = []"
| "active_edges task_id (r # rows) =
     (case sm_worker_agent_id r of
        None \<Rightarrow> active_edges task_id rows
      | Some w \<Rightarrow>
          if sm_task_id r \<noteq> task_id \<and> sm_status r \<notin> set terminal_status_strings
          then (sm_client_agent_id r, w) # active_edges task_id rows else active_edges task_id rows)"

definition assert_lock_does_not_close_payment_cycle ::
  "bool \<Rightarrow> string \<Rightarrow> string \<Rightarrow> string \<Rightarrow> SettlementModel list \<Rightarrow> nat + unit" where
  "assert_lock_does_not_close_payment_cycle enabled task_id buyer_id worker_id rows =
     (if enabled \<and> worker_reaches_buyer_on_edges (active_edges task_id rows) worker_id buyer_id then Inl 409 else Inr ())"

section \<open>The search is exact\<close>

lemma set_successors: "w \<in> set (successors edges n) \<longleftrightarrow> (n, w) \<in> set edges"
  by (force simp: successors_def)

lemma reach_loop_sound:
  "reach_loop edges b stack seen \<Longrightarrow> \<exists>n \<in> set stack. (n, b) \<in> (set edges)\<^sup>*"
proof (induction edges b stack seen rule: reach_loop.induct)
  case (2 edges b n stack seen)
  show ?case
  proof (cases "n = b \<or> n \<in> set seen")
    case True
    with 2 show ?thesis by (auto split: if_splits)
  next
    case False
    with 2 obtain m where "m \<in> set (rev (successors edges n) @ stack)" "(m, b) \<in> (set edges)\<^sup>*" by (auto split: if_splits)
    then show ?thesis by (auto simp: set_successors intro: converse_rtrancl_into_rtrancl)
  qed
qed simp

text \<open>When the search fails, what it saw is closed under the edges, contains the stack and not the buyer.\<close>

lemma reach_loop_complete:
  "\<not> reach_loop edges b stack seen \<Longrightarrow> b \<notin> set seen \<Longrightarrow>
   (\<And>n w. n \<in> set seen \<Longrightarrow> (n, w) \<in> set edges \<Longrightarrow> w \<in> set seen \<union> set stack) \<Longrightarrow>
   \<exists>S. set stack \<union> set seen \<subseteq> S \<and> b \<notin> S \<and> (\<forall>n w. n \<in> S \<longrightarrow> (n, w) \<in> set edges \<longrightarrow> w \<in> S)"
proof (induction edges b stack seen rule: reach_loop.induct)
  case (1 edges b seen)
  then show ?case by (intro exI [of _ "set seen"]) auto
next
  case (2 edges b n stack seen)
  then have neq: "n \<noteq> b" by auto
  show ?case
  proof (cases "n \<in> set seen")
    case True
    have "\<not> reach_loop edges b stack seen" using 2(3) neq True by simp
    moreover have "w \<in> set seen \<union> set stack" if "m \<in> set seen" "(m, w) \<in> set edges" for m w
      using 2(5) [OF that] True by auto
    ultimately obtain S where "set stack \<union> set seen \<subseteq> S" "b \<notin> S" "\<forall>n w. n \<in> S \<longrightarrow> (n, w) \<in> set edges \<longrightarrow> w \<in> S"
      using 2(1) [OF neq True _ 2(4)] by blast
    with True show ?thesis by (intro exI [of _ S]) auto
  next
    case False
    let ?stack = "rev (successors edges n) @ stack"
    have "\<not> reach_loop edges b ?stack (n # seen)" using 2(3) neq False by simp
    moreover have "b \<notin> set (n # seen)" using neq 2(4) by simp
    moreover have "w \<in> set (n # seen) \<union> set ?stack" if "m \<in> set (n # seen)" "(m, w) \<in> set edges" for m w
      using 2(5) [of m w] that by (cases "m = n") (auto simp: set_successors)
    ultimately obtain S where "set ?stack \<union> set (n # seen) \<subseteq> S" "b \<notin> S" "\<forall>n w. n \<in> S \<longrightarrow> (n, w) \<in> set edges \<longrightarrow> w \<in> S"
      using 2(2) [OF neq False] by blast
    then show ?thesis by (intro exI [of _ S]) auto
  qed
qed

lemma worker_reaches_buyer_iff:
  "worker_reaches_buyer_on_edges edges w b \<longleftrightarrow> w \<noteq> b \<and> (w, b) \<in> (set edges)\<^sup>*"
proof (cases "w = b")
  case False
  have "(w, b) \<notin> (set edges)\<^sup>*" if none: "\<not> reach_loop edges b [w] []"
  proof
    assume "(w, b) \<in> (set edges)\<^sup>*"
    obtain S where S: "w \<in> S" "b \<notin> S" "\<forall>n w. n \<in> S \<longrightarrow> (n, w) \<in> set edges \<longrightarrow> w \<in> S"
      using reach_loop_complete [OF none] by auto
    from \<open>(w, b) \<in> (set edges)\<^sup>*\<close> have "b \<in> S" by (induction rule: rtrancl_induct) (use S in auto)
    with S show False by simp
  qed
  with False show ?thesis using reach_loop_sound [of edges b "[w]" "[]"] by (auto simp: worker_reaches_buyer_on_edges_def)
qed (simp add: worker_reaches_buyer_on_edges_def)

section \<open>Properties\<close>


definition payment :: "string \<Rightarrow> string \<Rightarrow> string \<Rightarrow> TaskStatus \<Rightarrow> SettlementModel" where
  "payment task buyer worker status =
     (to_row (sample_settlement status))\<lparr>sm_settlement_id := task, sm_task_id := task, sm_client_agent_id := buyer,
       sm_worker_agent_id := Some worker\<rparr>"

lemma payment_simps [simp]:
  "sm_task_id (payment task b w st) = task" "sm_client_agent_id (payment task b w st) = b"
  "sm_worker_agent_id (payment task b w st) = Some w"
  "sm_status (payment task b w st) = status_value (canonical_task_status st)"
  by (simp_all add: payment_def) (simp add: sample_settlement_def)

lemma payment_names:
  "status_value (canonical_task_status FROZEN) \<notin> set terminal_status_strings"
  "status_value (canonical_task_status ACCEPTED) \<notin> set terminal_status_strings"
  "status_value (canonical_task_status SETTLED) \<in> set terminal_status_strings"
  "can_transition SETTLED FROZEN"
  by code_simp+


text \<open>The guard has two gaps. A payment to oneself passes it. And a settled payment does not count, but it
  can be frozen, which no guard watches: then it is active again, and with a payment locked in the
  opposite direction in the meantime it closes a cycle.\<close>

lemma cycle_guard_gaps:
  "assert_lock_does_not_close_payment_cycle True task b b rows = Inr ()
   \<and> assert_lock_does_not_close_payment_cycle True ''t2'' ''b'' ''a'' [payment ''t1'' ''a'' ''b'' SETTLED] = Inr ()
   \<and> can_transition SETTLED FROZEN
   \<and> \<not> acyclic (set (active_edges ''t3'' [payment ''t1'' ''a'' ''b'' FROZEN, payment ''t2'' ''b'' ''a'' ACCEPTED]))"
proof -
  have "set (active_edges ''t3'' [payment ''t1'' ''a'' ''b'' FROZEN, payment ''t2'' ''b'' ''a'' ACCEPTED]) = {(''a'', ''b''), (''b'', ''a'')}"
    using payment_names by auto
  moreover have "(''a'', ''a'') \<in> {(''a'', ''b''), (''b'', ''a'')}\<^sup>+" by (rule trancl_into_trancl [of _ "''b''"]) auto
  ultimately show ?thesis using payment_names
    by (auto simp: assert_lock_does_not_close_payment_cycle_def worker_reaches_buyer_iff acyclic_def)
qed

end
