(* ===== verification/Bond_Slash.thy ===== *)
theory Bond_Slash
  imports Money Lifecycle
begin

text \<open>
  The ledger of slashed bonds (\<^verbatim>\<open>services/bond_slash.py\<close>, \<^verbatim>\<open>BondSlash\<close> of
  \<^verbatim>\<open>decentralized_verifier/models.py\<close>): the split between the victim and the pool, the record that is made
  once per subject and source, the state of the payout and the instructions for the vault. The shares in
  basis points and the address of the vault are arguments, as the settings they come from; \<open>fresh\<close> is
  the identifier of a new row. The widths of the text columns are not modelled.
\<close>

section \<open>Rows and split\<close>

record BondSlash =
  bs_id :: string
  bs_subject_kind :: string
  bs_subject_id :: string
  bs_wallet_address :: "string option"
  bs_victim_wallet_address :: "string option"
  bs_victim_identity_id :: "string option"
  bs_source_kind :: string
  bs_source_id :: string
  bs_amount :: rat
  bs_victim_amount :: rat
  bs_pool_amount :: rat
  bs_victim_share_bps :: int
  bs_pool_share_bps :: int
  bs_reason :: "string option"
  bs_status :: string
  bs_tx_hash :: "string option"
  bs_attempts :: int
  bs_last_error :: "string option"
  bs_created_at :: int
  bs_updated_at :: int
  bs_settled_at :: "int option"

text \<open>\<^verbatim>\<open>(text or "").strip() or None\<close>\<close>

definition cleaned :: "string option \<Rightarrow> string option" where
  "cleaned t = (case t of None \<Rightarrow> None | Some s \<Rightarrow> if strip s = [] then None else Some (strip s))"

definition split_slash :: "int \<Rightarrow> int \<Rightarrow> rat \<Rightarrow> bool \<Rightarrow> rat \<times> rat \<times> int \<times> int" where
  "split_slash victim_bps pool_bps amount has_victim =
     (let total = max 0 amount
      in if \<not> has_victim then (0, total, victim_bps, pool_bps)
         else let v = round_decimals (total * of_int victim_bps / 10000) 8;
                  victim_amount = (if v > total then total else v)
              in (victim_amount, round_decimals (total - victim_amount) 8, victim_bps, pool_bps))"

section \<open>Operations\<close>

definition slash_key :: "BondSlash \<Rightarrow> string \<times> string \<times> string \<times> string" where
  "slash_key r = (bs_subject_kind r, bs_subject_id r, bs_source_kind r, bs_source_id r)"

definition find_slash :: "string \<times> string \<times> string \<times> string \<Rightarrow> BondSlash list \<Rightarrow> BondSlash option" where
  "find_slash key rows = find (\<lambda>r. slash_key r = key) rows"

definition record_slash ::
  "string \<Rightarrow> int \<Rightarrow> int \<Rightarrow> int \<Rightarrow> string \<Rightarrow> string \<Rightarrow> string option \<Rightarrow> string option \<Rightarrow> string option \<Rightarrow>
   string \<Rightarrow> string \<Rightarrow> rat \<Rightarrow> string option \<Rightarrow> BondSlash list \<Rightarrow> (BondSlash \<times> bool) \<times> BondSlash list" where
  "record_slash fresh now vbps pbps subject_kind subject_id wallet victim_wallet victim_identity source_kind source_id
     amount reason rows =
     (case find_slash (subject_kind, subject_id, source_kind, source_id) rows of
        Some existing \<Rightarrow> ((existing, False), rows)
      | None \<Rightarrow>
          (case split_slash vbps pbps amount (cleaned victim_wallet \<noteq> None) of
             (victim_amount, pool_amount, victim_bps, pool_bps) \<Rightarrow>
               (let row = \<lparr>bs_id = fresh, bs_subject_kind = subject_kind, bs_subject_id = subject_id,
                           bs_wallet_address = cleaned wallet, bs_victim_wallet_address = cleaned victim_wallet,
                           bs_victim_identity_id = cleaned victim_identity, bs_source_kind = source_kind,
                           bs_source_id = source_id, bs_amount = round_decimals (max 0 amount) 8,
                           bs_victim_amount = victim_amount, bs_pool_amount = pool_amount,
                           bs_victim_share_bps = victim_bps, bs_pool_share_bps = pool_bps, bs_reason = cleaned reason,
                           bs_status = ''pending'', bs_tx_hash = None, bs_attempts = 0, bs_last_error = None,
                           bs_created_at = now, bs_updated_at = now, bs_settled_at = None\<rparr>
                in ((row, True), rows @ [row]))))"

datatype slash_error = Slash_Error string

definition settled_row :: "int \<Rightarrow> string \<Rightarrow> string option \<Rightarrow> string option \<Rightarrow> BondSlash \<Rightarrow> BondSlash" where
  "settled_row now status tx_hash err r =
     (let r1 = r\<lparr>bs_status := status, bs_attempts := bs_attempts r + 1, bs_updated_at := now,
                 bs_tx_hash := (case cleaned tx_hash of None \<Rightarrow> bs_tx_hash r | Some t \<Rightarrow> Some t),
                 bs_last_error := cleaned err\<rparr>
      in if status = ''settled'' then r1\<lparr>bs_settled_at := Some now\<rparr> else r1)"

definition settle_slash ::
  "int \<Rightarrow> string \<Rightarrow> string \<Rightarrow> string option \<Rightarrow> string option \<Rightarrow> BondSlash list \<Rightarrow> slash_error + BondSlash list" where
  "settle_slash now slash_id status tx_hash err rows =
     (if status \<notin> {''submitted'', ''settled'', ''failed''} then Inl (Slash_Error ''unsupported bond slash status'')
      else case find (\<lambda>r. bs_id r = slash_id) rows of
             None \<Rightarrow> Inl (Slash_Error ''bond slash not found'')
           | Some r \<Rightarrow>
               if status = ''settled'' \<and> cleaned tx_hash = None
               then Inl (Slash_Error ''cannot mark a bond slash settled without a tx hash'')
               else Inr (map (\<lambda>r. if bs_id r = slash_id then settled_row now status tx_hash err r else r) rows))"

definition list_slashes ::
  "string option \<Rightarrow> string option \<Rightarrow> string option \<Rightarrow> int \<Rightarrow> BondSlash list \<Rightarrow> BondSlash list" where
  "list_slashes kind subject status limit rows =
     (let wants = (\<lambda>f x. f = None \<or> f = Some [] \<or> f = Some x)
      in take (nat (max 1 (min limit 500)))
           (sort_key (\<lambda>r. - bs_created_at r)
             (filter (\<lambda>r. wants kind (bs_subject_kind r) \<and> wants subject (bs_subject_id r) \<and> wants status (bs_status r)) rows)))"

definition pool_total :: "BondSlash list \<Rightarrow> rat" where
  "pool_total rows = round_decimals (sum_list (map bs_pool_amount (filter (\<lambda>r. bs_status r \<noteq> ''failed'') rows))) 8"

text \<open>An instruction: the row's identifier, the bond's wallet, the victim, the three amounts, the reason,
  the source and the vault.\<close>

type_synonym instruction =
  "string \<times> string option \<times> string option \<times> (rat \<times> rat \<times> rat) \<times> string option \<times> string \<times> string option"

definition slash_instructions :: "string \<Rightarrow> BondSlash list \<Rightarrow> instruction list" where
  "slash_instructions vault rows =
     map (\<lambda>r. (bs_id r, bs_wallet_address r, bs_victim_wallet_address r,
               (bs_amount r, bs_victim_amount r, bs_pool_amount r), bs_reason r,
               bs_source_kind r @ '':'' @ bs_source_id r, if vault = [] then None else Some vault))
       (filter (\<lambda>r. bs_status r = ''pending'' \<or> bs_status r = ''failed'') rows)"

section \<open>Invariant of the ledger\<close>

text \<open>One row per subject and source, identifiers are unique, and a settled row names its transaction.\<close>

definition slashes_ok :: "BondSlash list \<Rightarrow> bool" where
  "slashes_ok rows \<longleftrightarrow>
     distinct (map slash_key rows) \<and> list_all (\<lambda>r. bs_status r = ''settled'' \<longrightarrow> (\<exists>t. bs_tx_hash r = Some t \<and> t \<noteq> [])) rows"

inductive slash_step :: "BondSlash list \<Rightarrow> BondSlash list \<Rightarrow> bool" where
  recorded: "slash_step rows (snd (record_slash fresh now vbps pbps sk si w vw vi ok oi amount reason rows))"
| advanced: "settle_slash now slash_id status tx_hash err rows = Inr rows' \<Longrightarrow> slash_step rows rows'"

lemma cleaned_Some: "cleaned t = Some s \<Longrightarrow> s \<noteq> []"
  by (auto simp: cleaned_def split: option.splits if_splits)

lemma slash_key_settled_row [simp]: "slash_key (settled_row now status tx err r) = slash_key r"
  by (simp add: slash_key_def settled_row_def Let_def)

lemma settle_map_keys:
  "map slash_key (map (\<lambda>r. if bs_id r = i then settled_row now status tx err r else r) rows) = map slash_key rows"
  by simp

lemma slash_step_ok: "slash_step rows rows' \<Longrightarrow> slashes_ok rows \<Longrightarrow> slashes_ok rows'"
proof (induction rule: slash_step.induct)
  case (recorded rows fresh now vbps pbps sk si w vw vi ok oi amount reason)
  show ?case
  proof (cases "find_slash (sk, si, ok, oi) rows")
    case None
    then have "(sk, si, ok, oi) \<notin> slash_key ` set rows" by (auto simp: find_slash_def find_None_iff)
    with recorded None show ?thesis
      by (auto simp: record_slash_def slashes_ok_def slash_key_def Let_def split: prod.split)
  qed (use recorded in \<open>simp add: record_slash_def\<close>)
next
  case (advanced now slash_id status tx_hash err rows rows')
  then have tx: "status = ''settled'' \<Longrightarrow> cleaned tx_hash \<noteq> None"
    and rows': "rows' = map (\<lambda>r. if bs_id r = slash_id then settled_row now status tx_hash err r else r) rows"
    by (auto simp: settle_slash_def split: if_splits option.splits)
  have "\<exists>t. bs_tx_hash (settled_row now status tx_hash err r) = Some t \<and> t \<noteq> []"
    if "bs_status (settled_row now status tx_hash err r) = ''settled''" for r
    using that tx by (auto simp: settled_row_def Let_def dest: cleaned_Some split: if_splits)
  with advanced(2) show ?case
    unfolding slashes_ok_def rows' settle_map_keys by (auto simp: list_all_iff)
qed

interpretation slashes: kept slash_step slashes_ok
  by unfold_locales (rule slash_step_ok)

section \<open>The split\<close>

lemma rest_error:
  assumes "p = round_decimals (t - v) d"
  shows "\<bar>v + p - t\<bar> \<le> 1 / 2 / 10 ^ d"
proof -
  have "v + p - t = round_decimals (t - v) d - (t - v)" using assms by simp
  then show ?thesis using round_decimals_error [of "t - v" d] by (simp only:)
qed

lemma split_slash_victim:
  assumes "split_slash vbps pbps amount True = (v, p, rest)" and "0 \<le> vbps"
  shows "0 \<le> v \<and> v \<le> max 0 amount \<and> \<bar>v + p - max 0 amount\<bar> \<le> 1 / 2 / 10 ^ 8"
proof -
  define t where "t = max 0 amount"
  define x where "x = round_decimals (t * of_int vbps / 10000) 8"
  have "0 \<le> t" by (simp add: t_def)
  then have "0 \<le> x" using assms(2) by (simp add: x_def round_decimals_def py_round_nonneg)
  moreover from assms(1) have "v = (if x > t then t else x)" "p = round_decimals (t - v) 8"
    unfolding split_slash_def Let_def t_def [symmetric] x_def [symmetric] by auto
  ultimately show ?thesis using rest_error [of p t v 8] \<open>0 \<le> t\<close> unfolding t_def [symmetric] by auto
qed

section \<open>Properties\<close>

text \<open>C35. The ledger of slashes: however verdicts and payouts interleave, there is one row per subject and
  source and no row counts as settled without a transaction hash; recording a slash again, with any
  amount, returns the row that is there and changes nothing.\<close>

theorem slash_ledger_sound:
  assumes "slash_step\<^sup>*\<^sup>* [] rows"
  shows "distinct (map slash_key rows)
    \<and> (\<forall>r \<in> set rows. bs_status r = ''settled'' \<longrightarrow> (\<exists>t. bs_tx_hash r = Some t \<and> t \<noteq> []))
    \<and> (\<forall>r \<in> set rows. \<forall>fresh now vbps pbps w vw vi amount reason.
         record_slash fresh now vbps pbps (bs_subject_kind r) (bs_subject_id r) w vw vi (bs_source_kind r) (bs_source_id r)
           amount reason rows = ((r, False), rows))"
proof -
  have ok: "slashes_ok rows" by (rule slashes.reach_keeps [OF assms]) (simp add: slashes_ok_def)
  have "find_slash (slash_key r) rows = Some r" if "r \<in> set rows" for r
  proof -
    have "find_slash (slash_key r) rows \<noteq> None" using that by (auto simp: find_slash_def find_None_iff)
    then obtain x where x: "find_slash (slash_key r) rows = Some x" by blast
    then have "x \<in> set rows" "slash_key x = slash_key r" by (auto simp: find_slash_def find_Some_iff)
    with ok that x show ?thesis by (auto simp: slashes_ok_def distinct_map inj_on_def)
  qed
  with ok show ?thesis by (auto simp: slashes_ok_def list_all_iff record_slash_def slash_key_def)
qed

theorem slash_ledger_sound_witness:
  "distinct (map slash_key (snd (record_slash ''x'' 1 8000 2000 ''verifier_node'' ''n'' None None None ''challenge'' ''c'' 5 None [])))"
  using slash_ledger_sound [OF r_into_rtranclp [of slash_step, OF slash_step.recorded]] by blast

text \<open>The split of a slash loses nothing beyond rounding: with a victim, the two parts are not negative
  for the victim, at most the whole for the victim, and add up to the slashed amount within half a unit
  of the eighth decimal; without a victim everything goes to the pool.\<close>

lemma slash_split_bounds:
  assumes "split_slash vbps pbps amount has_victim = (v, p, rest)" and "0 \<le> vbps"
  shows "0 \<le> v \<and> v \<le> max 0 amount \<and> \<bar>v + p - max 0 amount\<bar> \<le> 1 / 2 / 10 ^ 8
    \<and> (\<not> has_victim \<longrightarrow> v = 0 \<and> p = max 0 amount)"
proof (cases has_victim)
  case True
  with split_slash_victim [of vbps pbps amount v p rest] assms show ?thesis by simp
next
  case False
  with assms(1) show ?thesis by (auto simp: split_slash_def Let_def)
qed

text \<open>The payout has no end: a slash that was settled on chain can be marked as failed, and then the
  instructions to the vault name it again with its full amount.\<close>

lemma settled_slash_reissued:
  assumes "bs_status r = ''settled''"
  shows "\<exists>r'. settle_slash now (bs_id r) ''failed'' None err [r] = Inr [r'] \<and> bs_tx_hash r' = bs_tx_hash r
    \<and> bs_settled_at r' = bs_settled_at r
    \<and> slash_instructions vault [r] = []
    \<and> map (\<lambda>(i, _, _, (a, _), _). (i, a)) (slash_instructions vault [r']) = [(bs_id r, bs_amount r)]"
  using assms by (simp add: settle_slash_def settled_row_def slash_instructions_def cleaned_def)

end
