(* ===== verification/Usage_Billing.thy ===== *)
theory Usage_Billing
  imports Money Lifecycle
begin

text \<open>
  Metered billing of skills (\<^verbatim>\<open>services/usage_billing.py\<close>): calls are charged to a meter per payer and
  skill, the charges above a threshold are billed in a settlement, the settlement is submitted to the
  escrow contract and reconciled with what the chain did. With it the parts of
  \<^verbatim>\<open>services/chain/allowance_escrow.py\<close>, \<^verbatim>\<open>services/chain/escrow_settlement.py\<close> and
  \<^verbatim>\<open>services/seller_stake.py\<close> that it calls, and the route \<^verbatim>\<open>use_skill\<close> of \<^verbatim>\<open>api/routes/skill_market.py\<close>.

  The tables are lists of rows, a request is atomic. The transactions that the operator sends are a
  record of functions on an abstract chain state; \<open>sha\<close> is SHA-256 in hexadecimal, \<open>fresh\<close> the
  identifier of a new row and \<open>now\<close> the clock. The texts of refusals are constructors.
\<close>

section \<open>Rows\<close>

record Skill =
  sk_id :: string
  sk_slug :: string
  sk_owner :: string
  sk_unit_price :: rat
  sk_threshold :: rat
  sk_cap :: "rat option"
  sk_status :: string

record UsageMeter =
  um_id :: string
  um_skill :: string
  um_payer :: string
  um_provider :: string
  um_calls :: int
  um_accrued :: rat
  um_billed :: rat
  um_settled :: rat
  um_threshold :: rat
  um_cap :: "rat option"
  um_status :: string
  um_last_used :: "int option"

record UsageCharge =
  uc_id :: string
  uc_request :: string
  uc_skill :: string
  uc_payer :: string
  uc_provider :: string
  uc_units :: int
  uc_unit_price :: rat
  uc_amount :: rat
  uc_settlement :: "string option"
  uc_occurred_at :: int

text \<open>Why a settlement did not go through: no operator account, not enough locked funds (of the payer, or of
  the provider), the transaction failed, or the state the binding ended in.\<close>

datatype failure = No_Operator | Short_Of_Funds bool rat rat | Chain_Failed string | Binding_Ended string

record UsageSettlement =
  us_id :: string
  us_skill :: string
  us_payer :: string
  us_provider :: string
  us_amount :: rat
  us_stake :: rat
  us_calls :: int
  us_status :: string
  us_mode :: string
  us_digest :: string
  us_binding :: "string option"
  us_tx_hash :: "string option"
  us_failure :: "failure option"
  us_created_at :: int
  us_settled_at :: "int option"

record AllowanceCommit =
  ac_bill :: string
  ac_identity :: string
  ac_contract :: string
  ac_amount :: rat
  ac_spent :: rat
  ac_reserved :: rat
  ac_state :: string
  ac_created_at :: int

record EscrowBinding =
  eb_id :: string
  eb_buyer :: string
  eb_seller :: string
  eb_buyer_bill :: string
  eb_seller_bill :: string
  eb_contract :: string
  eb_scope_hash :: string
  eb_task :: string
  eb_amount :: rat
  eb_stake :: rat
  eb_state :: string
  eb_proof_hash :: "string option"
  eb_bind_tx :: "string option"
  eb_submit_tx :: "string option"
  eb_finalize_tx :: "string option"
  eb_pull_after :: int
  eb_created_at :: int

record Usage_DB =
  meters :: "UsageMeter list"
  charges :: "UsageCharge list"
  settlements :: "UsageSettlement list"
  commits :: "AllowanceCommit list"
  bindings :: "EscrowBinding list"

text \<open>The settings of the escrow: whether the chain is configured, the contract, the operator's key, the
  scope of settlements and the stake in basis points.\<close>

record Escrow_Config =
  ec_enabled :: bool
  ec_address :: string
  ec_operator_key :: string
  ec_scope :: string
  ec_stake_bps :: int

definition USAGE_EPSILON :: rat where
  "USAGE_EPSILON = 1 / 10 ^ 9"

definition MAX_UNITS_PER_CALL :: int where
  "MAX_UNITS_PER_CALL = 1000000"

datatype usage_error =
    Units_Out_Of_Range | Request_Id_Missing | No_Provider | Own_Skill | Meter_Closed string
  | Over_Cap rat rat rat

section \<open>Prices and stakes\<close>

definition estimate_amount :: "int \<Rightarrow> rat \<Rightarrow> usage_error + rat" where
  "estimate_amount units unit_price_usdc =
     (if units \<le> 0 \<or> units > MAX_UNITS_PER_CALL then Inl Units_Out_Of_Range
      else Inr (round_decimals (of_int units * unit_price_usdc) 6))"

definition normalize_request_id :: "string option \<Rightarrow> usage_error + string" where
  "normalize_request_id raw =
     (let text = strip (case raw of None \<Rightarrow> [] | Some s \<Rightarrow> s)
      in if text = [] \<or> length text > 80 then Inl Request_Id_Missing else Inr text)"

definition required_stake_usdc :: "int \<Rightarrow> rat \<Rightarrow> rat" where
  "required_stake_usdc bps order_amount =
     (if order_amount \<le> 0 \<or> bps \<le> 0 then 0 else round_decimals (order_amount * of_int bps / 10000) 6)"

section \<open>Meters\<close>

definition get_meter :: "string \<Rightarrow> string \<Rightarrow> Usage_DB \<Rightarrow> UsageMeter option" where
  "get_meter skill payer db = find (\<lambda>m. um_skill m = skill \<and> um_payer m = payer) (meters db)"

definition new_meter :: "string \<Rightarrow> Skill \<Rightarrow> string \<Rightarrow> UsageMeter" where
  "new_meter fresh skill payer =
     \<lparr>um_id = fresh, um_skill = sk_id skill, um_payer = payer, um_provider = sk_owner skill, um_calls = 0,
      um_accrued = 0, um_billed = 0, um_settled = 0, um_threshold = sk_threshold skill, um_cap = sk_cap skill,
      um_status = ''open'', um_last_used = None\<rparr>"

definition get_or_create_meter :: "string \<Rightarrow> Skill \<Rightarrow> string \<Rightarrow> Usage_DB \<Rightarrow> UsageMeter \<times> Usage_DB" where
  "get_or_create_meter fresh skill payer db =
     (case get_meter (sk_id skill) payer db of
        Some m \<Rightarrow> (m, db)
      | None \<Rightarrow> (let m = new_meter fresh skill payer in (m, db\<lparr>meters := meters db @ [m]\<rparr>)))"

text \<open>Writing to the attributes of a loaded meter: the row of its payer and skill.\<close>

definition update_meter :: "string \<Rightarrow> string \<Rightarrow> (UsageMeter \<Rightarrow> UsageMeter) \<Rightarrow> Usage_DB \<Rightarrow> Usage_DB" where
  "update_meter skill payer f db =
     db\<lparr>meters := map (\<lambda>m. if um_skill m = skill \<and> um_payer m = payer then f m else m) (meters db)\<rparr>"

definition assert_meter_allows :: "UsageMeter \<Rightarrow> rat \<Rightarrow> usage_error + unit" where
  "assert_meter_allows m amount =
     (if um_status m \<noteq> ''open'' then Inl (Meter_Closed (um_status m))
      else case um_cap m of
             None \<Rightarrow> Inr ()
           | Some cap \<Rightarrow>
               (let used = um_billed m + um_accrued m
                in if used + amount > cap + USAGE_EPSILON
                   then Inl (Over_Cap (round_decimals used 6) (round_decimals amount 6) cap) else Inr ()))"

section \<open>Charging a call\<close>

record Usage_Result =
  ur_charge :: UsageCharge
  ur_meter :: "UsageMeter option"
  ur_duplicate :: bool

definition usage_provider :: "string option \<Rightarrow> Skill \<Rightarrow> string" where
  "usage_provider given skill = strip (case given of Some (c # cs) \<Rightarrow> c # cs | _ \<Rightarrow> sk_owner skill)"

definition find_charge :: "string \<Rightarrow> string \<Rightarrow> Usage_DB \<Rightarrow> UsageCharge option" where
  "find_charge skill rid db = find (\<lambda>c. uc_skill c = skill \<and> uc_request c = rid) (charges db)"

definition charge_meter :: "UsageCharge \<Rightarrow> UsageMeter \<Rightarrow> UsageMeter" where
  "charge_meter c m =
     m\<lparr>um_calls := um_calls m + uc_units c, um_accrued := round_decimals (um_accrued m + uc_amount c) 6,
       um_last_used := Some (uc_occurred_at c)\<rparr>"

definition record_usage ::
  "string \<Rightarrow> string \<Rightarrow> int \<Rightarrow> Skill \<Rightarrow> string \<Rightarrow> string option \<Rightarrow> int \<Rightarrow> int option \<Rightarrow> string option \<Rightarrow> Usage_DB \<Rightarrow>
   usage_error + Usage_Result \<times> Usage_DB" where
  "record_usage fresh_meter fresh now skill payer request_id units occurred_at provider_given db =
     (case normalize_request_id request_id of
        Inl e \<Rightarrow> Inl e
      | Inr rid \<Rightarrow>
          let provider = usage_provider provider_given skill in
          if provider = [] then Inl No_Provider
          else if provider = payer then Inl Own_Skill
          else case find_charge (sk_id skill) rid db of
                 Some existing \<Rightarrow>
                   Inr (\<lparr>ur_charge = existing, ur_meter = get_meter (sk_id skill) payer db, ur_duplicate = True\<rparr>, db)
               | None \<Rightarrow>
                   (case estimate_amount units (sk_unit_price skill) of
                      Inl e \<Rightarrow> Inl e
                    | Inr amount \<Rightarrow>
                        (case get_or_create_meter fresh_meter skill payer db of
                           (meter, db1) \<Rightarrow>
                             (case assert_meter_allows meter amount of
                                Inl e \<Rightarrow> Inl e
                              | Inr _ \<Rightarrow>
                                  (let stamp = (case occurred_at of Some t \<Rightarrow> t | None \<Rightarrow> now);
                                       c = \<lparr>uc_id = fresh, uc_request = rid, uc_skill = sk_id skill, uc_payer = payer,
                                            uc_provider = provider, uc_units = units, uc_unit_price = sk_unit_price skill,
                                            uc_amount = amount, uc_settlement = None, uc_occurred_at = stamp\<rparr>;
                                       db2 = update_meter (sk_id skill) payer (charge_meter c)
                                               (db1\<lparr>charges := charges db1 @ [c]\<rparr>)
                                   in Inr (\<lparr>ur_charge = c, ur_meter = Some (charge_meter c meter), ur_duplicate = False\<rparr>, db2))))))"

section \<open>Billing what has accrued\<close>

definition due_charge :: "string \<Rightarrow> string \<Rightarrow> int \<Rightarrow> UsageCharge \<Rightarrow> bool" where
  "due_charge skill payer cutoff c \<longleftrightarrow>
     uc_skill c = skill \<and> uc_payer c = payer \<and> uc_settlement c = None \<and> uc_occurred_at c \<le> cutoff"

definition unsettled_charges :: "string \<Rightarrow> string \<Rightarrow> int \<Rightarrow> Usage_DB \<Rightarrow> UsageCharge list" where
  "unsettled_charges skill payer cutoff db =
     sort_key (\<lambda>c. (uc_occurred_at c, uc_id c)) (filter (due_charge skill payer cutoff) (charges db))"

text \<open>\<^verbatim>\<open>f"{x:.6f}"\<close>; the amounts it prints are not negative.\<close>

definition pad6 :: "string \<Rightarrow> string" where
  "pad6 s = replicate (6 - length s) (CHR ''0'') @ s"

definition fixed6 :: "rat \<Rightarrow> string" where
  "fixed6 x =
     (let n = py_round (x * 10 ^ 6)
      in nat_str (nat (n div 10 ^ 6)) @ ''.'' @ pad6 (nat_str (nat (n mod 10 ^ 6))))"

definition settlement_digest :: "(string \<Rightarrow> string) \<Rightarrow> string \<Rightarrow> string \<Rightarrow> rat \<Rightarrow> int \<Rightarrow> UsageCharge list \<Rightarrow> string" where
  "settlement_digest sha skill payer amount calls cs =
     sha (utf8 (join ''|'' ([skill, payer, fixed6 amount, int_str calls]
       @ map (\<lambda>c. uc_id c @ '':'' @ fixed6 (uc_amount c)) cs)))"

subsection \<open>Choosing the bills\<close>

definition configured_address :: "Escrow_Config \<Rightarrow> string" where
  "configured_address cfg = strip (ec_address cfg)"

definition is_current_contract :: "Escrow_Config \<Rightarrow> string \<Rightarrow> bool" where
  "is_current_contract cfg v \<longleftrightarrow>
     (let configured = lower (strip (configured_address cfg)) in configured \<noteq> [] \<and> lower (strip v) = configured)"

definition bill_contract :: "Escrow_Config \<Rightarrow> AllowanceCommit \<Rightarrow> string" where
  "bill_contract cfg r = (if strip (ac_contract r) \<noteq> [] then strip (ac_contract r) else configured_address cfg)"

definition bill_is_spendable :: "Escrow_Config \<Rightarrow> AllowanceCommit \<Rightarrow> bool" where
  "bill_is_spendable cfg r \<longleftrightarrow> \<not> ec_enabled cfg \<or> is_current_contract cfg (bill_contract cfg r)"

definition can_server_settle :: "Escrow_Config \<Rightarrow> bool" where
  "can_server_settle cfg \<longleftrightarrow> strip (ec_operator_key cfg) \<noteq> [] \<and> configured_address cfg \<noteq> []"

definition list_commits :: "string \<Rightarrow> Usage_DB \<Rightarrow> AllowanceCommit list" where
  "list_commits identity db = sort_key (\<lambda>r. - ac_created_at r) (filter (\<lambda>r. ac_identity r = identity) (commits db))"

definition free_usdc :: "AllowanceCommit \<Rightarrow> rat" where
  "free_usdc r = ac_amount r - ac_spent r - ac_reserved r"

fun best_bill :: "Escrow_Config \<Rightarrow> rat \<Rightarrow> (rat \<times> string) option \<Rightarrow> AllowanceCommit list \<Rightarrow> (rat \<times> string) option" where
  "best_bill cfg need best [] = best"
| "best_bill cfg need best (r # rs) =
     (if ac_state r \<noteq> ''open'' \<or> \<not> bill_is_spendable cfg r \<or> free_usdc r + USAGE_EPSILON < need
      then best_bill cfg need best rs
      else best_bill cfg need
             (case best of None \<Rightarrow> Some (free_usdc r, ac_bill r)
              | Some (b, i) \<Rightarrow> if free_usdc r > b then Some (free_usdc r, ac_bill r) else Some (b, i)) rs)"

definition pick_bill :: "Escrow_Config \<Rightarrow> string \<Rightarrow> rat \<Rightarrow> Usage_DB \<Rightarrow> string option" where
  "pick_bill cfg identity need db = map_option snd (best_bill cfg need None (list_commits identity db))"

subsection \<open>The order on the chain\<close>

record Bound =
  bd_binding_id :: int
  bd_scope_hash :: string
  bd_tx_hash :: string

record Submitted =
  sb_proof_hash :: string
  sb_tx_hash :: string
  sb_pull_after :: int

record 'w Chain_Ops =
  open_order :: "string \<Rightarrow> string \<Rightarrow> rat \<Rightarrow> rat \<Rightarrow> string \<Rightarrow> string \<Rightarrow> string \<Rightarrow> 'w \<Rightarrow> (string + Bound) \<times> 'w"
  submit_settlement :: "int \<Rightarrow> string \<Rightarrow> string \<Rightarrow> 'w \<Rightarrow> (string + Submitted) \<times> 'w"
  cancel_binding :: "int \<Rightarrow> string \<Rightarrow> 'w \<Rightarrow> (string + unit) \<times> 'w"

definition open_and_submit_order ::
  "'w Chain_Ops \<Rightarrow> string \<Rightarrow> string \<Rightarrow> rat \<Rightarrow> rat \<Rightarrow> string \<Rightarrow> string \<Rightarrow> string \<Rightarrow> string \<Rightarrow> 'w \<Rightarrow>
   (string + Bound \<times> Submitted) \<times> 'w" where
  "open_and_submit_order ops buyer_bill seller_bill amount stake scope task proof contract w =
     (case open_order ops buyer_bill seller_bill amount stake scope task contract w of
        (Inl e, w1) \<Rightarrow> (Inl e, w1)
      | (Inr bound, w1) \<Rightarrow>
          (case submit_settlement ops (bd_binding_id bound) proof contract w1 of
             (Inr submitted, w2) \<Rightarrow> (Inr (bound, submitted), w2)
           | (Inl e, w2) \<Rightarrow> (Inl e, snd (cancel_binding ops (bd_binding_id bound) contract w2))))"

definition get_binding :: "string \<Rightarrow> Usage_DB \<Rightarrow> EscrowBinding option" where
  "get_binding i db = find (\<lambda>b. eb_id b = i) (bindings db)"

definition local_binding_id :: "int \<Rightarrow> string \<Rightarrow> Usage_DB \<Rightarrow> string" where
  "local_binding_id chain_id contract db =
     (let plain = int_str chain_id in if get_binding plain db = None then plain else contract @ '':'' @ int_str chain_id)"

text \<open>\<^verbatim>\<open>LIKE '%:' + id\<close>: the identifiers are digits, or an address and digits, and hold no wildcard.\<close>

definition find_binding :: "string \<Rightarrow> Usage_DB \<Rightarrow> EscrowBinding option" where
  "find_binding i db =
     (case get_binding i db of
        Some b \<Rightarrow> Some b
      | None \<Rightarrow> (case sort_key (\<lambda>b. - eb_created_at b) (filter (\<lambda>b. \<exists>n \<le> length (eb_id b). drop n (eb_id b) = '':'' @ i) (bindings db)) of
                   [] \<Rightarrow> None | b # _ \<Rightarrow> Some b))"

section \<open>Settling a meter\<close>

definition update_settlement :: "string \<Rightarrow> (UsageSettlement \<Rightarrow> UsageSettlement) \<Rightarrow> Usage_DB \<Rightarrow> Usage_DB" where
  "update_settlement i f db = db\<lparr>settlements := map (\<lambda>s. if us_id s = i then f s else s) (settlements db)\<rparr>"

text \<open>The settlement row is added, the due charges are pinned to it and their sum moves from accrued to billed.\<close>

definition bill_meter :: "UsageSettlement \<Rightarrow> int \<Rightarrow> Usage_DB \<Rightarrow> Usage_DB" where
  "bill_meter row cutoff db =
     update_meter (us_skill row) (us_payer row)
       (\<lambda>m. m\<lparr>um_accrued := round_decimals (um_accrued m - us_amount row) 6,
              um_billed := round_decimals (um_billed m + us_amount row) 6\<rparr>)
       (db\<lparr>settlements := settlements db @ [row],
           charges := map (\<lambda>c. if due_charge (us_skill row) (us_payer row) cutoff c
                               then c\<lparr>uc_settlement := Some (us_id row)\<rparr> else c) (charges db)\<rparr>)"

definition fail_with :: "failure \<Rightarrow> UsageSettlement \<Rightarrow> Usage_DB \<Rightarrow> (UsageSettlement \<times> bool) \<times> Usage_DB" where
  "fail_with f row db =
     ((row\<lparr>us_failure := Some f\<rparr>, False), update_settlement (us_id row) (\<lambda>s. s\<lparr>us_failure := Some f\<rparr>) db)"

definition settlement_row ::
  "(string \<Rightarrow> string) \<Rightarrow> Escrow_Config \<Rightarrow> string \<Rightarrow> int \<Rightarrow> Skill \<Rightarrow> string \<Rightarrow> bool \<Rightarrow> UsageCharge list \<Rightarrow> UsageSettlement" where
  "settlement_row sha cfg fresh now skill payer on_chain cs =
     (let amount = round_decimals (sum_list (map uc_amount cs)) 6; calls = sum_list (map uc_units cs)
      in \<lparr>us_id = fresh, us_skill = sk_id skill, us_payer = payer, us_provider = sk_owner skill, us_amount = amount,
          us_stake = required_stake_usdc (ec_stake_bps cfg) amount, us_calls = calls, us_status = ''open'',
          us_mode = (if on_chain then ''escrow_allowance'' else ''manual''),
          us_digest = settlement_digest sha (sk_id skill) payer amount calls cs, us_binding = None, us_tx_hash = None,
          us_failure = None, us_created_at = now, us_settled_at = None\<rparr>)"

definition submit_row ::
  "'w Chain_Ops \<Rightarrow> Escrow_Config \<Rightarrow> int \<Rightarrow> Skill \<Rightarrow> UsageSettlement \<Rightarrow> string \<Rightarrow> string \<Rightarrow> Usage_DB \<Rightarrow> 'w \<Rightarrow>
   ((UsageSettlement \<times> bool) \<times> Usage_DB) \<times> 'w" where
  "submit_row ops cfg now skill row buyer_bill seller_bill db w =
     (let task = take 64 (''usage-'' @ us_id row);
          scope = take 120 (ec_scope cfg @ '':skill:'' @ sk_slug skill);
          proof_text = ''usage:'' @ us_id row @ '':'' @ us_digest row
      in case open_and_submit_order ops buyer_bill seller_bill (us_amount row) (us_stake row) scope task proof_text
                (configured_address cfg) w of
           (Inl e, w1) \<Rightarrow> (fail_with (Chain_Failed e) row db, w1)
         | (Inr (bound, submitted), w1) \<Rightarrow>
             (let local_id = local_binding_id (bd_binding_id bound) (configured_address cfg) db;
                  b = \<lparr>eb_id = local_id, eb_buyer = us_payer row, eb_seller = sk_owner skill, eb_buyer_bill = buyer_bill,
                       eb_seller_bill = seller_bill, eb_contract = configured_address cfg,
                       eb_scope_hash = bd_scope_hash bound, eb_task = task, eb_amount = us_amount row,
                       eb_stake = us_stake row, eb_state = ''finalizing'', eb_proof_hash = Some (sb_proof_hash submitted),
                       eb_bind_tx = Some (bd_tx_hash bound), eb_submit_tx = Some (sb_tx_hash submitted),
                       eb_finalize_tx = None, eb_pull_after = sb_pull_after submitted, eb_created_at = now\<rparr>;
                  upd = (\<lambda>s. s\<lparr>us_binding := Some local_id, us_status := ''submitted'', us_failure := None\<rparr>)
              in (((upd row, True), update_settlement (us_id row) upd (db\<lparr>bindings := bindings db @ [b]\<rparr>)), w1)))"

definition settle_meter ::
  "(string \<Rightarrow> string) \<Rightarrow> 'w Chain_Ops \<Rightarrow> Escrow_Config \<Rightarrow> string \<Rightarrow> int \<Rightarrow> Skill \<Rightarrow> string \<Rightarrow> int option \<Rightarrow> bool \<Rightarrow>
   Usage_DB \<Rightarrow> 'w \<Rightarrow> ((UsageSettlement \<times> bool) option \<times> Usage_DB) \<times> 'w" where
  "settle_meter sha ops cfg fresh now skill payer cutoff allow_chain db w =
     (let stamp = (case cutoff of Some t \<Rightarrow> t | None \<Rightarrow> now)
      in case get_meter (sk_id skill) payer db of
           None \<Rightarrow> ((None, db), w)
         | Some meter \<Rightarrow>
             (let cs = unsettled_charges (sk_id skill) payer stamp db;
                  amount = round_decimals (sum_list (map uc_amount cs)) 6
              in if amount \<le> 0 \<or> amount + USAGE_EPSILON < um_threshold meter then ((None, db), w)
                 else let on_chain = (allow_chain \<and> can_server_settle cfg);
                          row = settlement_row sha cfg fresh now skill payer on_chain cs;
                          db1 = bill_meter row stamp db
                      in if \<not> on_chain then (case fail_with No_Operator row db1 of (r, db2) \<Rightarrow> ((Some r, db2), w))
                         else case (pick_bill cfg payer amount db1, pick_bill cfg (sk_owner skill) (us_stake row) db1) of
                                (Some buyer_bill, Some seller_bill) \<Rightarrow>
                                  (case submit_row ops cfg now skill row buyer_bill seller_bill db1 w of
                                     ((r, db2), w1) \<Rightarrow> ((Some r, db2), w1))
                              | (buyer_bill, _) \<Rightarrow>
                                  (case fail_with (Short_Of_Funds (buyer_bill = None) amount (us_stake row)) row db1 of
                                     (r, db2) \<Rightarrow> ((Some r, db2), w))))"

section \<open>Reconciling with the chain\<close>

definition binding_done :: "string \<Rightarrow> string option" where
  "binding_done state =
     (if state = ''settled'' then Some ''settled''
      else if state = ''slashed'' \<or> state = ''cancelled'' then Some ''failed'' else None)"

definition or_else :: "string option \<Rightarrow> string option \<Rightarrow> string option" where
  "or_else a b = (case a of Some (c # cs) \<Rightarrow> a | _ \<Rightarrow> b)"

definition mark_settled :: "int \<Rightarrow> UsageSettlement \<Rightarrow> EscrowBinding \<Rightarrow> Usage_DB \<Rightarrow> Usage_DB" where
  "mark_settled now row b db =
     update_meter (us_skill row) (us_payer row) (\<lambda>m. m\<lparr>um_settled := round_decimals (um_settled m + us_amount row) 6\<rparr>)
       (update_settlement (us_id row)
          (\<lambda>s. s\<lparr>us_status := ''settled'', us_tx_hash := or_else (eb_finalize_tx b) (eb_submit_tx b),
                 us_settled_at := Some now, us_failure := None\<rparr>) db)"

definition mark_failed :: "UsageSettlement \<Rightarrow> EscrowBinding \<Rightarrow> Usage_DB \<Rightarrow> Usage_DB" where
  "mark_failed row b db =
     (let db1 = update_meter (us_skill row) (us_payer row)
                  (\<lambda>m. m\<lparr>um_billed := round_decimals (max 0 (um_billed m - us_amount row)) 6,
                         um_accrued := round_decimals (um_accrued m + us_amount row) 6\<rparr>)
                  (update_settlement (us_id row)
                     (\<lambda>s. s\<lparr>us_status := ''failed'', us_failure := Some (Binding_Ended (eb_state b))\<rparr>) db)
      in db1\<lparr>charges := map (\<lambda>c. if uc_settlement c = Some (us_id row) then c\<lparr>uc_settlement := None\<rparr> else c) (charges db1)\<rparr>)"

definition reconcile_row :: "int \<Rightarrow> UsageSettlement \<Rightarrow> Usage_DB \<Rightarrow> Usage_DB" where
  "reconcile_row now row db =
     (case us_binding row of
        Some (c # cs) \<Rightarrow>
          (case find_binding (c # cs) db of
             None \<Rightarrow> db
           | Some b \<Rightarrow>
               (case binding_done (eb_state b) of
                  None \<Rightarrow> db
                | Some target \<Rightarrow> if target = ''settled'' then mark_settled now row b db else mark_failed row b db))
      | _ \<Rightarrow> db)"

definition submitted_rows :: "int \<Rightarrow> Usage_DB \<Rightarrow> UsageSettlement list" where
  "submitted_rows limit db =
     take (nat (max 1 limit)) (sort_key us_created_at (filter (\<lambda>s. us_status s = ''submitted'') (settlements db)))"

definition reconcile_settlements :: "int \<Rightarrow> int \<Rightarrow> Usage_DB \<Rightarrow> Usage_DB" where
  "reconcile_settlements now limit db = fold (reconcile_row now) (submitted_rows limit db) db"

section \<open>The route\<close>

datatype use_error = Not_Published string | No_Locked_Funds | Funds_Too_Small rat rat | Refused usage_error

definition assert_can_pay :: "Skill \<Rightarrow> string \<Rightarrow> Usage_DB \<Rightarrow> use_error + unit" where
  "assert_can_pay skill payer db =
     (let needed = max (sk_unit_price skill) 0;
          live = filter (\<lambda>r. ac_state r = ''open'') (list_commits payer db)
      in case live of
           [] \<Rightarrow> Inl No_Locked_Funds
         | r # rs \<Rightarrow>
             if needed \<le> 0 then Inr ()
             else let best = foldl max (free_usdc r) (map free_usdc rs)
                  in if best + USAGE_EPSILON < needed then Inl (Funds_Too_Small needed (round_decimals best 6)) else Inr ())"

definition use_skill ::
  "(string \<Rightarrow> string) \<Rightarrow> 'w Chain_Ops \<Rightarrow> Escrow_Config \<Rightarrow> string \<Rightarrow> string \<Rightarrow> string \<Rightarrow> int \<Rightarrow> Skill \<Rightarrow> string \<Rightarrow>
   string option \<Rightarrow> int \<Rightarrow> Usage_DB \<Rightarrow> 'w \<Rightarrow>
   (use_error + (Usage_Result \<times> (UsageSettlement \<times> bool) option) \<times> Usage_DB) \<times> 'w" where
  "use_skill sha ops cfg fresh_meter fresh_charge fresh_settlement now skill actor request_id units db w =
     (if sk_status skill \<noteq> ''published'' then (Inl (Not_Published (sk_status skill)), w)
      else case assert_can_pay skill actor db of
             Inl e \<Rightarrow> (Inl e, w)
           | Inr _ \<Rightarrow>
               (case record_usage fresh_meter fresh_charge now skill actor request_id units None None db of
                  Inl e \<Rightarrow> (Inl (Refused e), w)
                | Inr (result, db1) \<Rightarrow>
                    (case (if ur_duplicate result then ((None, db1), w)
                           else settle_meter sha ops cfg fresh_settlement now skill actor None True db1 w) of
                       ((settlement, db2), w1) \<Rightarrow>
                         (Inr ((result, settlement), reconcile_settlements now 50 db2), w1))))"

section \<open>Sums over rows\<close>

text \<open>The sum of \<open>f\<close> over the elements that satisfy \<open>P\<close>.\<close>

definition total :: "('a \<Rightarrow> bool) \<Rightarrow> ('a \<Rightarrow> rat) \<Rightarrow> 'a list \<Rightarrow> rat" where
  "total P f xs = (\<Sum>x\<leftarrow>xs. if P x then f x else 0)"

lemma total_Nil [simp]: "total P f [] = 0"
  and total_Cons [simp]: "total P f (x # xs) = (if P x then f x else 0) + total P f xs"
  and total_append [simp]: "total P f (xs @ ys) = total P f xs + total P f ys"
  by (simp_all add: total_def)

lemma total_cong: "(\<And>x. x \<in> set xs \<Longrightarrow> P x = Q x \<and> (Q x \<longrightarrow> f x = g x)) \<Longrightarrow> total P f xs = total Q g xs"
  by (induction xs) auto

lemma total_map: "total P f (map h xs) = total (P \<circ> h) (f \<circ> h) xs"
  by (induction xs) auto

lemma total_split: "total P f xs = total (\<lambda>x. P x \<and> Q x) f xs + total (\<lambda>x. P x \<and> \<not> Q x) f xs"
  by (induction xs) auto

lemma total_nonneg: "(\<And>x. x \<in> set xs \<Longrightarrow> P x \<Longrightarrow> 0 \<le> f x) \<Longrightarrow> 0 \<le> total P f xs"
  by (induction xs) auto

lemma total_mono:
  "(\<And>x. x \<in> set xs \<Longrightarrow> P x \<Longrightarrow> Q x) \<Longrightarrow> (\<And>x. x \<in> set xs \<Longrightarrow> Q x \<Longrightarrow> 0 \<le> f x) \<Longrightarrow> total P f xs \<le> total Q f xs"
proof (induction xs)
  case (Cons x xs)
  then have "total P f xs \<le> total Q f xs" by simp
  moreover have "(if P x then f x else 0) \<le> (if Q x then f x else 0)" using Cons.prems [of x] by auto
  ultimately show ?case by simp
qed simp

lemma total_filter: "sum_list (map f (filter P xs)) = total P f xs"
  by (induction xs) auto

lemma sum_list_insort: "sum_list (map f (insort_key k x xs)) = f x + sum_list (map (f :: 'a \<Rightarrow> rat) xs)"
  by (induction xs) auto

lemma sum_list_sort_key: "sum_list (map f (sort_key k xs)) = sum_list (map (f :: 'a \<Rightarrow> rat) xs)"
  by (induction xs) (simp_all add: sum_list_insort)

lemma total_none: "(\<And>x. x \<in> set xs \<Longrightarrow> \<not> P x) \<Longrightarrow> total P f xs = 0"
  by (induction xs) auto

text \<open>Replacing the element of a key that occurs once.\<close>

lemma total_replace:
  assumes "distinct (map key xs)" "r \<in> set xs"
  shows "total P f (map (\<lambda>x. if key x = key r then h x else x) xs)
    = total P f xs - (if P r then f r else 0) + (if P (h r) then f (h r) else 0)"
  using assms
proof (induction xs)
  case (Cons x xs)
  show ?case
  proof (cases "x = r")
    case True
    with Cons.prems have "key r \<notin> set (map key xs)" by simp
    then have "map (\<lambda>x. if key x = key r then h x else x) xs = xs" by (intro map_idI) (metis image_eqI list.set_map)
    with True show ?thesis by simp
  next
    case False
    with Cons.prems have "r \<in> set xs" "distinct (map key xs)" "key x \<noteq> key r" by (auto simp: image_iff)
    with Cons.IH show ?thesis by simp
  qed
qed simp

section \<open>Amounts in millionths\<close>

definition micro :: "rat \<Rightarrow> bool" where
  "micro x \<longleftrightarrow> (\<exists>n. x = of_int n / 10 ^ 6)"

lemma micro_round [simp]: "micro (round_decimals x 6)"
  by (auto simp: micro_def round_decimals_def)

lemma round_micro [simp]: "micro x \<Longrightarrow> round_decimals x 6 = x"
  by (auto simp: micro_def round_decimals_def)

lemma micro_0 [simp]: "micro 0"
  by (auto simp: micro_def intro: exI [of _ 0])

lemma micro_add [simp, intro]: "micro x \<Longrightarrow> micro y \<Longrightarrow> micro (x + y)"
  unfolding micro_def by (auto simp: add_divide_distrib [symmetric] simp flip: of_int_add)

lemma micro_diff [simp, intro]: "micro x \<Longrightarrow> micro y \<Longrightarrow> micro (x - y)"
  unfolding micro_def by (auto simp: diff_divide_distrib [symmetric] simp flip: of_int_diff)

lemma micro_total: "(\<And>x. x \<in> set xs \<Longrightarrow> P x \<Longrightarrow> micro (f x)) \<Longrightarrow> micro (total P f xs)"
  by (induction xs) auto

lemma micro_le:
  assumes "micro x" "micro y" "x \<le> y + USAGE_EPSILON"
  shows "x \<le> y"
proof -
  obtain a b where ab: "x = of_int a / 10 ^ 6" "y = of_int b / 10 ^ 6" using assms by (auto simp: micro_def)
  with assms(3) have "of_int a \<le> (of_int b :: rat) + 1 / 1000" by (simp add: USAGE_EPSILON_def field_simps)
  then have "(of_int a :: rat) < of_int (b + 1)" by simp
  then have "a < b + 1" by (simp only: of_int_less_iff)
  then show ?thesis by (simp add: ab divide_le_cancel)
qed

section \<open>Invariant of the ledger\<close>

definition meter_key :: "UsageMeter \<Rightarrow> string \<times> string" where
  "meter_key m = (um_skill m, um_payer m)"

definition charge_owner :: "UsageCharge \<Rightarrow> string \<times> string" where
  "charge_owner c = (uc_skill c, uc_payer c)"

definition settlement_owner :: "UsageSettlement \<Rightarrow> string \<times> string" where
  "settlement_owner s = (us_skill s, us_payer s)"

definition charge_key :: "UsageCharge \<Rightarrow> string \<times> string" where
  "charge_key c = (uc_skill c, uc_request c)"

text \<open>What a payer owes for a skill: the charges that are open, the charges that are billed, the settlements that
  stand and those that the chain paid.\<close>

definition open_sum :: "Usage_DB \<Rightarrow> string \<times> string \<Rightarrow> rat" where
  "open_sum db k = total (\<lambda>c. charge_owner c = k \<and> uc_settlement c = None) uc_amount (charges db)"

definition pinned_sum :: "Usage_DB \<Rightarrow> string \<times> string \<Rightarrow> rat" where
  "pinned_sum db k = total (\<lambda>c. charge_owner c = k \<and> uc_settlement c \<noteq> None) uc_amount (charges db)"

definition live_sum :: "Usage_DB \<Rightarrow> string \<times> string \<Rightarrow> rat" where
  "live_sum db k = total (\<lambda>s. settlement_owner s = k \<and> us_status s \<noteq> ''failed'') us_amount (settlements db)"

definition paid_sum :: "Usage_DB \<Rightarrow> string \<times> string \<Rightarrow> rat" where
  "paid_sum db k = total (\<lambda>s. settlement_owner s = k \<and> us_status s = ''settled'') us_amount (settlements db)"

definition charged_sum :: "Usage_DB \<Rightarrow> string \<times> string \<Rightarrow> rat" where
  "charged_sum db k = total (\<lambda>c. charge_owner c = k) uc_amount (charges db)"

definition pinned_to :: "Usage_DB \<Rightarrow> string \<Rightarrow> rat" where
  "pinned_to db i = total (\<lambda>c. uc_settlement c = Some i) uc_amount (charges db)"

definition meter_ok :: "Usage_DB \<Rightarrow> UsageMeter \<Rightarrow> bool" where
  "meter_ok db m \<longleftrightarrow>
     um_accrued m = open_sum db (meter_key m) \<and> um_billed m = pinned_sum db (meter_key m)
     \<and> live_sum db (meter_key m) = pinned_sum db (meter_key m) \<and> um_settled m = paid_sum db (meter_key m)"

definition charge_ok :: "Usage_DB \<Rightarrow> UsageCharge \<Rightarrow> bool" where
  "charge_ok db c \<longleftrightarrow>
     micro (uc_amount c) \<and> 0 \<le> uc_amount c \<and> charge_owner c \<in> meter_key ` set (meters db)
     \<and> (\<forall>i. uc_settlement c = Some i \<longrightarrow>
          (\<exists>s \<in> set (settlements db). us_id s = i \<and> settlement_owner s = charge_owner c \<and> us_status s \<noteq> ''failed''))"

definition settlement_ok :: "Usage_DB \<Rightarrow> UsageSettlement \<Rightarrow> bool" where
  "settlement_ok db s \<longleftrightarrow>
     micro (us_amount s) \<and> 0 \<le> us_amount s \<and> settlement_owner s \<in> meter_key ` set (meters db)
     \<and> (us_status s \<noteq> ''failed'' \<longrightarrow> us_amount s = pinned_to db (us_id s))"

definition usage_ok :: "Usage_DB \<Rightarrow> bool" where
  "usage_ok db \<longleftrightarrow>
     distinct (map meter_key (meters db)) \<and> distinct (map charge_key (charges db))
     \<and> distinct (map us_id (settlements db))
     \<and> (\<forall>m \<in> set (meters db). meter_ok db m) \<and> (\<forall>c \<in> set (charges db). charge_ok db c)
     \<and> (\<forall>s \<in> set (settlements db). settlement_ok db s)"

lemma usage_okI:
  "distinct (map meter_key (meters db)) \<Longrightarrow> distinct (map charge_key (charges db)) \<Longrightarrow>
   distinct (map us_id (settlements db)) \<Longrightarrow> (\<And>m. m \<in> set (meters db) \<Longrightarrow> meter_ok db m) \<Longrightarrow>
   (\<And>c. c \<in> set (charges db) \<Longrightarrow> charge_ok db c) \<Longrightarrow> (\<And>s. s \<in> set (settlements db) \<Longrightarrow> settlement_ok db s) \<Longrightarrow>
   usage_ok db"
  by (simp add: usage_ok_def)

lemma get_meter_key:
  assumes "get_meter sk p db = Some m"
  shows "m \<in> set (meters db) \<and> meter_key m = (sk, p)"
  using assms by (auto simp: get_meter_def find_Some_iff meter_key_def)

lemma get_meter_None: "get_meter sk p db = None \<longleftrightarrow> (sk, p) \<notin> meter_key ` set (meters db)"
  by (auto simp: get_meter_def find_None_iff meter_key_def image_iff)

text \<open>The charges and the settlements fix the meters; tables of the chain do not matter.\<close>

lemma sums_cong:
  assumes "charges db' = charges db" "settlements db' = settlements db"
  shows "open_sum db' = open_sum db" "pinned_sum db' = pinned_sum db" "live_sum db' = live_sum db"
    "paid_sum db' = paid_sum db" "pinned_to db' = pinned_to db"
  using assms by (simp_all add: fun_eq_iff open_sum_def pinned_sum_def live_sum_def paid_sum_def pinned_to_def)

lemma usage_ok_chain_tables: "usage_ok (db\<lparr>commits := cs, bindings := bs\<rparr>) = usage_ok db"
  by (simp add: usage_ok_def meter_ok_def charge_ok_def settlement_ok_def open_sum_def pinned_sum_def live_sum_def
      paid_sum_def pinned_to_def)

lemma keys_update_meter [simp]:
  assumes "\<And>m. meter_key (f m) = meter_key m"
  shows "map meter_key (meters (update_meter sk p f db)) = map meter_key (meters db)"
  using assms by (simp add: update_meter_def comp_def)

lemma meters_update_meter:
  "m \<in> set (meters (update_meter sk p f db)) \<Longrightarrow>
   \<exists>n \<in> set (meters db). m = (if meter_key n = (sk, p) then f n else n)"
  by (auto simp: update_meter_def meter_key_def split: if_splits)

definition caps_ok :: "Usage_DB \<Rightarrow> bool" where
  "caps_ok db \<longleftrightarrow> (\<forall>m \<in> set (meters db). \<forall>cap. um_cap m = Some cap \<longrightarrow> charged_sum db (meter_key m) \<le> cap + USAGE_EPSILON)"

lemma charged_sum_split: "charged_sum db k = open_sum db k + pinned_sum db k"
  unfolding charged_sum_def open_sum_def pinned_sum_def by (rule total_split)

lemma usage_okD:
  assumes "usage_ok db"
  shows "m \<in> set (meters db) \<Longrightarrow> meter_ok db m" "c \<in> set (charges db) \<Longrightarrow> charge_ok db c"
    "s \<in> set (settlements db) \<Longrightarrow> settlement_ok db s"
  using assms by (simp_all add: usage_ok_def)

lemma charge_amount: "usage_ok db \<Longrightarrow> c \<in> set (charges db) \<Longrightarrow> micro (uc_amount c) \<and> 0 \<le> uc_amount c"
  by (simp add: usage_ok_def charge_ok_def)

lemma settlement_amount: "usage_ok db \<Longrightarrow> s \<in> set (settlements db) \<Longrightarrow> micro (us_amount s) \<and> 0 \<le> us_amount s"
  by (simp add: usage_ok_def settlement_ok_def)

lemma charge_pinned:
  "usage_ok db \<Longrightarrow> c \<in> set (charges db) \<Longrightarrow> uc_settlement c = Some i \<Longrightarrow>
   \<exists>s \<in> set (settlements db). us_id s = i \<and> settlement_owner s = charge_owner c \<and> us_status s \<noteq> ''failed''"
  by (simp add: usage_ok_def charge_ok_def)

lemma micro_sums:
  assumes "usage_ok db"
  shows "micro (open_sum db k)" "micro (pinned_sum db k)" "micro (paid_sum db k)" "micro (live_sum db k)"
  unfolding open_sum_def pinned_sum_def paid_sum_def live_sum_def
  by (rule micro_total, blast dest: charge_amount [OF assms] settlement_amount [OF assms])+

subsection \<open>A charge\<close>

lemma new_meter_ok:
  assumes "usage_ok db" "get_meter (sk_id skill) payer db = None"
  shows "usage_ok (db\<lparr>meters := meters db @ [new_meter fresh skill payer]\<rparr>)"
proof -
  let ?m = "new_meter fresh skill payer" and ?k = "(sk_id skill, payer)"
  let ?db = "db\<lparr>meters := meters db @ [?m]\<rparr>"
  have k: "meter_key ?m = ?k" by (simp add: new_meter_def meter_key_def)
  have nin: "?k \<notin> meter_key ` set (meters db)" using assms(2) by (simp add: get_meter_None)
  have noc: "charge_owner c \<noteq> ?k" if "c \<in> set (charges db)" for c
    using usage_okD(2) [OF assms(1) that] nin by (auto simp: charge_ok_def)
  have nos: "settlement_owner s \<noteq> ?k" if "s \<in> set (settlements db)" for s
    using usage_okD(3) [OF assms(1) that] nin by (auto simp: settlement_ok_def)
  have zero: "open_sum db ?k = 0" "pinned_sum db ?k = 0" "live_sum db ?k = 0" "paid_sum db ?k = 0"
    unfolding open_sum_def pinned_sum_def live_sum_def paid_sum_def by (rule total_none, use noc nos in blast)+
  have sums: "open_sum ?db = open_sum db" "pinned_sum ?db = pinned_sum db" "live_sum ?db = live_sum db"
    "paid_sum ?db = paid_sum db" "pinned_to ?db = pinned_to db" by (rule sums_cong; simp)+
  have zm: "um_accrued ?m = 0" "um_billed ?m = 0" "um_settled ?m = 0" by (simp_all add: new_meter_def)
  show ?thesis
  proof (rule usage_okI)
    show "distinct (map meter_key (meters ?db))" using assms(1) nin k by (simp add: usage_ok_def)
    show "distinct (map charge_key (charges ?db))" "distinct (map us_id (settlements ?db))"
      using assms(1) by (simp_all add: usage_ok_def)
    show "meter_ok ?db m" if "m \<in> set (meters ?db)" for m
    proof (cases "m = ?m")
      case True
      show ?thesis unfolding True meter_ok_def sums k zm zero by simp
    next
      case False
      with that have "meter_ok db m" by (intro usage_okD(1) [OF assms(1)]) simp
      then show ?thesis unfolding meter_ok_def sums .
    qed
    show "charge_ok ?db c" if "c \<in> set (charges ?db)" for c
      using that usage_okD(2) [OF assms(1), of c] by (auto simp: charge_ok_def)
    show "settlement_ok ?db s" if "s \<in> set (settlements ?db)" for s
      using that usage_okD(3) [OF assms(1), of s] by (auto simp: settlement_ok_def sums)
  qed
qed

lemma add_charge_ok:
  assumes ok: "usage_ok db" and c: "micro (uc_amount c)" "0 \<le> uc_amount c" "uc_settlement c = None"
    "charge_owner c \<in> meter_key ` set (meters db)" "charge_key c \<notin> charge_key ` set (charges db)"
  shows "usage_ok (update_meter (uc_skill c) (uc_payer c) (charge_meter c) (db\<lparr>charges := charges db @ [c]\<rparr>))"
    (is "usage_ok ?db")
proof -
  have keys: "map meter_key (meters ?db) = map meter_key (meters db)"
    by (subst keys_update_meter) (simp_all add: charge_meter_def meter_key_def)
  have tabs: "charges ?db = charges db @ [c]" "settlements ?db = settlements db" by (simp_all add: update_meter_def)
  have sums: "open_sum ?db k = open_sum db k + (if charge_owner c = k then uc_amount c else 0)"
    "pinned_sum ?db k = pinned_sum db k" "live_sum ?db k = live_sum db k" "paid_sum ?db k = paid_sum db k"
    "pinned_to ?db i = pinned_to db i" for k i
    using c(3) by (simp_all add: tabs open_sum_def pinned_sum_def live_sum_def paid_sum_def pinned_to_def)
  have setk: "meter_key ` set (meters ?db) = meter_key ` set (meters db)" using keys by (metis list.set_map)
  show ?thesis
  proof (rule usage_okI)
    show "distinct (map meter_key (meters ?db))" unfolding keys using ok by (simp add: usage_ok_def)
    show "distinct (map charge_key (charges ?db))" "distinct (map us_id (settlements ?db))"
      using ok c(5) by (simp_all add: tabs usage_ok_def)
    show "meter_ok ?db m" if mem: "m \<in> set (meters ?db)" for m
    proof -
      obtain n where n: "n \<in> set (meters db)" and m: "m = (if meter_key n = (uc_skill c, uc_payer c) then charge_meter c n else n)"
        using meters_update_meter [OF mem] by auto
      have okn: "meter_ok db n" by (rule usage_okD(1) [OF ok n])
      show ?thesis
      proof (cases "meter_key n = charge_owner c")
        case True
        then have "m = charge_meter c n" using m by (simp add: charge_owner_def)
        moreover have "micro (um_accrued n + uc_amount c)"
          using okn micro_sums(1) [OF ok, of "meter_key n"] c(1) by (simp add: meter_ok_def)
        ultimately show ?thesis using okn True by (simp add: meter_ok_def sums charge_meter_def meter_key_def)
      next
        case False
        then have "m = n" using m by (simp add: charge_owner_def)
        with okn False show ?thesis unfolding meter_ok_def sums by simp
      qed
    qed
    show "charge_ok ?db d" if "d \<in> set (charges ?db)" for d
      using that usage_okD(2) [OF ok, of d] c unfolding charge_ok_def setk by (auto simp: tabs)
    show "settlement_ok ?db s" if "s \<in> set (settlements ?db)" for s
      using that usage_okD(3) [OF ok, of s] unfolding settlement_ok_def setk sums by (simp add: tabs)
  qed
qed

lemma find_charge_None: "find_charge sk rid db = None \<longleftrightarrow> (sk, rid) \<notin> charge_key ` set (charges db)"
  by (auto simp: find_charge_def find_None_iff charge_key_def image_iff)

lemma get_or_create_meter_ok:
  assumes "usage_ok db" "get_or_create_meter fresh skill payer db = (m, db1)"
  shows "usage_ok db1 \<and> charges db1 = charges db \<and> settlements db1 = settlements db
    \<and> m \<in> set (meters db1) \<and> meter_key m = (sk_id skill, payer)
    \<and> (\<forall>n \<in> set (meters db1). n \<noteq> m \<longrightarrow> n \<in> set (meters db))"
proof (cases "get_meter (sk_id skill) payer db")
  case None
  with assms have "m = new_meter fresh skill payer" "db1 = db\<lparr>meters := meters db @ [new_meter fresh skill payer]\<rparr>"
    by (auto simp: get_or_create_meter_def Let_def)
  with new_meter_ok [OF assms(1) None, of fresh] show ?thesis by (simp add: new_meter_def meter_key_def)
next
  case (Some n)
  with assms get_meter_key [OF Some] show ?thesis by (auto simp: get_or_create_meter_def)
qed

lemma record_usage_cases:
  assumes "record_usage fm fresh now skill payer request_id units occurred_at given db = Inr (r, db')"
  obtains (replayed) rid where "normalize_request_id request_id = Inr rid" "find_charge (sk_id skill) rid db = Some (ur_charge r)"
      "ur_duplicate r" "db' = db"
  | (charged) rid meter db1 where "normalize_request_id request_id = Inr rid" "find_charge (sk_id skill) rid db = None"
      "get_or_create_meter fm skill payer db = (meter, db1)" "0 < units"
      "uc_amount (ur_charge r) = round_decimals (of_int units * sk_unit_price skill) 6"
      "assert_meter_allows meter (uc_amount (ur_charge r)) = Inr ()"
      "uc_skill (ur_charge r) = sk_id skill" "uc_payer (ur_charge r) = payer" "uc_request (ur_charge r) = rid"
      "uc_settlement (ur_charge r) = None" "\<not> ur_duplicate r"
      "db' = update_meter (uc_skill (ur_charge r)) (uc_payer (ur_charge r)) (charge_meter (ur_charge r))
               (db1\<lparr>charges := charges db1 @ [ur_charge r]\<rparr>)"
  using assms
  by (auto simp: record_usage_def estimate_amount_def Let_def split: sum.splits if_splits option.splits prod.splits)

lemma round6_nonneg: "0 \<le> x \<Longrightarrow> 0 \<le> round_decimals x 6"
  by (simp add: round_decimals_def py_round_nonneg)

lemma record_usage_ok:
  assumes "usage_ok db" "0 \<le> sk_unit_price skill"
    and "record_usage fm fresh now skill payer request_id units occurred_at given db = Inr (r, db')"
  shows "usage_ok db'"
  using assms(3)
proof (cases rule: record_usage_cases)
  case replayed
  with assms(1) show ?thesis by simp
next
  case (charged rid meter db1)
  let ?c = "ur_charge r"
  note g = get_or_create_meter_ok [OF assms(1) charged(3)]
  have "0 \<le> of_int units * sk_unit_price skill" using charged(4) assms(2) by simp
  then have amt: "micro (uc_amount ?c)" "0 \<le> uc_amount ?c" using charged(5) round6_nonneg by simp_all
  have own: "charge_owner ?c = meter_key meter" using charged(7,8) g by (simp add: charge_owner_def)
  have key: "charge_key ?c \<notin> charge_key ` set (charges db1)"
    using charged(2,7,9) g by (simp add: find_charge_None charge_key_def)
  show ?thesis unfolding charged(12)
    by (rule add_charge_ok [OF _ amt charged(10) _ key]) (use g own in \<open>auto intro: rev_image_eqI\<close>)
qed

text \<open>The cap is checked against what the meter says, which is what was charged.\<close>

lemma record_usage_caps:
  assumes "usage_ok db" "caps_ok db" "0 \<le> sk_unit_price skill"
    and "record_usage fm fresh now skill payer request_id units occurred_at given db = Inr (r, db')"
  shows "caps_ok db'"
  using assms(4)
proof (cases rule: record_usage_cases)
  case replayed
  with assms(2) show ?thesis by simp
next
  case (charged rid meter db1)
  let ?c = "ur_charge r"
  note g = get_or_create_meter_ok [OF assms(1) charged(3)]
  have own: "charge_owner ?c = meter_key meter" using charged(7,8) g by (simp add: charge_owner_def)
  have "meter_ok db1 meter" using g by (simp add: usage_ok_def)
  then have used: "um_billed meter + um_accrued meter = charged_sum db1 (meter_key meter)"
    by (simp add: meter_ok_def charged_sum_split)
  have allow: "charged_sum db1 (meter_key meter) + uc_amount ?c \<le> cap + USAGE_EPSILON" if "um_cap meter = Some cap" for cap
    using charged(6) that used by (simp add: assert_meter_allows_def Let_def split: if_splits)
  have same: "charged_sum db1 k = charged_sum db k" for k using g by (simp add: charged_sum_def)
  have new: "charged_sum db' k = charged_sum db1 k + (if charge_owner ?c = k then uc_amount ?c else 0)" for k
    by (simp add: charged(12) charged_sum_def update_meter_def)
  show ?thesis unfolding caps_ok_def
  proof (intro ballI allI impI)
    fix m cap assume m: "m \<in> set (meters db')" "um_cap m = Some cap"
    obtain n where n: "n \<in> set (meters db1)" and mn: "m = (if meter_key n = (uc_skill ?c, uc_payer ?c) then charge_meter ?c n else n)"
      using meters_update_meter m(1) unfolding charged(12) by force
    have mk: "meter_key m = meter_key n" "um_cap n = Some cap" using mn m(2) by (auto simp: charge_meter_def meter_key_def split: if_splits)
    show "charged_sum db' (meter_key m) \<le> cap + USAGE_EPSILON"
    proof (cases "n = meter")
      case True
      then show ?thesis using allow mk own by (simp add: new)
    next
      case False
      have "distinct (map meter_key (meters db1))" using g by (simp add: usage_ok_def)
      with False n g have "meter_key n \<noteq> meter_key meter" by (auto simp: distinct_map inj_on_def)
      moreover have "n \<in> set (meters db)" using g n False by blast
      ultimately show ?thesis using assms(2) mk own by (simp add: new same caps_ok_def)
    qed
  qed
qed

subsection \<open>A settlement\<close>

text \<open>An update of the meter of one key that shifts its amounts, over tables whose sums are shifted alike.\<close>

lemma shifted_meters:
  assumes ok: "usage_ok db" and mem: "m \<in> set (meters db')"
    and ms: "meters db' = meters (update_meter sk p f db)"
    and f: "\<And>n. n \<in> set (meters db) \<Longrightarrow> meter_key n = (sk, p) \<Longrightarrow> meter_key (f n) = (sk, p) \<and> um_accrued (f n) = um_accrued n + a
      \<and> um_billed (f n) = um_billed n + b \<and> um_settled (f n) = um_settled n + d"
    and sums: "\<And>k. open_sum db' k = open_sum db k + (if k = (sk, p) then a else 0)"
      "\<And>k. pinned_sum db' k = pinned_sum db k + (if k = (sk, p) then b else 0)"
      "\<And>k. live_sum db' k = live_sum db k + (if k = (sk, p) then b else 0)"
      "\<And>k. paid_sum db' k = paid_sum db k + (if k = (sk, p) then d else 0)"
  shows "meter_ok db' m"
proof -
  obtain n where n: "n \<in> set (meters db)" and m: "m = (if meter_key n = (sk, p) then f n else n)"
    using meters_update_meter mem unfolding ms by blast
  have okn: "meter_ok db n" by (rule usage_okD(1) [OF ok n])
  show ?thesis
  proof (cases "meter_key n = (sk, p)")
    case True
    with m f [OF n True] okn show ?thesis by (simp add: meter_ok_def sums)
  next
    case False
    with m have "m = n" by simp
    with okn False show ?thesis by (simp add: meter_ok_def sums)
  qed
qed

lemma meter_micro:
  assumes "usage_ok db" "n \<in> set (meters db)"
  shows "micro (um_accrued n) \<and> micro (um_billed n) \<and> micro (um_settled n)"
  using usage_okD(1) [OF assms] micro_sums [OF assms(1), of "meter_key n"] by (simp add: meter_ok_def)

lemma bill_meter_ok:
  assumes ok: "usage_ok db" and key: "settlement_owner row \<in> meter_key ` set (meters db)"
    and fresh: "us_id row \<notin> us_id ` set (settlements db)" and st: "us_status row = ''open''"
    and amt: "us_amount row = total (due_charge (us_skill row) (us_payer row) cutoff) uc_amount (charges db)"
  shows "usage_ok (bill_meter row cutoff db)" (is "usage_ok ?db")
proof -
  let ?sk = "us_skill row" and ?p = "us_payer row" and ?a = "us_amount row"
  let ?due = "due_charge (us_skill row) (us_payer row) cutoff"
  let ?pin = "\<lambda>c. if ?due c then c\<lparr>uc_settlement := Some (us_id row)\<rparr> else c"
  have tabs: "charges ?db = map ?pin (charges db)" "settlements ?db = settlements db @ [row]"
    by (simp_all add: bill_meter_def update_meter_def)
  have micro_a: "micro ?a" "0 \<le> ?a" unfolding amt
    by (rule micro_total, use charge_amount [OF ok] in blast) (rule total_nonneg, use charge_amount [OF ok] in blast)
  have nopin: "uc_settlement c \<noteq> Some (us_id row)" if "c \<in> set (charges db)" for c
    using charge_pinned [OF ok that] fresh by (metis imageI)
  have due: "?due c \<Longrightarrow> charge_owner c = (?sk, ?p) \<and> uc_settlement c = None" for c
    by (simp add: due_charge_def charge_owner_def)
  have pin [simp]: "charge_owner (?pin c) = charge_owner c" "uc_amount (?pin c) = uc_amount c" for c
    by (simp_all add: charge_owner_def)
  have open': "open_sum ?db k = open_sum db k + (if k = (?sk, ?p) then - ?a else 0)" for k
    using total_split [of "\<lambda>c. charge_owner c = k \<and> uc_settlement c = None" uc_amount "charges db" ?due] due
      total_cong [of "charges db" "\<lambda>c. (charge_owner c = k \<and> uc_settlement c = None) \<and> ?due c" "\<lambda>c. k = (?sk, ?p) \<and> ?due c" uc_amount uc_amount]
      total_cong [of "charges db" "(\<lambda>c. charge_owner c = k \<and> uc_settlement c = None) \<circ> ?pin"
        "\<lambda>c. (charge_owner c = k \<and> uc_settlement c = None) \<and> \<not> ?due c" "uc_amount \<circ> ?pin" uc_amount]
      total_none [of "charges db" "\<lambda>c. k = (?sk, ?p) \<and> ?due c" uc_amount]
    unfolding open_sum_def tabs total_map amt by (cases "k = (?sk, ?p)") auto
  have pinned': "pinned_sum ?db k = pinned_sum db k + (if k = (?sk, ?p) then ?a else 0)" for k
  proof -
    have "charged_sum ?db k = charged_sum db k" by (simp add: charged_sum_def tabs total_map comp_def)
    then show ?thesis using open' [of k] by (cases "k = (?sk, ?p)") (simp_all add: charged_sum_split)
  qed
  have live': "live_sum ?db k = live_sum db k + (if k = (?sk, ?p) then ?a else 0)" for k
    using st by (auto simp: live_sum_def tabs settlement_owner_def)
  have paid': "paid_sum ?db k = paid_sum db k + (if k = (?sk, ?p) then 0 else 0)" for k
    using st by (simp add: paid_sum_def tabs)
  have to': "pinned_to ?db i = (if i = us_id row then ?a else pinned_to db i)" for i
  proof (cases "i = us_id row")
    case True
    then show ?thesis using nopin unfolding pinned_to_def tabs total_map amt
      by (auto intro!: total_cong split: if_splits)
  next
    case False
    then show ?thesis unfolding pinned_to_def tabs total_map by (auto intro!: total_cong simp: due_charge_def split: if_splits)
  qed
  have keym: "map meter_key (meters ?db) = map meter_key (meters db)"
    unfolding bill_meter_def by (subst keys_update_meter) (simp_all add: meter_key_def)
  then have keys: "meter_key ` set (meters ?db) = meter_key ` set (meters db)" by (metis list.set_map)
  show ?thesis
  proof (rule usage_okI)
    show "distinct (map meter_key (meters ?db))" using ok unfolding keym by (simp add: usage_ok_def)
    have "map charge_key (charges ?db) = map charge_key (charges db)" by (simp add: tabs charge_key_def)
    then show "distinct (map charge_key (charges ?db))" using ok by (simp only: usage_ok_def)
    show "distinct (map us_id (settlements ?db))" using ok fresh by (simp add: tabs usage_ok_def)
    show "meter_ok ?db m" if mem: "m \<in> set (meters ?db)" for m
      by (rule shifted_meters [OF ok mem, where sk = ?sk and p = ?p and a = "- ?a" and b = ?a and d = 0
            and f = "\<lambda>m. m\<lparr>um_accrued := round_decimals (um_accrued m - ?a) 6, um_billed := round_decimals (um_billed m + ?a) 6\<rparr>"])
        (use open' pinned' live' paid' meter_micro [OF ok] micro_a in \<open>simp_all add: bill_meter_def update_meter_def meter_key_def\<close>)
    show "charge_ok ?db c" if mem: "c \<in> set (charges ?db)" for c
    proof -
      obtain d where d: "d \<in> set (charges db)" "c = ?pin d" using mem by (auto simp: tabs)
      with usage_okD(2) [OF ok d(1)] st due [of d] show ?thesis
        unfolding charge_ok_def keys by (auto simp: tabs settlement_owner_def charge_owner_def)
    qed
    show "settlement_ok ?db s" if mem: "s \<in> set (settlements ?db)" for s
    proof (cases "s = row")
      case True
      with key micro_a show ?thesis unfolding settlement_ok_def keys to' by simp
    next
      case False
      with mem have s: "s \<in> set (settlements db)" by (simp add: tabs)
      with fresh have "us_id s \<noteq> us_id row" by (metis imageI)
      with usage_okD(3) [OF ok s] show ?thesis unfolding settlement_ok_def keys to' by simp
    qed
  qed
qed

text \<open>A change of a settlement that keeps what the sums depend on.\<close>

lemma update_settlement_ok:
  assumes ok: "usage_ok db"
    and f: "\<And>s. s \<in> set (settlements db) \<Longrightarrow> us_id s = i \<Longrightarrow> us_id (f s) = us_id s \<and> settlement_owner (f s) = settlement_owner s
      \<and> us_amount (f s) = us_amount s \<and> (us_status (f s) = ''failed'') = (us_status s = ''failed'')
      \<and> (us_status (f s) = ''settled'') = (us_status s = ''settled'')"
  shows "usage_ok (update_settlement i f db)" (is "usage_ok ?db")
proof -
  let ?g = "\<lambda>s. if us_id s = i then f s else s"
  have tabs: "meters ?db = meters db" "charges ?db = charges db" "settlements ?db = map ?g (settlements db)"
    by (simp_all add: update_settlement_def)
  have g: "us_id (?g s) = us_id s \<and> settlement_owner (?g s) = settlement_owner s \<and> us_amount (?g s) = us_amount s
      \<and> (us_status (?g s) = ''failed'') = (us_status s = ''failed'') \<and> (us_status (?g s) = ''settled'') = (us_status s = ''settled'')"
    if "s \<in> set (settlements db)" for s using f [OF that] by simp
  have sums: "open_sum ?db k = open_sum db k" "pinned_sum ?db k = pinned_sum db k" "live_sum ?db k = live_sum db k"
    "paid_sum ?db k = paid_sum db k" "pinned_to ?db j = pinned_to db j" for k j
    unfolding open_sum_def pinned_sum_def live_sum_def paid_sum_def pinned_to_def tabs total_map
    by (simp_all, (rule total_cong, use g in \<open>simp only: comp_def simp_thms\<close>)+)
  have ids: "map us_id (settlements ?db) = map us_id (settlements db)" using g by (simp only: tabs map_map comp_def) simp
  show ?thesis
  proof (rule usage_okI)
    show "distinct (map meter_key (meters ?db))" "distinct (map charge_key (charges ?db))" "distinct (map us_id (settlements ?db))"
      using ok by (simp_all only: usage_ok_def tabs(1,2) ids)
    show "meter_ok ?db m" if "m \<in> set (meters ?db)" for m
      using that usage_okD(1) [OF ok, of m] by (simp add: meter_ok_def sums tabs(1))
    show "charge_ok ?db c" if "c \<in> set (charges ?db)" for c
    proof -
      have okc: "charge_ok db c" using that usage_okD(2) [OF ok] by (simp add: tabs(2))
      have "\<exists>s \<in> set (settlements ?db). us_id s = j \<and> settlement_owner s = charge_owner c \<and> us_status s \<noteq> ''failed''"
        if j: "uc_settlement c = Some j" for j
      proof -
        obtain s where s: "s \<in> set (settlements db)" "us_id s = j" "settlement_owner s = charge_owner c" "us_status s \<noteq> ''failed''"
          using okc j by (auto simp: charge_ok_def)
        then have "?g s \<in> set (settlements ?db)" by (simp add: tabs(3))
        moreover have "us_id (?g s) = j" "settlement_owner (?g s) = charge_owner c" "us_status (?g s) \<noteq> ''failed''"
          using g [OF s(1)] s by metis+
        ultimately show ?thesis by blast
      qed
      with okc show ?thesis by (simp add: charge_ok_def tabs(1))
    qed
    show "settlement_ok ?db s" if "s \<in> set (settlements ?db)" for s
    proof -
      obtain t where t: "t \<in> set (settlements db)" "s = ?g t" using \<open>s \<in> set (settlements ?db)\<close> by (auto simp: tabs(3))
      from usage_okD(3) [OF ok t(1)] g [OF t(1)] show ?thesis unfolding t(2) settlement_ok_def sums tabs(1) by metis
    qed
  qed
qed

subsection \<open>The end of a settlement\<close>

text \<open>What both ends share: the row of the settlement takes a new status, the meter and the charges follow.\<close>

lemma ended_ok:
  assumes ok: "usage_ok db" and row: "row \<in> set (settlements db)"
    and tabs: "map meter_key (meters db') = map meter_key (meters db)"
      "charges db' = map g (charges db)" "settlements db' = map (\<lambda>s. if us_id s = us_id row then f s else s) (settlements db)"
    and f: "us_id (f row) = us_id row" "settlement_owner (f row) = settlement_owner row" "us_amount (f row) = us_amount row"
    and g: "\<And>c. charge_key (g c) = charge_key c \<and> charge_owner (g c) = charge_owner c \<and> uc_amount (g c) = uc_amount c"
      "\<And>c. uc_settlement c \<noteq> Some (us_id row) \<Longrightarrow> uc_settlement (g c) = uc_settlement c"
      "\<And>c. uc_settlement c = Some (us_id row) \<Longrightarrow> uc_settlement (g c) = (if us_status (f row) = ''failed'' then None else uc_settlement c)"
    and live: "us_status row \<noteq> ''failed''"
    and ms: "\<And>m. m \<in> set (meters db') \<Longrightarrow> meter_ok db' m"
  shows "usage_ok db'"
proof -
  have dist: "distinct (map us_id (settlements db))" using ok by (simp add: usage_ok_def)
  have only: "s = row" if "s \<in> set (settlements db)" "us_id s = us_id row" for s
    using dist row that by (auto simp: distinct_map inj_on_def)
  have keys: "meter_key ` set (meters db') = meter_key ` set (meters db)" using tabs(1) by (metis list.set_map)
  have ids: "map us_id (settlements db') = map us_id (settlements db)"
    unfolding tabs(3) map_map comp_def using only f(1) by (intro map_cong refl) auto
  have to': "pinned_to db' j = pinned_to db j" if "j \<noteq> us_id row \<or> us_status (f row) \<noteq> ''failed''" for j
    unfolding pinned_to_def tabs(2) total_map
  proof (rule total_cong)
    fix c assume "c \<in> set (charges db)"
    show "((\<lambda>c. uc_settlement c = Some j) \<circ> g) c = (uc_settlement c = Some j)
      \<and> (uc_settlement c = Some j \<longrightarrow> (uc_amount \<circ> g) c = uc_amount c)"
      using g(1) [of c] g(2,3) [of c] that by (cases "uc_settlement c = Some (us_id row)") auto
  qed
  show ?thesis
  proof (rule usage_okI)
    show "distinct (map meter_key (meters db'))" "distinct (map us_id (settlements db'))"
      unfolding tabs(1) ids using ok by (simp_all add: usage_ok_def)
    have "map charge_key (charges db') = map charge_key (charges db)" unfolding tabs(2) using g(1) by simp
    then show "distinct (map charge_key (charges db'))" using ok by (simp only: usage_ok_def)
    show "meter_ok db' m" if "m \<in> set (meters db')" for m by (rule ms [OF that])
    show "charge_ok db' c" if mem: "c \<in> set (charges db')" for c
    proof -
      obtain d where d: "d \<in> set (charges db)" "c = g d" using mem by (auto simp: tabs(2))
      have okd: "charge_ok db d" by (rule usage_okD(2) [OF ok d(1)])
      have "\<exists>s \<in> set (settlements db'). us_id s = j \<and> settlement_owner s = charge_owner d \<and> us_status s \<noteq> ''failed''"
        if j: "uc_settlement c = Some j" for j
      proof -
        have dj: "uc_settlement d = Some j" using j g(2,3) [of d] d(2)
          by (cases "uc_settlement d = Some (us_id row)") (auto split: if_splits)
        obtain s where s: "s \<in> set (settlements db)" "us_id s = j" "settlement_owner s = charge_owner d" "us_status s \<noteq> ''failed''"
          using charge_pinned [OF ok d(1) dj] by blast
        show ?thesis
        proof (cases "j = us_id row")
          case True
          then have "s = row" using only s by simp
          moreover have "us_status (f row) \<noteq> ''failed''" using j dj True g(3) [of d] d(2) by (auto split: if_splits)
          ultimately have "f row \<in> set (settlements db')" "us_status (f row) \<noteq> ''failed''"
            using row by (auto simp: tabs(3) image_iff intro!: bexI [of _ row])
          with True s \<open>s = row\<close> f show ?thesis by (metis)
        next
          case False
          with s have "s \<in> set (settlements db')" by (auto simp: tabs(3) image_iff intro!: bexI [of _ s])
          with s show ?thesis by blast
        qed
      qed
      with okd g(1) [of d] d(2) show ?thesis unfolding charge_ok_def keys by simp
    qed
    show "settlement_ok db' s" if mem: "s \<in> set (settlements db')" for s
    proof -
      obtain t where t: "t \<in> set (settlements db)" "s = (if us_id t = us_id row then f t else t)" using mem by (auto simp: tabs(3))
      show ?thesis
      proof (cases "us_id t = us_id row")
        case True
        with t only [OF t(1) True] have "s = f row" by simp
        with usage_okD(3) [OF ok row] f live to' show ?thesis unfolding settlement_ok_def keys by auto
      next
        case False
        with t usage_okD(3) [OF ok t(1)] to' show ?thesis unfolding settlement_ok_def keys by simp
      qed
    qed
  qed
qed

lemma settlement_sums:
  assumes "usage_ok db" "row \<in> set (settlements db)"
    and "settlements db' = map (\<lambda>s. if us_id s = us_id row then f s else s) (settlements db)"
    and "settlement_owner (f row) = settlement_owner row" "us_amount (f row) = us_amount row" "us_status row = ''submitted''"
  shows "live_sum db' k = live_sum db k + (if k = settlement_owner row then if us_status (f row) = ''failed'' then - us_amount row else 0 else 0)"
    "paid_sum db' k = paid_sum db k + (if k = settlement_owner row then if us_status (f row) = ''settled'' then us_amount row else 0 else 0)"
proof -
  have d: "distinct (map us_id (settlements db))" using assms(1) by (simp add: usage_ok_def)
  show "live_sum db' k = live_sum db k + (if k = settlement_owner row then if us_status (f row) = ''failed'' then - us_amount row else 0 else 0)"
    "paid_sum db' k = paid_sum db k + (if k = settlement_owner row then if us_status (f row) = ''settled'' then us_amount row else 0 else 0)"
    unfolding live_sum_def paid_sum_def assms(3) total_replace [OF d assms(2)] using assms(4-6) by auto
qed

lemma mark_settled_ok:
  assumes ok: "usage_ok db" and row: "row \<in> set (settlements db)" "us_status row = ''submitted''"
  shows "usage_ok (mark_settled now row b db)" (is "usage_ok ?db")
proof -
  let ?f = "\<lambda>s. s\<lparr>us_status := ''settled'', us_tx_hash := or_else (eb_finalize_tx b) (eb_submit_tx b),
                 us_settled_at := Some now, us_failure := None\<rparr>"
  have tabs: "charges ?db = charges db" "settlements ?db = map (\<lambda>s. if us_id s = us_id row then ?f s else s) (settlements db)"
    by (simp_all add: mark_settled_def update_meter_def update_settlement_def)
  have keys: "map meter_key (meters ?db) = map meter_key (meters db)"
    unfolding mark_settled_def by (subst keys_update_meter) (simp_all add: meter_key_def update_settlement_def)
  have sums: "live_sum ?db k = live_sum db k + (if k = (us_skill row, us_payer row) then 0 else 0)"
    "paid_sum ?db k = paid_sum db k + (if k = (us_skill row, us_payer row) then us_amount row else 0)" for k
    using settlement_sums [OF ok row(1) tabs(2) _ _ row(2), of k] by (simp_all add: settlement_owner_def)
  have cs: "open_sum ?db = open_sum db" "pinned_sum ?db = pinned_sum db" by (simp_all add: fun_eq_iff open_sum_def pinned_sum_def tabs)
  show ?thesis
  proof (rule ended_ok [OF ok row(1) keys, where g = "\<lambda>c. c" and f = ?f])
    show "meter_ok ?db m" if mem: "m \<in> set (meters ?db)" for m
      by (rule shifted_meters [OF ok mem, where sk = "us_skill row" and p = "us_payer row" and a = 0 and b = 0
            and d = "us_amount row" and f = "\<lambda>m. m\<lparr>um_settled := round_decimals (um_settled m + us_amount row) 6\<rparr>"])
        (use sums cs meter_micro [OF ok] settlement_amount [OF ok row(1)]
          in \<open>simp_all add: mark_settled_def update_meter_def update_settlement_def meter_key_def\<close>)
  qed (use tabs row in \<open>simp_all add: settlement_owner_def\<close>)
qed

lemma mark_failed_ok:
  assumes ok: "usage_ok db" and row: "row \<in> set (settlements db)" "us_status row = ''submitted''"
  shows "usage_ok (mark_failed row b db)" (is "usage_ok ?db")
proof -
  let ?f = "\<lambda>s. s\<lparr>us_status := ''failed'', us_failure := Some (Binding_Ended (eb_state b))\<rparr>"
  let ?g = "\<lambda>c. if uc_settlement c = Some (us_id row) then c\<lparr>uc_settlement := None\<rparr> else c"
  let ?k = "(us_skill row, us_payer row)" and ?a = "us_amount row"
  have tabs: "charges ?db = map ?g (charges db)" "settlements ?db = map (\<lambda>s. if us_id s = us_id row then ?f s else s) (settlements db)"
    by (simp_all add: mark_failed_def Let_def update_meter_def update_settlement_def)
  have keys: "map meter_key (meters ?db) = map meter_key (meters db)"
    by (simp add: mark_failed_def Let_def update_meter_def update_settlement_def meter_key_def)
  have g [simp]: "charge_owner (?g c) = charge_owner c" "uc_amount (?g c) = uc_amount c" "charge_key (?g c) = charge_key c" for c
    by (simp_all add: charge_owner_def charge_key_def)
  have only: "s = row" if "s \<in> set (settlements db)" "us_id s = us_id row" for s
    using ok row(1) that by (auto simp: usage_ok_def distinct_map inj_on_def)
  have own: "charge_owner c = ?k" if "c \<in> set (charges db)" "uc_settlement c = Some (us_id row)" for c
    using charge_pinned [OF ok that] only by (metis settlement_owner_def)
  have amt: "?a = pinned_to db (us_id row)" using usage_okD(3) [OF ok row(1)] row(2) by (simp add: settlement_ok_def)
  have pinned': "pinned_sum ?db k = pinned_sum db k + (if k = ?k then - ?a else 0)" for k
  proof -
    let ?P = "\<lambda>c. charge_owner c = k \<and> uc_settlement c \<noteq> None" and ?Q = "\<lambda>c. uc_settlement c = Some (us_id row)"
    have "total (?P \<circ> ?g) (uc_amount \<circ> ?g) (charges db) = total (\<lambda>c. ?P c \<and> \<not> ?Q c) uc_amount (charges db)"
      by (rule total_cong) auto
    moreover have "total (\<lambda>c. ?P c \<and> ?Q c) uc_amount (charges db) = (if k = ?k then ?a else 0)"
      unfolding amt pinned_to_def using own by (auto intro!: total_cong total_none)
    ultimately show ?thesis unfolding pinned_sum_def tabs total_map
      using total_split [of ?P uc_amount "charges db" ?Q] by (cases "k = ?k") simp_all
  qed
  have open': "open_sum ?db k = open_sum db k + (if k = ?k then ?a else 0)" for k
  proof -
    have "charged_sum ?db k = charged_sum db k" by (simp add: charged_sum_def tabs total_map comp_def)
    then show ?thesis using pinned' [of k] by (cases "k = ?k") (simp_all add: charged_sum_split)
  qed
  have sums: "live_sum ?db k = live_sum db k + (if k = ?k then - ?a else 0)" "paid_sum ?db k = paid_sum db k + (if k = ?k then 0 else 0)" for k
    using settlement_sums [OF ok row(1) tabs(2) _ _ row(2), of k] by (simp_all add: settlement_owner_def)
  have le: "?a \<le> um_billed n" if n: "n \<in> set (meters db)" "meter_key n = ?k" for n
  proof -
    have "pinned_to db (us_id row) \<le> pinned_sum db ?k" unfolding pinned_to_def pinned_sum_def
      by (rule total_mono) (use own charge_amount [OF ok] in auto)
    then show ?thesis using usage_okD(1) [OF ok n(1)] n(2) amt by (simp add: meter_ok_def)
  qed
  show ?thesis
  proof (rule ended_ok [OF ok row(1) keys tabs])
    show "meter_ok ?db m" if mem: "m \<in> set (meters ?db)" for m
      by (rule shifted_meters [OF ok mem, where sk = "us_skill row" and p = "us_payer row" and a = ?a and b = "- ?a" and d = 0
            and f = "\<lambda>m. m\<lparr>um_billed := round_decimals (max 0 (um_billed m - ?a)) 6, um_accrued := round_decimals (um_accrued m + ?a) 6\<rparr>"])
        (use sums open' pinned' le meter_micro [OF ok] settlement_amount [OF ok row(1)]
          in \<open>simp_all add: mark_failed_def Let_def update_meter_def update_settlement_def meter_key_def max_def\<close>)
  qed (use row in \<open>simp_all add: settlement_owner_def\<close>)
qed

subsection \<open>The operations\<close>

lemma fail_with_ok:
  assumes "usage_ok db" "fail_with e row db = (r, db')"
  shows "usage_ok db'"
  using assms(2) update_settlement_ok [OF assms(1), of "us_id row" "\<lambda>s. s\<lparr>us_failure := Some e\<rparr>"]
  by (auto simp: fail_with_def settlement_owner_def)

lemma submit_row_ok:
  assumes ok: "usage_ok db" and st: "\<And>s. s \<in> set (settlements db) \<Longrightarrow> us_id s = us_id row \<Longrightarrow> us_status s = ''open''"
    and sub: "submit_row ops cfg now skill row bb sb db w = ((r, db'), w')"
  shows "usage_ok db'"
proof (cases "open_and_submit_order ops bb sb (us_amount row) (us_stake row) (take 120 (ec_scope cfg @ '':skill:'' @ sk_slug skill))
    (take 64 (''usage-'' @ us_id row)) (''usage:'' @ us_id row @ '':'' @ us_digest row) (configured_address cfg) w")
  case (Pair res w1)
  show ?thesis
  proof (cases res)
    case (Inl e)
    with sub Pair have "fail_with (Chain_Failed e) row db = (r, db')" by (simp add: submit_row_def Let_def)
    then show ?thesis by (rule fail_with_ok [OF ok])
  next
    case (Inr x)
    with sub Pair obtain i b where db': "db' = update_settlement (us_id row)
        (\<lambda>s. s\<lparr>us_binding := Some i, us_status := ''submitted'', us_failure := None\<rparr>) (db\<lparr>bindings := bindings db @ [b]\<rparr>)"
      by (cases x) (auto simp: submit_row_def Let_def)
    have "usage_ok (db\<lparr>bindings := bindings db @ [b]\<rparr>)"
      using usage_ok_chain_tables [where db = db and cs = "commits db" and bs = "bindings db @ [b]"] ok by simp
    then show ?thesis unfolding db' by (rule update_settlement_ok) (use st in \<open>simp add: settlement_owner_def\<close>)
  qed
qed

lemma settlement_row_simps [simp]:
  "us_id (settlement_row sha cfg fresh now skill payer oc cs) = fresh"
  "us_skill (settlement_row sha cfg fresh now skill payer oc cs) = sk_id skill"
  "us_payer (settlement_row sha cfg fresh now skill payer oc cs) = payer"
  "us_status (settlement_row sha cfg fresh now skill payer oc cs) = ''open''"
  "us_amount (settlement_row sha cfg fresh now skill payer oc cs) = round_decimals (sum_list (map uc_amount cs)) 6"
  by (simp_all add: settlement_row_def Let_def)

lemma settle_meter_cases:
  assumes "settle_meter sha ops cfg fresh now skill payer cutoff allow db w = ((r, db'), w')"
  obtains (nothing) "r = None" "db' = db" "w' = w"
  | (refused) stamp row e x where "get_meter (sk_id skill) payer db \<noteq> None" "r = Some x"
      "row = settlement_row sha cfg fresh now skill payer (allow \<and> can_server_settle cfg) (unsettled_charges (sk_id skill) payer stamp db)"
      "fail_with e row (bill_meter row stamp db) = (x, db')" "w' = w"
  | (sent) stamp row bb sb x where "get_meter (sk_id skill) payer db \<noteq> None" "r = Some x"
      "row = settlement_row sha cfg fresh now skill payer (allow \<and> can_server_settle cfg) (unsettled_charges (sk_id skill) payer stamp db)"
      "submit_row ops cfg now skill row bb sb (bill_meter row stamp db) w = ((x, db'), w')"
proof (cases "get_meter (sk_id skill) payer db")
  case None
  with assms have "r = None" "db' = db" "w' = w" by (auto simp: settle_meter_def Let_def)
  then show ?thesis by (rule nothing)
next
  case (Some m)
  define stamp where "stamp = (case cutoff of Some t \<Rightarrow> t | None \<Rightarrow> now)"
  define cs where "cs = unsettled_charges (sk_id skill) payer stamp db"
  define oc where "oc = (allow \<and> can_server_settle cfg)"
  define row where "row = settlement_row sha cfg fresh now skill payer oc cs"
  define db1 where "db1 = bill_meter row stamp db"
  note d = assms [unfolded settle_meter_def Let_def Some option.case stamp_def [symmetric],
      folded cs_def oc_def, folded row_def, folded db1_def]
  show ?thesis
  proof (cases "round_decimals (sum_list (map uc_amount cs)) 6 \<le> 0
      \<or> round_decimals (sum_list (map uc_amount cs)) 6 + USAGE_EPSILON < um_threshold m")
    case True
    with d have "r = None" "db' = db" "w' = w" by auto
    then show ?thesis by (rule nothing)
  next
    case False
    note d1 = d [unfolded if_not_P [OF False]]
    have row': "row = settlement_row sha cfg fresh now skill payer (allow \<and> can_server_settle cfg)
        (unsettled_charges (sk_id skill) payer stamp db)" by (simp add: row_def cs_def oc_def)
    have g: "get_meter (sk_id skill) payer db \<noteq> None" using Some by simp
    from d1 show ?thesis
      by (auto split: if_splits option.splits prod.splits
          intro: refused [OF g _ row', folded db1_def] sent [OF g _ row', folded db1_def])
  qed
qed

lemma due_amount:
  assumes "usage_ok db"
  shows "round_decimals (sum_list (map uc_amount (unsettled_charges sk p cutoff db))) 6
    = total (due_charge sk p cutoff) uc_amount (charges db)"
proof -
  have "micro (total (due_charge sk p cutoff) uc_amount (charges db))"
    by (rule micro_total) (use charge_amount [OF assms] in blast)
  then show ?thesis by (simp add: unsettled_charges_def sum_list_sort_key total_filter)
qed

lemma billed_row_ok:
  assumes ok: "usage_ok db" and m: "get_meter (sk_id skill) payer db \<noteq> None" and fresh: "fresh \<notin> us_id ` set (settlements db)"
    and row: "row = settlement_row sha cfg fresh now skill payer oc (unsettled_charges (sk_id skill) payer stamp db)"
  shows "usage_ok (bill_meter row stamp db)"
proof (rule bill_meter_ok [OF ok])
  show "settlement_owner row \<in> meter_key ` set (meters db)" using m unfolding get_meter_None row by (simp add: settlement_owner_def)
qed (use fresh row due_amount [OF ok] in simp_all)

lemma settlements_bill_meter: "settlements (bill_meter row stamp db) = settlements db @ [row]"
  by (simp add: bill_meter_def update_meter_def)

lemma settle_meter_ok:
  assumes ok: "usage_ok db" and fresh: "fresh \<notin> us_id ` set (settlements db)"
    and step: "settle_meter sha ops cfg fresh now skill payer cutoff allow db w = ((r, db'), w')"
  shows "usage_ok db'"
  using step
proof (cases rule: settle_meter_cases)
  case nothing
  with ok show ?thesis by simp
next
  case (refused stamp row e x)
  show ?thesis by (rule fail_with_ok [OF billed_row_ok [OF ok refused(1) fresh refused(3)] refused(4)])
next
  case (sent stamp row bb sb x)
  show ?thesis
  proof (rule submit_row_ok [OF billed_row_ok [OF ok sent(1) fresh sent(3)] _ sent(4)])
    fix s assume s: "s \<in> set (settlements (bill_meter row stamp db))" "us_id s = us_id row"
    have "us_id row = fresh" "us_status row = ''open''" using sent(3) by simp_all
    with s fresh show "us_status s = ''open''" by (auto simp: settlements_bill_meter)
  qed
qed

text \<open>Reconciling touches the settlement it is given and no other.\<close>

lemma settlements_ended:
  "settlements (mark_settled now row b db) = map (\<lambda>s. if us_id s = us_id row then
      s\<lparr>us_status := ''settled'', us_tx_hash := or_else (eb_finalize_tx b) (eb_submit_tx b),
        us_settled_at := Some now, us_failure := None\<rparr> else s) (settlements db)"
  "settlements (mark_failed row b db) = map (\<lambda>s. if us_id s = us_id row then
      s\<lparr>us_status := ''failed'', us_failure := Some (Binding_Ended (eb_state b))\<rparr> else s) (settlements db)"
  by (simp_all add: mark_settled_def mark_failed_def Let_def update_meter_def update_settlement_def)

lemma reconcile_row_or:
  "reconcile_row now row db = db
   \<or> (\<exists>i b. us_binding row = Some i \<and> find_binding i db = Some b \<and> eb_state b = ''settled''
        \<and> reconcile_row now row db = mark_settled now row b db)
   \<or> (\<exists>b. reconcile_row now row db = mark_failed row b db)"
proof (cases "\<exists>c cs b t. us_binding row = Some (c # cs) \<and> find_binding (c # cs) db = Some b \<and> binding_done (eb_state b) = Some t")
  case True
  then obtain c cs b t where x: "us_binding row = Some (c # cs)" "find_binding (c # cs) db = Some b" "binding_done (eb_state b) = Some t"
    by blast
  show ?thesis
  proof (cases "t = ''settled''")
    case True
    with x(3) have "eb_state b = ''settled''" by (simp add: binding_done_def split: if_splits)
    with True x show ?thesis by (simp add: reconcile_row_def)
  next
    case False
    with x have "reconcile_row now row db = mark_failed row b db" by (simp add: reconcile_row_def)
    then show ?thesis by blast
  qed
next
  case False
  then have "reconcile_row now row db = db" by (auto simp: reconcile_row_def split: option.split list.split)
  then show ?thesis ..
qed

lemma reconcile_row_cases:
  obtains "reconcile_row now row db = db"
  | i b where "us_binding row = Some i" "find_binding i db = Some b" "eb_state b = ''settled''"
      "reconcile_row now row db = mark_settled now row b db"
  | b where "reconcile_row now row db = mark_failed row b db"
  using reconcile_row_or [of now row db] by blast

lemma reconcile_row_others:
  assumes "s \<in> set (settlements db)" "us_id s \<noteq> us_id row"
  shows "s \<in> set (settlements (reconcile_row now row db))"
  by (rule reconcile_row_cases [of now row db]) (use assms in \<open>force simp: settlements_ended image_iff\<close>)+

lemma reconcile_row_ok:
  assumes "usage_ok db" "row \<in> set (settlements db)" "us_status row = ''submitted''"
  shows "usage_ok (reconcile_row now row db)"
  by (rule reconcile_row_cases [of now row db]) (simp_all add: assms mark_settled_ok mark_failed_ok)

lemma reconcile_rows_ok:
  assumes "usage_ok db" "distinct (map us_id rows)" "\<And>r. r \<in> set rows \<Longrightarrow> r \<in> set (settlements db) \<and> us_status r = ''submitted''"
  shows "usage_ok (fold (reconcile_row now) rows db)"
  using assms
proof (induction rows arbitrary: db)
  case (Cons r rows)
  have "usage_ok (reconcile_row now r db)" by (rule reconcile_row_ok) (use Cons.prems in auto)
  moreover have "q \<in> set (settlements (reconcile_row now r db)) \<and> us_status q = ''submitted''" if "q \<in> set rows" for q
  proof -
    have "us_id q \<noteq> us_id r" using that Cons.prems(2) by (metis distinct.simps(2) list.simps(9) list.set_map imageI)
    with that Cons.prems(3) [of q] reconcile_row_others show ?thesis by simp
  qed
  ultimately show ?case using Cons by simp
qed simp

lemma submitted_rows_set:
  "r \<in> set (submitted_rows limit db) \<Longrightarrow> r \<in> set (settlements db) \<and> us_status r = ''submitted''"
  by (auto simp: submitted_rows_def dest: in_set_takeD)

lemma submitted_rows_distinct:
  assumes "usage_ok db"
  shows "distinct (map us_id (submitted_rows limit db))"
proof -
  have "inj_on us_id (set (settlements db))" "distinct (settlements db)"
    using assms by (auto simp: usage_ok_def distinct_map)
  then show ?thesis unfolding submitted_rows_def distinct_map
    by (auto intro!: distinct_take inj_on_subset [of us_id "set (settlements db)"] dest: in_set_takeD)
qed

lemma reconcile_ok: "usage_ok db \<Longrightarrow> usage_ok (reconcile_settlements now limit db)"
  unfolding reconcile_settlements_def
  by (rule reconcile_rows_ok) (auto simp: submitted_rows_distinct dest: submitted_rows_set)

subsection \<open>Caps\<close>

text \<open>What the caps depend on: owners and caps of the meters, owners and amounts of the charges. Only a new charge
  changes it.\<close>

definition cap_frame :: "Usage_DB \<Rightarrow> ((string \<times> string) \<times> rat option) list \<times> ((string \<times> string) \<times> rat) list" where
  "cap_frame db = (map (\<lambda>m. (meter_key m, um_cap m)) (meters db), map (\<lambda>c. (charge_owner c, uc_amount c)) (charges db))"

lemma caps_ok_frame: "caps_ok db \<longleftrightarrow> (\<forall>(k, c) \<in> set (fst (cap_frame db)). \<forall>cap. c = Some cap \<longrightarrow>
    total (\<lambda>p. fst p = k) snd (snd (cap_frame db)) \<le> cap + USAGE_EPSILON)"
  by (simp add: caps_ok_def cap_frame_def charged_sum_def total_map comp_def)

lemma frame_update_meter:
  assumes "\<And>m. meter_key (f m) = meter_key m \<and> um_cap (f m) = um_cap m"
  shows "cap_frame (update_meter sk p f db) = cap_frame db"
  using assms by (auto simp: cap_frame_def update_meter_def)

lemma frame_charges:
  assumes "\<And>c. charge_owner (f c) = charge_owner c \<and> uc_amount (f c) = uc_amount c"
  shows "cap_frame (db\<lparr>charges := map f (charges db)\<rparr>) = cap_frame db"
  using assms by (simp add: cap_frame_def)

lemma frame_others [simp]:
  "cap_frame (db\<lparr>settlements := x\<rparr>) = cap_frame db" "cap_frame (db\<lparr>bindings := y\<rparr>) = cap_frame db"
  "cap_frame (db\<lparr>commits := z\<rparr>) = cap_frame db" "cap_frame (update_settlement i f db) = cap_frame db"
  by (simp_all add: cap_frame_def update_settlement_def)

lemma frame_bill_meter [simp]: "cap_frame (bill_meter row cutoff db) = cap_frame db"
proof -
  have "cap_frame (bill_meter row cutoff db) = cap_frame (db\<lparr>charges := map (\<lambda>c. if due_charge (us_skill row) (us_payer row) cutoff c
      then c\<lparr>uc_settlement := Some (us_id row)\<rparr> else c) (charges db)\<rparr>)"
    unfolding bill_meter_def by (subst frame_update_meter) (simp_all add: meter_key_def cap_frame_def)
  also have "\<dots> = cap_frame db" by (rule frame_charges) (simp add: charge_owner_def)
  finally show ?thesis .
qed

lemma frame_mark_settled [simp]: "cap_frame (mark_settled now row b db) = cap_frame db"
  unfolding mark_settled_def by (subst frame_update_meter) (simp_all add: meter_key_def)

lemma frame_mark_failed [simp]: "cap_frame (mark_failed row b db) = cap_frame db"
  unfolding mark_failed_def Let_def
  by (subst frame_charges) (simp add: charge_owner_def, subst frame_update_meter, simp_all add: meter_key_def)

lemma frame_fail_with: "fail_with e row db = (r, db') \<Longrightarrow> cap_frame db' = cap_frame db"
  by (auto simp: fail_with_def)

lemma frame_submit_row: "submit_row ops cfg now skill row bb sb db w = ((r, db'), w') \<Longrightarrow> cap_frame db' = cap_frame db"
  by (auto simp: submit_row_def Let_def dest: frame_fail_with split: sum.splits prod.splits)

lemma frame_settle_meter:
  assumes "settle_meter sha ops cfg fresh now skill payer cutoff allow db w = ((r, db'), w')"
  shows "cap_frame db' = cap_frame db"
  using assms
proof (cases rule: settle_meter_cases)
  case refused
  then show ?thesis using frame_fail_with by fastforce
next
  case sent
  then show ?thesis using frame_submit_row by fastforce
qed simp

lemma frame_reconcile: "cap_frame (reconcile_settlements now limit db) = cap_frame db"
proof -
  have "cap_frame (reconcile_row now row db) = cap_frame db" for row db
    by (rule reconcile_row_cases [of now row db]) simp_all
  then have "cap_frame (fold (reconcile_row now) rows db) = cap_frame db" for rows
    by (induction rows arbitrary: db) simp_all
  then show ?thesis by (simp add: reconcile_settlements_def)
qed

section \<open>The ledger over time\<close>

text \<open>Calls, billing, reconciliation and whatever the escrow does to its own tables, in any order. Prices are not
  negative, as \<^verbatim>\<open>skill_registry.normalize_price\<close> has it, and a new settlement has a new identifier.\<close>

inductive usage_step :: "Usage_DB \<Rightarrow> Usage_DB \<Rightarrow> bool" where
  used: "0 \<le> sk_unit_price skill \<Longrightarrow>
    record_usage fm fresh now skill payer request_id units occurred_at given db = Inr (r, db') \<Longrightarrow> usage_step db db'"
| billed: "fresh \<notin> us_id ` set (settlements db) \<Longrightarrow>
    settle_meter sha ops cfg fresh now skill payer cutoff allow db (w :: unit) = ((r, db'), w') \<Longrightarrow> usage_step db db'"
| reconciled: "usage_step db (reconcile_settlements now limit db)"
| escrow: "usage_step db (db\<lparr>commits := cs, bindings := bs\<rparr>)"

lemma usage_step_ok: "usage_step db db' \<Longrightarrow> usage_ok db \<and> caps_ok db \<Longrightarrow> usage_ok db' \<and> caps_ok db'"
proof (induction rule: usage_step.induct)
  case (used skill fm fresh now payer request_id units occurred_at given db r db')
  from used(3) have "usage_ok db" "caps_ok db" by simp_all
  with record_usage_ok [OF _ used(1,2)] record_usage_caps [OF _ _ used(1,2)] show ?case by simp
next
  case (billed fresh db sha ops cfg now skill payer cutoff allow w r db' w')
  from billed(3) have "usage_ok db'" by (intro settle_meter_ok [OF _ billed(1,2)]) simp
  with billed(3) show ?case unfolding caps_ok_frame frame_settle_meter [OF billed(2)] by simp
next
  case (reconciled db now limit)
  with reconcile_ok [of db now limit] show ?case unfolding caps_ok_frame frame_reconcile by simp
next
  case escrow
  then show ?case unfolding caps_ok_frame by (simp add: usage_ok_chain_tables)
qed

interpretation usage: kept usage_step "\<lambda>db. usage_ok db \<and> caps_ok db"
  by unfold_locales (rule usage_step_ok)

definition empty_usage :: Usage_DB where
  "empty_usage = \<lparr>meters = [], charges = [], settlements = [], commits = [], bindings = []\<rparr>"

lemma empty_usage_ok: "usage_ok empty_usage \<and> caps_ok empty_usage"
  by (simp add: empty_usage_def usage_ok_def caps_ok_def)

subsection \<open>What a step does to the settlements\<close>

lemma usage_step_settlements_used:
  "record_usage fm fresh now skill payer request_id units occurred_at given db = Inr (r, db') \<Longrightarrow>
   settlements db' = settlements db \<and> set (charges db) \<subseteq> set (charges db')"
  by (erule record_usage_cases)
    (auto simp: update_meter_def get_or_create_meter_def Let_def split: option.splits)

text \<open>Whatever the chain answers, the billed tables get one new settlement, which is open or submitted.\<close>

definition billed_as :: "Usage_DB \<Rightarrow> int \<Rightarrow> UsageSettlement \<Rightarrow> UsageSettlement \<Rightarrow> Usage_DB \<Rightarrow> bool" where
  "billed_as db stamp row s db' \<longleftrightarrow>
     settlements db' = settlements db @ [s] \<and> charges db' = charges (bill_meter row stamp db)
     \<and> us_id s = us_id row \<and> us_status s \<in> {''open'', ''submitted''}"

lemma update_new:
  "i \<notin> us_id ` set xs \<Longrightarrow> map (\<lambda>s. if us_id s = i then f s else s) xs = xs"
  by (rule map_idI) (metis imageI)

lemma fail_with_billed:
  assumes "fail_with e row (bill_meter row stamp db) = (x, db')" "us_id row \<notin> us_id ` set (settlements db)" "us_status row = ''open''"
  shows "billed_as db stamp row (row\<lparr>us_failure := Some e\<rparr>) db'"
  using assms update_new [OF assms(2)]
  by (auto simp: fail_with_def billed_as_def update_settlement_def settlements_bill_meter)

lemma submit_row_billed:
  assumes "submit_row ops cfg now skill row bb sb (bill_meter row stamp db) w = ((x, db'), w')"
    and "us_id row \<notin> us_id ` set (settlements db)" "us_status row = ''open''"
  shows "\<exists>s. billed_as db stamp row s db'"
proof (cases "\<exists>e. fail_with (Chain_Failed e) row (bill_meter row stamp db) = (x, db')")
  case True
  with fail_with_billed [OF _ assms(2,3)] show ?thesis by blast
next
  case False
  with assms(1) obtain i b where db': "db' = update_settlement (us_id row)
      (\<lambda>s. s\<lparr>us_binding := Some i, us_status := ''submitted'', us_failure := None\<rparr>)
      (bill_meter row stamp db\<lparr>bindings := bindings (bill_meter row stamp db) @ [b]\<rparr>)"
    by (auto simp: submit_row_def Let_def split: prod.splits sum.splits)
  show ?thesis
    by (rule exI [of _ "row\<lparr>us_binding := Some i, us_status := ''submitted'', us_failure := None\<rparr>"])
      (simp add: db' billed_as_def update_settlement_def settlements_bill_meter update_new [OF assms(2)])
qed

lemma settle_meter_billed:
  assumes "settle_meter sha ops cfg fresh now skill payer cutoff allow db w = ((r, db'), w')" "fresh \<notin> us_id ` set (settlements db)"
  shows "db' = db \<or> (\<exists>stamp row s. us_id row = fresh \<and> billed_as db stamp row s db')"
  using assms(1)
proof (cases rule: settle_meter_cases)
  case (refused stamp row e x)
  then have "us_id row = fresh" "us_status row = ''open''" by simp_all
  with fail_with_billed [OF refused(4)] assms(2) show ?thesis by blast
next
  case (sent stamp row bb sb x)
  then have "us_id row = fresh" "us_status row = ''open''" by simp_all
  with submit_row_billed [OF sent(4)] assms(2) show ?thesis by blast
qed simp

lemma bill_meter_keeps_pinned:
  "c \<in> set (charges db) \<Longrightarrow> uc_settlement c \<noteq> None \<Longrightarrow> c \<in> set (charges (bill_meter row stamp db))"
  by (force simp: bill_meter_def update_meter_def due_charge_def image_iff)

lemma reconcile_row_keeps:
  assumes "s \<in> set (settlements db)" "c \<in> set (charges db)" "uc_settlement c = Some (us_id s)" "us_id s \<noteq> us_id row"
  shows "s \<in> set (settlements (reconcile_row now row db)) \<and> c \<in> set (charges (reconcile_row now row db))"
proof
  show "s \<in> set (settlements (reconcile_row now row db))" by (rule reconcile_row_others [OF assms(1,4)])
  show "c \<in> set (charges (reconcile_row now row db))"
    by (rule reconcile_row_cases [of now row db])
      (use assms in \<open>force simp: mark_settled_def mark_failed_def Let_def update_meter_def update_settlement_def image_iff\<close>)+
qed

lemma reconcile_rows_keep:
  assumes "s \<in> set (settlements db)" "c \<in> set (charges db)" "uc_settlement c = Some (us_id s)"
    and "\<forall>r \<in> set rows. us_id s \<noteq> us_id r"
  shows "s \<in> set (settlements (fold (reconcile_row now) rows db)) \<and> c \<in> set (charges (fold (reconcile_row now) rows db))"
  using assms by (induction rows arbitrary: db) (simp_all add: reconcile_row_keeps)

lemma reconcile_keeps:
  assumes "usage_ok db" "s \<in> set (settlements db)" "us_status s = ''open''" "c \<in> set (charges db)" "uc_settlement c = Some (us_id s)"
  shows "s \<in> set (settlements (reconcile_settlements now limit db)) \<and> c \<in> set (charges (reconcile_settlements now limit db))"
  unfolding reconcile_settlements_def
proof (rule reconcile_rows_keep [OF assms(2,4,5)], intro ballI notI)
  fix r assume r: "r \<in> set (submitted_rows limit db)" "us_id s = us_id r"
  have "s = r" using submitted_rows_set [OF r(1)] r(2) assms(1,2) by (auto simp: usage_ok_def distinct_map inj_on_def)
  with submitted_rows_set [OF r(1)] assms(3) show False by simp
qed

lemma open_step:
  assumes step: "usage_step db db'" and ok: "usage_ok db"
    and s: "s \<in> set (settlements db)" "us_status s = ''open''" "c \<in> set (charges db)" "uc_settlement c = Some (us_id s)"
  shows "s \<in> set (settlements db') \<and> c \<in> set (charges db')"
  using step
proof cases
  case used
  from usage_step_settlements_used [OF used(2)] s show ?thesis by auto
next
  case (billed fresh sha ops cfg now skill payer cutoff allow w r w')
  from settle_meter_billed [OF billed(2,1)] show ?thesis
  proof
    assume "\<exists>stamp row s. us_id row = fresh \<and> billed_as db stamp row s db'"
    then obtain stamp row t where "billed_as db stamp row t db'" by blast
    with s bill_meter_keeps_pinned [OF s(3)] show ?thesis by (simp add: billed_as_def)
  qed (use s in simp)
next
  case (reconciled now limit)
  with reconcile_keeps [OF ok s] show ?thesis by simp
next
  case escrow
  with s show ?thesis by simp
qed

lemma paid_row:
  assumes "t \<in> set (settlements (reconcile_row now row db))" "us_status t = ''settled''"
    and "row \<in> set (settlements db)" "distinct (map us_id (settlements db))"
  shows "t \<in> set (settlements db) \<or> (\<exists>i b. us_binding t = Some i \<and> find_binding i db = Some b \<and> eb_state b = ''settled''
    \<and> us_tx_hash t = or_else (eb_finalize_tx b) (eb_submit_tx b))"
proof (rule reconcile_row_cases [of now row db])
  fix i b assume b: "us_binding row = Some i" "find_binding i db = Some b" "eb_state b = ''settled''"
    "reconcile_row now row db = mark_settled now row b db"
  have only: "u = row" if "u \<in> set (settlements db)" "us_id u = us_id row" for u
    using assms(3,4) that by (auto simp: distinct_map inj_on_def)
  from assms(1) b(4) obtain u where u: "u \<in> set (settlements db)" and t: "t = (if us_id u = us_id row then
      u\<lparr>us_status := ''settled'', us_tx_hash := or_else (eb_finalize_tx b) (eb_submit_tx b),
        us_settled_at := Some now, us_failure := None\<rparr> else u)" by (auto simp: settlements_ended)
  show ?thesis using only [OF u] u t b by (cases "us_id u = us_id row") auto
qed (use assms in \<open>auto simp: settlements_ended\<close>)

lemma reconcile_row_tables: "bindings (reconcile_row now row db) = bindings db"
  by (rule reconcile_row_cases [of now row db])
    (simp_all add: mark_settled_def mark_failed_def Let_def update_meter_def update_settlement_def)

lemma find_binding_cong: "bindings db' = bindings db \<Longrightarrow> find_binding i db' = find_binding i db"
  by (simp only: find_binding_def get_binding_def)

text \<open>\<open>chain_paid db t\<close>: the binding of the settlement is settled and its transaction is on record.\<close>

definition chain_paid :: "Usage_DB \<Rightarrow> UsageSettlement \<Rightarrow> bool" where
  "chain_paid db t \<longleftrightarrow> (\<exists>i b. us_binding t = Some i \<and> find_binding i db = Some b \<and> eb_state b = ''settled''
     \<and> us_tx_hash t = or_else (eb_finalize_tx b) (eb_submit_tx b))"

lemma paid_rows:
  assumes "distinct (map us_id (settlements db))" "distinct (map us_id rows)" "set rows \<subseteq> set (settlements db)"
    and "t \<in> set (settlements (fold (reconcile_row now) rows db))" "us_status t = ''settled''"
  shows "t \<in> set (settlements db) \<or> chain_paid db t"
  using assms
proof (induction rows arbitrary: db)
  case (Cons r rows)
  let ?db = "reconcile_row now r db"
  have ids: "map us_id (settlements ?db) = map us_id (settlements db)"
    by (rule reconcile_row_cases [of now r db]) (simp_all add: settlements_ended)
  have sub: "set rows \<subseteq> set (settlements ?db)"
  proof
    fix q assume q: "q \<in> set rows"
    then have "us_id q \<noteq> us_id r" using Cons.prems(2) by (metis distinct.simps(2) list.simps(9) list.set_map imageI)
    with q Cons.prems(3) show "q \<in> set (settlements ?db)" by (intro reconcile_row_others) auto
  qed
  have "t \<in> set (settlements ?db) \<or> chain_paid ?db t"
    by (rule Cons.IH) (use Cons.prems ids sub in simp_all)
  then show ?case
  proof
    assume "t \<in> set (settlements ?db)"
    from paid_row [OF this Cons.prems(5)] Cons.prems(1,3) show ?thesis by (simp add: chain_paid_def)
  next
    assume "chain_paid ?db t"
    then show ?thesis by (simp add: chain_paid_def find_binding_cong [OF reconcile_row_tables])
  qed
qed simp

lemma paid_step:
  assumes step: "usage_step db db'" and ok: "usage_ok db" and t: "t \<in> set (settlements db')" "us_status t = ''settled''"
  shows "t \<in> set (settlements db) \<or> chain_paid db t"
  using step
proof cases
  case used
  from usage_step_settlements_used [OF used(2)] t show ?thesis by simp
next
  case (billed fresh sha ops cfg now skill payer cutoff allow w r w')
  from settle_meter_billed [OF billed(2,1)] t show ?thesis by (auto simp: billed_as_def)
next
  case (reconciled now limit)
  have "distinct (map us_id (settlements db))" using ok by (simp add: usage_ok_def)
  then show ?thesis using t submitted_rows_distinct [OF ok] submitted_rows_set unfolding reconciled reconcile_settlements_def
    by (intro paid_rows [where rows = "submitted_rows limit db"]) blast+
next
  case escrow
  with t show ?thesis by simp
qed

section \<open>Properties\<close>

text \<open>C2. The ledger of metered calls is exact: however calls, billing, reconciliation and changes of the
  escrow interleave, what a meter shows as accrued is the sum of its charges that no settlement has
  taken, what it shows as billed is the sum of the charges taken and also of the settlements that stand, what
  it shows as settled is the sum of the settlements paid and never more than billed; no request of a skill
  is charged twice, and the charges of a meter stay within its cap.\<close>

theorem usage_ledger_exact:
  assumes "usage_step\<^sup>*\<^sup>* empty_usage db" "m \<in> set (meters db)"
  shows "um_accrued m = open_sum db (meter_key m) \<and> um_billed m = pinned_sum db (meter_key m)
    \<and> um_billed m = live_sum db (meter_key m) \<and> um_settled m = paid_sum db (meter_key m)
    \<and> 0 \<le> um_settled m \<and> um_settled m \<le> um_billed m \<and> um_accrued m + um_billed m = charged_sum db (meter_key m)
    \<and> distinct (map charge_key (charges db))
    \<and> (\<forall>cap. um_cap m = Some cap \<longrightarrow> charged_sum db (meter_key m) \<le> cap + USAGE_EPSILON)"
proof -
  have ok: "usage_ok db" "caps_ok db" using usage.reach_keeps [OF assms(1) empty_usage_ok] by simp_all
  have m: "meter_ok db m" by (rule usage_okD(1) [OF ok(1) assms(2)])
  have "0 \<le> paid_sum db (meter_key m)" "paid_sum db (meter_key m) \<le> live_sum db (meter_key m)"
    unfolding paid_sum_def live_sum_def
    by (rule total_nonneg total_mono; use settlement_amount [OF ok(1)] in auto)+
  with m ok assms(2) show ?thesis by (simp add: meter_ok_def charged_sum_split usage_ok_def caps_ok_def)
qed

definition demo_skill :: Skill where
  "demo_skill = \<lparr>sk_id = ''s'', sk_slug = ''quotes'', sk_owner = ''o'', sk_unit_price = 2, sk_threshold = 1, sk_cap = Some 5,
     sk_status = ''published''\<rparr>"

definition demo_config :: Escrow_Config where
  "demo_config = \<lparr>ec_enabled = False, ec_address = [], ec_operator_key = [], ec_scope = ''k'', ec_stake_bps = 3000\<rparr>"

definition demo_ops :: "unit Chain_Ops" where
  "demo_ops = \<lparr>open_order = \<lambda>_ _ _ _ _ _ _ w. (Inl ''off'', w), submit_settlement = \<lambda>_ _ _ w. (Inl ''off'', w),
     cancel_binding = \<lambda>_ _ w. (Inr (), w)\<rparr>"

definition demo_charged :: Usage_DB where
  "demo_charged = (case record_usage ''m'' ''c'' 7 demo_skill ''p'' (Some ''r'') 1 None None empty_usage of
     Inr (_, db) \<Rightarrow> db | Inl _ \<Rightarrow> empty_usage)"

definition demo_billed :: Usage_DB where
  "demo_billed = snd (fst (settle_meter (\<lambda>t. t) demo_ops demo_config ''t'' 8 demo_skill ''p'' None True demo_charged ()))"

lemma demo_charged_step: "usage_step empty_usage demo_charged"
proof -
  obtain r where "record_usage ''m'' ''c'' 7 demo_skill ''p'' (Some ''r'') 1 None None empty_usage = Inr (r, demo_charged)"
  proof (cases "record_usage ''m'' ''c'' 7 demo_skill ''p'' (Some ''r'') 1 None None empty_usage")
    case (Inl e)
    have "\<not> isl (record_usage ''m'' ''c'' 7 demo_skill ''p'' (Some ''r'') 1 None None empty_usage)" by code_simp
    with Inl show ?thesis by simp
  next
    case (Inr x)
    then show ?thesis using that [of "fst x"] by (cases x) (simp add: demo_charged_def)
  qed
  then show ?thesis by (rule usage_step.used [rotated]) (simp add: demo_skill_def)
qed

lemma demo_billed_step: "usage_step demo_charged demo_billed"
proof -
  have "settlements demo_charged = []" by code_simp
  then show ?thesis
    by (intro usage_step.billed [where fresh = "''t''" and sha = "\<lambda>t. t" and ops = demo_ops and cfg = demo_config and now = 8
          and skill = demo_skill and payer = "''p''" and cutoff = None and allow = True and w = "()"
          and r = "fst (fst (settle_meter (\<lambda>t. t) demo_ops demo_config ''t'' 8 demo_skill ''p'' None True demo_charged ()))" and w' = "()"])
      (simp_all add: demo_billed_def prod_eq_iff)
qed

lemma demo_billed_reached: "usage_step\<^sup>*\<^sup>* empty_usage demo_billed"
  using demo_charged_step demo_billed_step by (meson rtranclp.rtrancl_refl rtranclp.rtrancl_into_rtrancl)

theorem usage_ledger_exact_witness:
  "um_billed (hd (meters demo_billed)) = 2 \<and> live_sum demo_billed (''s'', ''p'') = 2 \<and> paid_sum demo_billed (''s'', ''p'') = 0"
proof -
  have m: "hd (meters demo_billed) \<in> set (meters demo_billed)" by code_simp
  have k: "meter_key (hd (meters demo_billed)) = (''s'', ''p'')" "um_billed (hd (meters demo_billed)) = 2"
    "um_settled (hd (meters demo_billed)) = 0" by code_simp+
  from usage_ledger_exact [OF demo_billed_reached m] show ?thesis unfolding k by simp
qed


definition demo_chain :: "unit Chain_Ops" where
  "demo_chain = \<lparr>open_order = \<lambda>_ _ _ _ _ _ _ w. (Inr \<lparr>bd_binding_id = 4, bd_scope_hash = ''h'', bd_tx_hash = ''b''\<rparr>, w),
     submit_settlement = \<lambda>_ _ _ w. (Inr \<lparr>sb_proof_hash = ''p'', sb_tx_hash = ''u'', sb_pull_after = 0\<rparr>, w),
     cancel_binding = \<lambda>_ _ w. (Inr (), w)\<rparr>"

definition demo_commit :: "string \<Rightarrow> AllowanceCommit" where
  "demo_commit who = \<lparr>ac_bill = who, ac_identity = who, ac_contract = [], ac_amount = 9, ac_spent = 0, ac_reserved = 0,
     ac_state = ''open'', ac_created_at = 1\<rparr>"

definition demo_funded :: Usage_DB where
  "demo_funded = demo_charged\<lparr>commits := [demo_commit ''p'', demo_commit ''o''], bindings := []\<rparr>"

definition demo_submitted :: Usage_DB where
  "demo_submitted = snd (fst (settle_meter (\<lambda>t. t) demo_chain (demo_config\<lparr>ec_address := ''0xe'', ec_operator_key := ''k''\<rparr>) ''t'' 8
     demo_skill ''p'' None True demo_funded ()))"

definition demo_finalized :: Usage_DB where
  "demo_finalized = demo_submitted\<lparr>commits := commits demo_submitted,
     bindings := map (\<lambda>b. b\<lparr>eb_state := ''settled'', eb_finalize_tx := Some ''0xf''\<rparr>) (bindings demo_submitted)\<rparr>"

lemma demo_submitted_step: "usage_step demo_funded demo_submitted"
proof -
  have "settlements demo_funded = []" by code_simp
  then show ?thesis
    by (intro usage_step.billed [where fresh = "''t''" and sha = "\<lambda>t. t" and ops = demo_chain
          and cfg = "demo_config\<lparr>ec_address := ''0xe'', ec_operator_key := ''k''\<rparr>" and now = 8
          and skill = demo_skill and payer = "''p''" and cutoff = None and allow = True and w = "()"
          and r = "fst (fst (settle_meter (\<lambda>t. t) demo_chain (demo_config\<lparr>ec_address := ''0xe'', ec_operator_key := ''k''\<rparr>) ''t'' 8
            demo_skill ''p'' None True demo_funded ()))" and w' = "()"])
      (simp_all add: demo_submitted_def prod_eq_iff)
qed

lemma demo_finalized_reached: "usage_step\<^sup>*\<^sup>* empty_usage demo_finalized"
proof -
  have "usage_step demo_charged demo_funded" unfolding demo_funded_def by (rule usage_step.escrow)
  moreover have "usage_step demo_submitted demo_finalized" unfolding demo_finalized_def by (rule usage_step.escrow)
  ultimately show ?thesis using demo_charged_step demo_submitted_step by (meson rtranclp.rtrancl_refl rtranclp.rtrancl_into_rtrancl)
qed


text \<open>C37. A settlement that could not be submitted is stuck: once it is open after its billing, no later call,
  billing, reconciliation or top-up of the escrow changes it or gives its charges back, although its
  failure reason tells the payer to lock funds and retry.\<close>

theorem open_settlement_stuck:
  assumes "usage_step\<^sup>*\<^sup>* empty_usage db" "s \<in> set (settlements db)" "us_status s = ''open''"
    and "c \<in> set (charges db)" "uc_settlement c = Some (us_id s)" "usage_step\<^sup>*\<^sup>* db db'"
  shows "s \<in> set (settlements db') \<and> c \<in> set (charges db')"
  using assms(6)
proof (induction rule: rtranclp_induct)
  case (step d d')
  have "usage_step\<^sup>*\<^sup>* empty_usage d" using assms(1) step.hyps(1) by simp
  then have "usage_ok d" using usage.reach_keeps empty_usage_ok by blast
  from open_step [OF step.hyps(2) this _ assms(3) _ assms(5)] step.IH show ?case by simp
qed (use assms in simp)

theorem open_settlement_stuck_witness:
  "hd (settlements demo_billed) \<in> set (settlements (reconcile_settlements 9 50 demo_billed))
   \<and> us_failure (hd (settlements demo_billed)) = Some No_Operator"
proof
  have s: "hd (settlements demo_billed) \<in> set (settlements demo_billed)" "us_status (hd (settlements demo_billed)) = ''open''"
    "hd (charges demo_billed) \<in> set (charges demo_billed)"
    "uc_settlement (hd (charges demo_billed)) = Some (us_id (hd (settlements demo_billed)))" by code_simp+
  show "hd (settlements demo_billed) \<in> set (settlements (reconcile_settlements 9 50 demo_billed))"
    using open_settlement_stuck [OF demo_billed_reached s r_into_rtranclp [of usage_step, OF usage_step.reconciled [of demo_billed 9 50]]] by simp
  show "us_failure (hd (settlements demo_billed)) = Some No_Operator" by code_simp
qed

text \<open>A request is charged once, whoever repeats it: after a call went through, the same request identifier for the
  skill returns the charge that is there and writes nothing, whatever the units, and also when the caller
  is another payer, whose call is then not charged at all.\<close>

lemma request_charged_once:
  assumes "record_usage fm fresh now skill payer rid units occurred_at given db = Inr (r, db')"
    and "strip (sk_owner skill) \<noteq> []" "caller \<noteq> strip (sk_owner skill)"
  shows "\<exists>r'. record_usage fm' fresh' now' skill caller rid units' occurred_at' None db' = Inr (r', db')
    \<and> ur_duplicate r' \<and> ur_charge r' = ur_charge r"
  using assms(1)
proof (cases rule: record_usage_cases)
  case (replayed x)
  with assms(2,3) show ?thesis by (auto simp: record_usage_def usage_provider_def Let_def)
next
  case (charged x meter db1)
  have "charges db1 = charges db" using charged(3) by (auto simp: get_or_create_meter_def Let_def split: option.splits)
  moreover have "find P (xs @ [y]) = Some y" if "find P xs = None" "P y" for P and xs :: "UsageCharge list" and y
    using that by (induction xs) (auto split: if_splits)
  ultimately have "find_charge (sk_id skill) x db' = Some (ur_charge r)"
    using charged(2,7,9) by (simp add: find_charge_def charged(12) update_meter_def)
  with charged(1) assms(2,3) show ?thesis by (auto simp: record_usage_def usage_provider_def Let_def)
qed

end
