(* ===== verification/Settlement_Channel.thy ===== *)
theory Settlement_Channel
  imports Complex_Main Attestation_Signer Lifecycle Stores
begin

text \<open>
  Off-chain settlement states (\<^verbatim>\<open>services/settlement_channel.py\<close>): the text both parties sign, the check of a
  signature, the hash of a batch and the ledger that accepts states with increasing sequence numbers.
  Recovery of the signer of a text is a parameter, \<open>recover text bytes\<close>, and fails with \<^term>\<open>None\<close>; \<open>sha\<close> is SHA-256 in
  hexadecimal. The balances of a state are the items of a dict.
\<close>

section \<open>States and their text\<close>

record Channel_State =
  cs_channel_id :: string
  cs_seq :: int
  cs_balances :: "(string \<times> string) list"
  cs_meta_hash :: string

definition CHANNEL_DOMAIN :: string where
  "CHANNEL_DOMAIN = ''Karma Settlement Channel v1''"

definition newline :: char where
  "newline = CHR 0x0A"

definition balance_line :: "string \<times> string \<Rightarrow> string" where
  "balance_line b = newline # fst b @ '':'' @ snd b"

definition canonical_state_message :: "Channel_State \<Rightarrow> string" where
  "canonical_state_message s =
     CHANNEL_DOMAIN @ [newline] @ ''channel_id:'' @ cs_channel_id s @ [newline] @ ''seq:'' @ int_str (cs_seq s) @ [newline]
     @ ''meta_hash:'' @ cs_meta_hash s @ concat (map balance_line (sort (cs_balances s)))"

definition state_batch_hash :: "(string \<Rightarrow> string) \<Rightarrow> Channel_State list \<Rightarrow> string" where
  "state_batch_hash sha states = ''0x'' @ sha (utf8 (join ''|'' (map canonical_state_message states)))"

definition batch_due :: "rat \<Rightarrow> rat \<Rightarrow> int \<Rightarrow> int \<Rightarrow> bool" where
  "batch_due total_value value_threshold seq seq_threshold \<longleftrightarrow> total_value \<ge> value_threshold \<or> seq \<ge> seq_threshold"

section \<open>Signatures\<close>

datatype channel_error = Bad_Signature_Length | Bad_Signature_Hex | Verification_Failed | Not_A_Party | Wrong_Signer | Stale_State | No_State

definition normalize_sig :: "string \<Rightarrow> channel_error + string" where
  "normalize_sig signature =
     (let s0 = strip signature; s = (if starts_with s0 ''0x'' then drop 2 s0 else s0)
      in if length s \<noteq> 130 then Inl Bad_Signature_Length
         else case fromhex s of None \<Rightarrow> Inl Bad_Signature_Hex | Some b \<Rightarrow> Inr b)"

definition recover_signer :: "(string \<Rightarrow> string \<Rightarrow> string option) \<Rightarrow> Channel_State \<Rightarrow> string \<Rightarrow> channel_error + string" where
  "recover_signer recover s signature =
     (case normalize_sig signature of
        Inl _ \<Rightarrow> Inl Verification_Failed
      | Inr b \<Rightarrow> (case recover (canonical_state_message s) b of None \<Rightarrow> Inl Verification_Failed | Some a \<Rightarrow> Inr a))"

text \<open>\<open>sign\<close> is the signature of the library over a text with a key.\<close>

definition sign_state :: "(string \<Rightarrow> string \<Rightarrow> string) \<Rightarrow> Channel_State \<Rightarrow> string \<Rightarrow> string" where
  "sign_state sign s private_key = ''0x'' @ hex (sign (canonical_state_message s) private_key)"

definition verify_state :: "(string \<Rightarrow> string \<Rightarrow> string option) \<Rightarrow> Channel_State \<Rightarrow> string \<Rightarrow> string \<Rightarrow> channel_error + bool" where
  "verify_state recover s signature signer_address =
     (case recover_signer recover s signature of Inl e \<Rightarrow> Inl e | Inr a \<Rightarrow> Inr (lower a = lower (strip signer_address)))"

section \<open>The ledger of a channel\<close>

record Channel_Ledger =
  cl_parties :: "string set"
  cl_latest_seq :: int
  cl_latest :: "Channel_State option"
  cl_signatures :: "(string \<times> string) list"

definition new_ledger :: "string set \<Rightarrow> Channel_Ledger" where
  "new_ledger parties = \<lparr>cl_parties = lower ` parties, cl_latest_seq = - 1, cl_latest = None, cl_signatures = []\<rparr>"

definition apply_state ::
  "(string \<Rightarrow> string \<Rightarrow> string option) \<Rightarrow> Channel_State \<Rightarrow> string \<Rightarrow> string \<Rightarrow> Channel_Ledger \<Rightarrow> channel_error + Channel_Ledger" where
  "apply_state recover s signature signer_address l =
     (let signer = lower (strip signer_address)
      in if signer \<notin> cl_parties l then Inl Not_A_Party
         else case verify_state recover s signature signer of
                Inl e \<Rightarrow> Inl e
              | Inr False \<Rightarrow> Inl Wrong_Signer
              | Inr True \<Rightarrow>
                  if cs_seq s \<le> cl_latest_seq l then Inl Stale_State
                  else Inr (l\<lparr>cl_latest_seq := cs_seq s, cl_latest := Some s,
                              cl_signatures := dict_set signer signature (cl_signatures l)\<rparr>))"

definition exit_evidence :: "Channel_Ledger \<Rightarrow> channel_error + Channel_State \<times> int \<times> (string \<times> string) list" where
  "exit_evidence l = (case cl_latest l of None \<Rightarrow> Inl No_State | Some s \<Rightarrow> Inr (s, cl_latest_seq l, cl_signatures l))"

section \<open>The text determines the state\<close>

text \<open>A field is plain if no line break and no separator of a batch is in it.\<close>

definition plain :: "string \<Rightarrow> bool" where
  "plain s \<longleftrightarrow> newline \<notin> set s \<and> CHR ''|'' \<notin> set s"

definition plain_state :: "Channel_State \<Rightarrow> bool" where
  "plain_state s \<longleftrightarrow> plain (cs_channel_id s) \<and> plain (cs_meta_hash s)
     \<and> (\<forall>b \<in> set (cs_balances s). plain (fst b) \<and> plain (snd b) \<and> CHR '':'' \<notin> set (fst b))"

text \<open>The lines after the first, each led by its line break.\<close>

definition state_lines :: "Channel_State \<Rightarrow> string list" where
  "state_lines s = (''channel_id:'' @ cs_channel_id s) # (''seq:'' @ int_str (cs_seq s)) # (''meta_hash:'' @ cs_meta_hash s)
     # map (\<lambda>b. fst b @ '':'' @ snd b) (sort (cs_balances s))"

lemma message_lines: "canonical_state_message s = CHANNEL_DOMAIN @ concat (map (Cons newline) (state_lines s))"
proof -
  have "balance_line = (\<lambda>b. newline # fst b @ '':'' @ snd b)" by (simp add: fun_eq_iff balance_line_def)
  then show ?thesis by (simp add: canonical_state_message_def state_lines_def comp_def)
qed

lemma led_lines_inject:
  assumes "concat (map (Cons c) xs) = concat (map (Cons c) ys)" "\<forall>x \<in> set xs. c \<notin> set x" "\<forall>y \<in> set ys. c \<notin> set y"
  shows "xs = ys"
  using assms
proof (induction xs arbitrary: ys)
  case Nil
  then show ?case by (cases ys) auto
next
  case (Cons x xs)
  then obtain y ys' where ys: "ys = y # ys'" by (cases ys) auto
  have sep: "zs = [] \<or> (\<exists>r. concat (map (Cons c) zs) = c # r)" for zs :: "'a list list" by (cases zs) auto
  have eq: "x @ concat (map (Cons c) xs) = y @ concat (map (Cons c) ys')" using Cons.prems(1) ys by simp
  have tw: "takeWhile (\<lambda>a. a \<noteq> c) (z @ concat (map (Cons c) zs)) = z" if "c \<notin> set z" for z zs
  proof -
    have "takeWhile (\<lambda>a. a \<noteq> c) (z @ concat (map (Cons c) zs)) = z @ takeWhile (\<lambda>a. a \<noteq> c) (concat (map (Cons c) zs))"
      by (rule takeWhile_append2) (use that in auto)
    with sep [of zs] show ?thesis by auto
  qed
  from tw [of x xs] tw [of y ys'] Cons.prems(2,3) ys eq have "x = y" by (metis list.set_intros(1))
  with eq Cons.IH [of ys'] Cons.prems(2,3) ys show ?case by simp
qed

lemma digits_no_newline: "newline \<notin> set (int_str i)" "CHR ''|'' \<notin> set (int_str i)" for i
proof -
  have d: "newline \<notin> set (nat_str n)" "CHR ''|'' \<notin> set (nat_str n)" for n
    using nat_str_digits [of newline n] nat_str_digits [of "CHR ''|''" n] by (auto simp: newline_def is_digit_def code_def)
  show "newline \<notin> set (int_str i)" "CHR ''|'' \<notin> set (int_str i)" using d by (auto simp: int_str_def newline_def)
qed

lemma plain_lines: "plain_state s \<Longrightarrow> x \<in> set (state_lines s) \<Longrightarrow> plain x"
  using digits_no_newline [of "cs_seq s"] by (auto simp: state_lines_def plain_state_def plain_def newline_def)

lemma balance_text_inject:
  assumes "map (\<lambda>b. fst b @ '':'' @ snd b) xs = map (\<lambda>b. fst b @ '':'' @ snd b) ys"
    and "\<forall>b \<in> set xs. CHR '':'' \<notin> set (fst b)" "\<forall>b \<in> set ys. CHR '':'' \<notin> set (fst b)"
  shows "xs = ys"
  using assms
proof (induction xs arbitrary: ys)
  case (Cons x xs)
  then obtain y ys' where ys: "ys = y # ys'" by (cases ys) auto
  with Cons.prems have "fst x @ CHR '':'' # snd x = fst y @ CHR '':'' # snd y" by simp
  from sep_split [OF this] Cons.prems ys have "x = y" by (simp add: prod_eq_iff)
  with Cons ys show ?case by simp
qed simp

lemma state_lines_inject:
  assumes "state_lines s = state_lines t" "plain_state s" "plain_state t"
  shows "cs_channel_id s = cs_channel_id t \<and> cs_seq s = cs_seq t \<and> cs_meta_hash s = cs_meta_hash t
    \<and> sort (cs_balances s) = sort (cs_balances t)"
  using assms balance_text_inject [of "sort (cs_balances s)" "sort (cs_balances t)"]
  by (simp add: state_lines_def plain_state_def)

lemma state_message_inject:
  assumes "canonical_state_message s = canonical_state_message t" "plain_state s" "plain_state t"
  shows "cs_channel_id s = cs_channel_id t \<and> cs_seq s = cs_seq t \<and> cs_meta_hash s = cs_meta_hash t
    \<and> sort (cs_balances s) = sort (cs_balances t)"
proof (rule state_lines_inject [OF _ assms(2,3)])
  show "state_lines s = state_lines t"
    by (rule led_lines_inject [of newline]) (use assms plain_lines in \<open>auto simp: message_lines plain_def\<close>)
qed

lemma message_no_bar: "plain_state s \<Longrightarrow> CHR ''|'' \<notin> set (canonical_state_message s)"
  using plain_lines [of s] by (auto simp: message_lines CHANNEL_DOMAIN_def newline_def plain_def)

section \<open>Runs of a ledger\<close>

text \<open>What was accepted so far, oldest first: the state, the signature and the party that signed it.\<close>

type_synonym accepted = "Channel_State \<times> string \<times> string"

inductive channel_run :: "(string \<Rightarrow> string \<Rightarrow> string option) \<Rightarrow> string set \<Rightarrow> accepted list \<Rightarrow> Channel_Ledger \<Rightarrow> bool"
  for recover ps where
  opened: "channel_run recover ps [] (new_ledger ps)"
| advanced: "channel_run recover ps h l \<Longrightarrow> apply_state recover s signature signer l = Inr l' \<Longrightarrow>
    channel_run recover ps (h @ [(s, signature, lower (strip signer))]) l'"

inductive_cases channel_run_snoc: "channel_run recover ps (h @ [a]) l"

lemma apply_state_Inr:
  "apply_state recover s signature signer l = Inr l' \<longleftrightarrow>
     lower (strip signer) \<in> cl_parties l \<and> verify_state recover s signature (lower (strip signer)) = Inr True
     \<and> cl_latest_seq l < cs_seq s
     \<and> l' = l\<lparr>cl_latest_seq := cs_seq s, cl_latest := Some s,
             cl_signatures := dict_set (lower (strip signer)) signature (cl_signatures l)\<rparr>"
  by (auto simp: apply_state_def Let_def split: sum.splits bool.splits if_splits)

text \<open>The ledger is a function of the history: the last state, and for every party its last signature.\<close>

definition last_by :: "accepted list \<Rightarrow> string \<Rightarrow> accepted option" where
  "last_by h p = find (\<lambda>(_, _, q). q = p) (rev h)"

definition ledger_of :: "accepted list \<Rightarrow> Channel_Ledger \<Rightarrow> bool" where
  "ledger_of h l \<longleftrightarrow>
     cl_latest l = (if h = [] then None else Some (fst (last h)))
     \<and> cl_latest_seq l = (if h = [] then - 1 else cs_seq (fst (last h)))
     \<and> (\<forall>p. map_of (cl_signatures l) p = map_option (\<lambda>(_, g, _). g) (last_by h p))"

lemma last_by_snoc: "last_by (h @ [(s, g, q)]) p = (if q = p then Some (s, g, q) else last_by h p)"
  by (simp add: last_by_def)

lemma last_by_mem: "last_by h p = Some (s, g, q) \<Longrightarrow> (s, g, p) \<in> set h \<and> q = p"
  by (auto simp: last_by_def find_Some_iff) (metis nth_mem length_rev set_rev)+

lemma run_ledger:
  "channel_run recover ps h l \<Longrightarrow>
   ledger_of h l \<and> cl_parties l = lower ` ps \<and> sorted_wrt (<) (map (cs_seq \<circ> fst) h) \<and> - 1 \<le> cl_latest_seq l
   \<and> (\<forall>x \<in> set h. cs_seq (fst x) \<le> cl_latest_seq l)
   \<and> (\<forall>(s, g, p) \<in> set h. p \<in> lower ` ps \<and> verify_state recover s g p = Inr True \<and> 0 \<le> cs_seq s)"
proof (induction rule: channel_run.induct)
  case opened
  show ?case by (simp add: ledger_of_def new_ledger_def last_by_def)
next
  case (advanced h l s signature signer l')
  from advanced.hyps(2) [unfolded apply_state_Inr] advanced.IH show ?case
    by (fastforce simp: ledger_of_def last_by_snoc sorted_wrt_append)
qed

section \<open>Batches\<close>

lemma join_Nil_iff: "\<forall>y \<in> set ys. y \<noteq> [] \<Longrightarrow> join sep ys = [] \<longleftrightarrow> ys = []"
  by (induction sep ys rule: join.induct) auto

lemma join_nonempty_inject:
  assumes "join [c] xs = join [c] ys" "\<forall>x \<in> set xs. c \<notin> set x \<and> x \<noteq> []" "\<forall>y \<in> set ys. c \<notin> set y \<and> y \<noteq> []"
  shows "xs = ys"
  using assms
proof (induction xs arbitrary: ys)
  case Nil
  then show ?case using join_Nil_iff [of ys "[c]"] by auto
next
  case (Cons x xs)
  then have "join [c] ys \<noteq> []" using join_Nil_iff [of "x # xs" "[c]"] by auto
  then obtain y ys' where ys: "ys = y # ys'" by (cases ys) auto
  have has: "c \<in> set (join [c] (z # zs)) \<longleftrightarrow> zs \<noteq> []" if "c \<notin> set z" for z zs
    using that by (cases zs) simp_all
  have iff: "xs = [] \<longleftrightarrow> ys' = []"
    using has [of x xs] has [of y ys'] Cons.prems ys by simp
  show ?case
  proof (cases "xs = []")
    case True
    with iff have "ys' = []" by simp
    with True Cons.prems ys show ?thesis by simp
  next
    case False
    with iff Cons.prems(1) ys have eq: "x @ c # join [c] xs = y @ c # join [c] ys'" by (simp add: join_Cons)
    from sep_split [OF eq] Cons.prems(2,3) ys have "x = y" "join [c] xs = join [c] ys'" by simp_all
    with Cons.IH [of ys'] Cons.prems(2,3) ys show ?thesis by simp
  qed
qed

text \<open>The same state up to the order of the balances, which are a dict.\<close>

definition same_state :: "Channel_State \<Rightarrow> Channel_State \<Rightarrow> bool" where
  "same_state s t \<longleftrightarrow> cs_channel_id s = cs_channel_id t \<and> cs_seq s = cs_seq t \<and> cs_meta_hash s = cs_meta_hash t
     \<and> mset (cs_balances s) = mset (cs_balances t)"

lemma same_stateI: "canonical_state_message s = canonical_state_message t \<Longrightarrow> plain_state s \<Longrightarrow> plain_state t \<Longrightarrow> same_state s t"
  using state_message_inject [of s t] by (auto simp: same_state_def) (metis mset_sort)

lemma same_state_message:
  assumes "same_state s t"
  shows "canonical_state_message s = canonical_state_message t"
proof -
  have "sort (cs_balances s) = sort (cs_balances t)" using assms
    by (metis same_state_def mset_sort properties_for_sort sorted_sort)
  with assms show ?thesis by (simp add: same_state_def canonical_state_message_def)
qed

section \<open>Properties\<close>


definition demo_state :: "int \<Rightarrow> Channel_State" where
  "demo_state n = \<lparr>cs_channel_id = ''ch'', cs_seq = n, cs_balances = [(''a'', ''1''), (''b'', ''2'')], cs_meta_hash = ''m''\<rparr>"


text \<open>A channel between two parties, each of which has signed one state.\<close>

definition demo_recover :: "string \<Rightarrow> string \<Rightarrow> string option" where
  "demo_recover t b = Some (if hd b = chr 170 then ''0xa'' else ''0xb'')"

definition demo_sig :: "string \<Rightarrow> string" where
  "demo_sig x = x @ replicate 126 (CHR '' '') @ x"

definition demo_ledger1 :: Channel_Ledger where
  "demo_ledger1 = projr (apply_state demo_recover (demo_state 1) (demo_sig ''aa'') ''0xA'' (new_ledger {''0xA'', ''0xb''}))"

definition demo_ledger2 :: Channel_Ledger where
  "demo_ledger2 = projr (apply_state demo_recover (demo_state 2) (demo_sig ''bb'') ''0xb'' demo_ledger1)"

definition demo_history :: "accepted list" where
  "demo_history = [(demo_state 1, demo_sig ''aa'', lower (strip ''0xA''))]
     @ [(demo_state 2, demo_sig ''bb'', lower (strip ''0xb''))]"

lemma demo_run: "channel_run demo_recover {''0xA'', ''0xb''} demo_history demo_ledger2"
proof -
  have "\<not> isl (apply_state demo_recover (demo_state 1) (demo_sig ''aa'') ''0xA'' (new_ledger {''0xA'', ''0xb''}))"
    "\<not> isl (apply_state demo_recover (demo_state 2) (demo_sig ''bb'') ''0xb'' demo_ledger1)" by code_simp+
  then have a: "apply_state demo_recover (demo_state 1) (demo_sig ''aa'') ''0xA'' (new_ledger {''0xA'', ''0xb''}) = Inr demo_ledger1"
    "apply_state demo_recover (demo_state 2) (demo_sig ''bb'') ''0xb'' demo_ledger1 = Inr demo_ledger2"
    by (simp_all only: demo_ledger1_def demo_ledger2_def sum.collapse simp_thms)
  from channel_run.advanced [OF channel_run.advanced [OF channel_run.opened a(1)] a(2)] show ?thesis
    by (simp only: demo_history_def append.simps)
qed

text \<open>C14. The ledger keeps the newest state: whatever is submitted, the accepted sequence numbers are strictly
  increasing, every accepted signature recovers to the party it is filed under, and the evidence
  for an exit is the state with the highest accepted number with each party's last accepted signature.\<close>

theorem channel_ledger_newest:
  assumes "channel_run recover ps h l" "h \<noteq> []"
  shows "sorted_wrt (<) (map (cs_seq \<circ> fst) h)
    \<and> (\<forall>(s, g, p) \<in> set h. p \<in> lower ` ps \<and> verify_state recover s g p = Inr True)
    \<and> exit_evidence l = Inr (fst (last h), Max ((cs_seq \<circ> fst) ` set h), cl_signatures l)
    \<and> (\<forall>p. map_of (cl_signatures l) p = map_option (\<lambda>(_, g, _). g) (last_by h p))"
proof -
  note r = run_ledger [OF assms(1)]
  have lat: "cl_latest l = Some (fst (last h))" "cl_latest_seq l = cs_seq (fst (last h))"
    using r assms(2) by (simp_all add: ledger_of_def)
  have "Max ((cs_seq \<circ> fst) ` set h) = cs_seq (fst (last h))"
  proof (rule Max_eqI)
    show "cs_seq (fst (last h)) \<in> (cs_seq \<circ> fst) ` set h" using assms(2) by auto
    show "y \<le> cs_seq (fst (last h))" if "y \<in> (cs_seq \<circ> fst) ` set h" for y using that r lat by auto
  qed simp
  with r lat show ?thesis by (auto simp: exit_evidence_def ledger_of_def)
qed

theorem channel_ledger_newest_witness:
  "exit_evidence demo_ledger2 = Inr (demo_state 2, 2, cl_signatures demo_ledger2)
   \<and> map_of (cl_signatures demo_ledger2) ''0xa'' = Some (demo_sig ''aa'')"
proof -
  have h: "fst (last demo_history) = demo_state 2" "(cs_seq \<circ> fst) ` set demo_history = {1, 2}" "demo_history \<noteq> []"
    by (simp_all add: demo_history_def demo_state_def)
  have "lower (strip ''0xA'') = ''0xa''" "lower (strip ''0xb'') = ''0xb''" by code_simp+
  then have "last_by demo_history ''0xa'' = Some (demo_state 1, demo_sig ''aa'', ''0xa'')"
    by (simp add: demo_history_def last_by_def)
  with channel_ledger_newest [OF demo_run h(3)] show ?thesis unfolding h by simp
qed

text \<open>C39. No state is ever signed by both parties in a ledger: a party other than the one that submitted the latest
  state has in the evidence a signature on a state with a smaller number, and the latest state itself
  is refused from everybody, so that the evidence never holds two signatures on the state it proves.\<close>

theorem latest_state_never_cosigned:
  assumes "channel_run recover ps (h @ [(s, g, q)]) l"
  shows "cl_latest l = Some s
    \<and> (\<forall>p g'. p \<noteq> q \<longrightarrow> map_of (cl_signatures l) p = Some g' \<longrightarrow> (\<exists>t. (t, g', p) \<in> set h \<and> cs_seq t < cs_seq s))
    \<and> (\<forall>g' p. \<exists>e. apply_state recover s g' p l = Inl e)"
proof -
  note r = run_ledger [OF assms]
  have lat: "cl_latest l = Some s" "cl_latest_seq l = cs_seq s" using r by (simp_all add: ledger_of_def)
  have "\<exists>t. (t, g', p) \<in> set h \<and> cs_seq t < cs_seq s" if "p \<noteq> q" "map_of (cl_signatures l) p = Some g'" for p g'
  proof -
    from r that have "\<exists>t. last_by h p = Some (t, g', p)"
      by (auto simp: ledger_of_def last_by_snoc dest: last_by_mem)
    then obtain t where "(t, g', p) \<in> set h" using last_by_mem by blast
    with r show ?thesis by (fastforce simp: sorted_wrt_append)
  qed
  moreover have "\<exists>e. apply_state recover s g' p l = Inl e" for g' p
    using apply_state_Inr [of recover s g' p l] lat by (cases "apply_state recover s g' p l") auto
  ultimately show ?thesis using lat by blast
qed

theorem latest_state_never_cosigned_witness:
  "cl_latest demo_ledger2 = Some (demo_state 2)
   \<and> isl (apply_state demo_recover (demo_state 2) (demo_sig ''aa'') ''0xA'' demo_ledger2)"
proof -
  note c = latest_state_never_cosigned [OF demo_run [unfolded demo_history_def]]
  then obtain e where "apply_state demo_recover (demo_state 2) (demo_sig ''aa'') ''0xA'' demo_ledger2 = Inl e" by blast
  with c show ?thesis by simp
qed

text \<open>What a party signs is accepted from it, where recovery inverts a signature of 65 bytes.\<close>

lemma strip_signature: "strip (''0x'' @ hex b) = ''0x'' @ hex b"
proof -
  have d: "\<not> is_space (hex_digit n)" if "n < 16" for n using that by (simp add: hex_digit_def is_space_def)
  have "code c div 16 < 16" for c by (rule less_mult_imp_div_less) simp
  then have h: "\<not> is_space x" if "x \<in> set (hex b)" for x using that by (auto simp: hex_def hex_byte_def d)
  have "\<not> is_space (CHR ''0'')" "\<not> is_space (CHR ''x'')" by (simp_all add: is_space_def code_def)
  with h have "\<not> is_space x" if "x \<in> set (''0x'' @ hex b)" for x using that by auto
  then have "dropWhile is_space xs = xs" if "set xs = set (''0x'' @ hex b)" for xs using that by (cases xs) auto
  then show ?thesis by (simp only: strip_def set_rev rev_rev_ident)
qed

lemma signed_state_verifies:
  assumes "length (sign (canonical_state_message s) key) = 65"
    and "recover (canonical_state_message s) (sign (canonical_state_message s) key) = Some a" "lower a = lower (strip signer)"
  shows "verify_state recover s (sign_state sign s key) signer = Inr True"
  using assms by (simp add: verify_state_def recover_signer_def normalize_sig_def sign_state_def strip_signature [simplified] fromhex_hex)

text \<open>A ledger is not bound to a channel: a state of any other channel with a higher number is accepted in it.\<close>

lemma foreign_channel_accepted:
  assumes "lower (strip signer) \<in> cl_parties l" "verify_state recover s g (lower (strip signer)) = Inr True" "cl_latest_seq l < cs_seq s"
  shows "\<exists>l'. apply_state recover s g signer l = Inr l' \<and> cl_latest l' = Some s"
  using assms by (simp add: apply_state_Inr)

text \<open>Without the restriction on the fields the text is ambiguous: a line break in the meta hash makes a state without
  balances read like one that has them.\<close>

lemma state_text_ambiguous:
  "canonical_state_message \<lparr>cs_channel_id = c, cs_seq = n, cs_balances = [], cs_meta_hash = m @ balance_line b\<rparr>
   = canonical_state_message \<lparr>cs_channel_id = c, cs_seq = n, cs_balances = [b], cs_meta_hash = m\<rparr>"
  by (simp add: canonical_state_message_def)

end
