(* ===== verification/Spending_Grants.thy ===== *)
theory Spending_Grants
  imports Money Lifecycle Attestation_Signer
begin

text \<open>
  Spending grants (\<^verbatim>\<open>services/spending_grant.py\<close>): what an owner allows an agent to spend, the gate before a spend, the
  reservation and its release, the life of a grant and its audit events; the owner's signature
  (\<^verbatim>\<open>services/runtime_wallet.py\<close>), the routes of \<^verbatim>\<open>api/routes/spending_grants.py\<close> that act on a grant and the lock of
  \<^verbatim>\<open>api/routes/bilateral.py\<close>.

  An operation works on the tables of its session and may commit or roll them back itself. The grant that an
  operation loaded before it writes is an argument of its own, because another request may change the row
  in between: the write goes to the row by its key. Recovery of a signer, the text of a float and the
  parser of an ISO time are parameters; instants are microseconds.
\<close>

section \<open>Tables and sessions\<close>

record SpendingGrant =
  sg_id :: string
  sg_owner :: string
  sg_owner_wallet :: string
  sg_agent :: string
  sg_agent_name :: "string option"
  sg_public_key :: "string option"
  sg_currency :: string
  sg_token :: "string option"
  sg_total :: rat
  sg_per_tx :: rat
  sg_used :: rat
  sg_scope :: "string list"
  sg_status :: string
  sg_expires :: "int option"
  sg_nonce :: string
  sg_signature :: string
  sg_message :: string
  sg_last_used :: "int option"
  sg_revoked_at :: "int option"
  sg_revoke_reason :: "string option"
  sg_created_at :: int

record GrantEvent =
  ge_grant :: string
  ge_owner :: string
  ge_agent :: string
  ge_type :: string
  ge_amount :: "rat option"
  ge_reason :: "string option"

record SpendingReservation =
  rv_bill :: int
  rv_grant :: string
  rv_agent :: string
  rv_amount :: rat

record Grants_DB =
  gd_grants :: "SpendingGrant list"
  gd_events :: "GrantEvent list"
  gd_reservations :: "SpendingReservation list"

record Grant_Session =
  gs_committed :: Grants_DB
  gs_working :: Grants_DB

datatype grant_error = HTTP_Error nat string | Integrity_Error

type_synonym 'a grant_op = "Grant_Session \<Rightarrow> (grant_error + 'a) \<times> Grant_Session"

definition gs_commit :: "Grant_Session \<Rightarrow> Grant_Session" where
  "gs_commit s = s\<lparr>gs_committed := gs_working s\<rparr>"

definition gs_rollback :: "Grant_Session \<Rightarrow> Grant_Session" where
  "gs_rollback s = s\<lparr>gs_working := gs_committed s\<rparr>"

definition on_working :: "(Grants_DB \<Rightarrow> Grants_DB) \<Rightarrow> Grant_Session \<Rightarrow> Grant_Session" where
  "on_working f s = s\<lparr>gs_working := f (gs_working s)\<rparr>"

text \<open>The session of a request: committed when the handler returns, rolled back when it raises.\<close>

definition grant_request :: "'a grant_op \<Rightarrow> Grants_DB \<Rightarrow> (grant_error + 'a) \<times> Grants_DB" where
  "grant_request body db =
     (case body \<lparr>gs_committed = db, gs_working = db\<rparr> of
        (Inl e, s) \<Rightarrow> (Inl e, gs_committed (gs_rollback s))
      | (Inr a, s) \<Rightarrow> (Inr a, gs_committed (gs_commit s)))"

section \<open>Events and terms\<close>

definition GRANT_EPS :: rat where
  "GRANT_EPS = 1 / 10 ^ 9"

definition record_event ::
  "string \<Rightarrow> string \<Rightarrow> string \<Rightarrow> string \<Rightarrow> rat option \<Rightarrow> string option \<Rightarrow> Grants_DB \<Rightarrow> Grants_DB" where
  "record_event grant owner agent event_type amount reason db =
     db\<lparr>gd_events := gd_events db @ [\<lparr>ge_grant = grant, ge_owner = owner, ge_agent = agent, ge_type = event_type,
                                    ge_amount = amount, ge_reason = reason\<rparr>]\<rparr>"

definition record_deny_safe :: "string \<Rightarrow> string \<Rightarrow> string \<Rightarrow> string \<Rightarrow> Grant_Session \<Rightarrow> Grant_Session" where
  "record_deny_safe grant owner agent reason s =
     gs_commit (on_working (record_event grant owner agent ''deny'' None (Some (take 256 reason))) (gs_rollback s))"

definition or_empty :: "string option \<Rightarrow> string" where
  "or_empty t = (case t of None \<Rightarrow> [] | Some s \<Rightarrow> s)"

definition build_grant_message ::
  "(rat \<Rightarrow> string) \<Rightarrow> string \<Rightarrow> string \<Rightarrow> string \<Rightarrow> string option \<Rightarrow> string \<Rightarrow> string option \<Rightarrow> rat \<Rightarrow> rat \<Rightarrow> string list \<Rightarrow>
   string option \<Rightarrow> string \<Rightarrow> string" where
  "build_grant_message repr grant_id wallet agent public_key currency token total_limit per_tx scope expires nonce =
     (let expire_line = (if strip (or_empty expires) = [] then ''never'' else strip (or_empty expires))
      in join [CHR 0x0A]
           [''Karma Spending Grant'', ''grant_id:'' @ grant_id, ''wallet_address:'' @ wallet, ''agent_id:'' @ agent,
            ''agent_public_key:'' @ or_empty public_key, ''currency:'' @ currency, ''token_address:'' @ or_empty token,
            ''total_limit:'' @ repr total_limit, ''per_tx_limit:'' @ repr per_tx, ''purpose_scope:'' @ join '','' (sort scope),
            ''expires_at:'' @ expire_line, ''nonce:'' @ nonce])"

definition normalize_wallet_sig :: "string \<Rightarrow> string option" where
  "normalize_wallet_sig sig =
     (let s0 = strip sig; s = (if starts_with s0 ''0x'' then drop 2 s0 else s0)
      in if length s \<noteq> 130 then None else fromhex s)"

definition verify_personal_message ::
  "(string \<Rightarrow> string \<Rightarrow> string option) \<Rightarrow> string \<Rightarrow> string \<Rightarrow> string \<Rightarrow> grant_error + unit" where
  "verify_personal_message recover message wallet signature =
     (let wa = strip wallet
      in if \<not> starts_with wa ''0x'' \<or> length wa \<noteq> 42
         then Inl (HTTP_Error 400 ''wallet_address must be a 0x-prefixed 20-byte address'')
         else case normalize_wallet_sig signature of
                None \<Rightarrow> Inl (HTTP_Error 400 ''wallet_signature verification failed'')
              | Some b \<Rightarrow>
                  (case recover message b of
                     None \<Rightarrow> Inl (HTTP_Error 400 ''wallet_signature verification failed'')
                   | Some r \<Rightarrow> if lower r \<noteq> lower wa
                              then Inl (HTTP_Error 403 ''wallet_signature does not match wallet_address'') else Inr ()))"

section \<open>Grants\<close>

definition grant_expired :: "int \<Rightarrow> SpendingGrant \<Rightarrow> bool" where
  "grant_expired now g \<longleftrightarrow> (case sg_expires g of None \<Rightarrow> False | Some t \<Rightarrow> t < now)"

definition get_grant :: "string \<Rightarrow> Grants_DB \<Rightarrow> SpendingGrant option" where
  "get_grant i db = find (\<lambda>g. sg_id g = i) (gd_grants db)"

text \<open>The expiry that \<^verbatim>\<open>create_grant\<close> stores: none, an error, or an instant after now.\<close>

definition grant_expiry :: "(string \<Rightarrow> int option) \<Rightarrow> int \<Rightarrow> string option \<Rightarrow> grant_error + int option" where
  "grant_expiry fromiso now expires =
     (if strip (or_empty expires) = [] then Inr None
      else case fromiso (or_empty expires) of
             None \<Rightarrow> Inl (HTTP_Error 400 ''expires_at must be an ISO-8601 datetime'')
           | Some t \<Rightarrow> if t \<le> now then Inl (HTTP_Error 400 ''expires_at must be in the future'') else Inr (Some t))"

definition create_grant ::
  "(string \<Rightarrow> string \<Rightarrow> string option) \<Rightarrow> (rat \<Rightarrow> string) \<Rightarrow> (string \<Rightarrow> int option) \<Rightarrow> int \<Rightarrow> string \<Rightarrow> string \<Rightarrow> string \<Rightarrow> string \<Rightarrow>
   string option \<Rightarrow> string option \<Rightarrow> string \<Rightarrow> string option \<Rightarrow> rat \<Rightarrow> rat \<Rightarrow> string list \<Rightarrow> string option \<Rightarrow> string \<Rightarrow> string \<Rightarrow>
   SpendingGrant grant_op" where
  "create_grant recover repr fromiso now owner wallet signature agent public_key agent_name currency token total_limit per_tx scope expires
     nonce grant_id s =
     (if total_limit \<le> 0 then (Inl (HTTP_Error 400 ''total_limit must be positive''), s)
      else if per_tx \<le> 0 then (Inl (HTTP_Error 400 ''per_tx_limit must be positive''), s)
      else if per_tx > total_limit then (Inl (HTTP_Error 400 ''per_tx_limit cannot exceed total_limit''), s)
      else let message = build_grant_message repr grant_id wallet agent public_key currency token total_limit per_tx scope expires nonce
           in case verify_personal_message recover message wallet signature of
                Inl e \<Rightarrow> (Inl e, s)
              | Inr _ \<Rightarrow>
                  if get_grant grant_id (gs_working s) \<noteq> None then (Inl (HTTP_Error 409 ''grant_id already exists''), s)
                  else case grant_expiry fromiso now expires of
                         Inl e \<Rightarrow> (Inl e, s)
                       | Inr expires_dt \<Rightarrow>
                           (let g = \<lparr>sg_id = grant_id, sg_owner = owner, sg_owner_wallet = lower wallet, sg_agent = agent,
                                     sg_agent_name = (if strip (or_empty agent_name) = [] then None else Some (strip (or_empty agent_name))),
                                     sg_public_key = public_key, sg_currency = (if currency = [] then ''USDC'' else currency),
                                     sg_token = token, sg_total = total_limit, sg_per_tx = per_tx, sg_used = 0, sg_scope = scope,
                                     sg_status = ''active'', sg_expires = expires_dt, sg_nonce = nonce, sg_signature = signature,
                                     sg_message = message, sg_last_used = None, sg_revoked_at = None, sg_revoke_reason = None,
                                     sg_created_at = now\<rparr>
                            in (Inr g, on_working (record_event grant_id owner agent ''created'' None None
                                 \<circ> (\<lambda>db. db\<lparr>gd_grants := gd_grants db @ [g]\<rparr>)) s)))"

section \<open>The gate\<close>

definition active_grants :: "string \<Rightarrow> string option \<Rightarrow> Grants_DB \<Rightarrow> SpendingGrant list" where
  "active_grants agent owner db =
     sort_key (\<lambda>g. - sg_created_at g)
       (filter (\<lambda>g. sg_agent g = agent \<and> sg_status g = ''active'' \<and> (or_empty owner = [] \<or> sg_owner g = or_empty owner)) (gd_grants db))"

definition token_differs :: "SpendingGrant \<Rightarrow> string option \<Rightarrow> bool" where
  "token_differs g token \<longleftrightarrow>
     or_empty (sg_token g) \<noteq> [] \<and> or_empty token \<noteq> [] \<and> lower (or_empty (sg_token g)) \<noteq> lower (or_empty token)"

definition covers_spend :: "int \<Rightarrow> string option \<Rightarrow> rat \<Rightarrow> SpendingGrant \<Rightarrow> bool" where
  "covers_spend now token amount g \<longleftrightarrow>
     \<not> grant_expired now g \<and> \<not> token_differs g token \<and> \<not> amount > sg_per_tx g + GRANT_EPS
     \<and> \<not> amount > sg_total g - sg_used g + GRANT_EPS"

definition assert_spend_allowed :: "int \<Rightarrow> string \<Rightarrow> string option \<Rightarrow> rat \<Rightarrow> string option \<Rightarrow> SpendingGrant grant_op" where
  "assert_spend_allowed now agent token amount owner s =
     (case active_grants agent owner (gs_working s) of
        [] \<Rightarrow> (Inl (HTTP_Error 403 ''spending grant denied: no active spending grant''),
               record_deny_safe [] (or_empty owner) agent ''no active spending grant'' s)
      | g0 # gs \<Rightarrow>
          (case find (covers_spend now token amount) (g0 # gs) of
             Some g \<Rightarrow> (Inr g, s)
           | None \<Rightarrow> (Inl (HTTP_Error 403 ''spending grant denied: no grant covers this spend''),
                      record_deny_safe (sg_id g0) (if or_empty owner = [] then sg_owner g0 else or_empty owner) agent
                        ''no grant covers this spend'' s)))"

definition assert_agent_authorized :: "int \<Rightarrow> string \<Rightarrow> string option \<Rightarrow> SpendingGrant grant_op" where
  "assert_agent_authorized now agent owner s =
     (case find (\<lambda>g. \<not> grant_expired now g) (active_grants agent owner (gs_working s)) of
        Some g \<Rightarrow> (Inr g, s)
      | None \<Rightarrow> (Inl (HTTP_Error 403 ''spending grant denied: no active spending grant''),
                 record_deny_safe [] (or_empty owner) agent ''no active spending grant'' s))"

section \<open>Spending\<close>

text \<open>\<^verbatim>\<open>UPDATE spending_grants SET \<dots> WHERE \<dots>\<close>, with the number of rows it matched.\<close>

definition update_grants :: "(SpendingGrant \<Rightarrow> bool) \<Rightarrow> (SpendingGrant \<Rightarrow> SpendingGrant) \<Rightarrow> Grants_DB \<Rightarrow> nat \<times> Grants_DB" where
  "update_grants P f db =
     (length (filter P (gd_grants db)), db\<lparr>gd_grants := map (\<lambda>g. if P g then f g else g) (gd_grants db)\<rparr>)"

definition record_spend :: "int \<Rightarrow> string \<Rightarrow> rat \<Rightarrow> string option \<Rightarrow> string option \<Rightarrow> Grant_Session \<Rightarrow> Grant_Session" where
  "record_spend now grant_id amount owner agent s =
     on_working (record_event grant_id (or_empty owner) (or_empty agent) ''spend'' (Some amount) None
       \<circ> (\<lambda>db. snd (update_grants (\<lambda>g. sg_id g = grant_id)
             (\<lambda>g. g\<lparr>sg_used := sg_used g + amount, sg_last_used := Some now\<rparr>) db))) s"

definition can_reserve :: "int \<Rightarrow> string \<Rightarrow> rat \<Rightarrow> SpendingGrant \<Rightarrow> bool" where
  "can_reserve now grant_id amount g \<longleftrightarrow>
     sg_id g = grant_id \<and> sg_status g = ''active'' \<and> (case sg_expires g of None \<Rightarrow> True | Some t \<Rightarrow> t > now)
     \<and> sg_per_tx g \<ge> amount - GRANT_EPS \<and> sg_used g + amount \<le> sg_total g + GRANT_EPS"

definition reserve_spend :: "int \<Rightarrow> string \<Rightarrow> rat \<Rightarrow> SpendingGrant grant_op" where
  "reserve_spend now grant_id amount s =
     (if amount \<le> 0 then (Inl (HTTP_Error 400 ''amount must be positive''), s)
      else case update_grants (can_reserve now grant_id amount)
                  (\<lambda>g. g\<lparr>sg_used := sg_used g + amount, sg_last_used := Some now\<rparr>) (gs_working s) of
             (n, db) \<Rightarrow>
               if n \<noteq> 1
               then (Inl (HTTP_Error 403 ''spending grant denied: grant not found, inactive, expired, or insufficient allowance''),
                     record_deny_safe grant_id [] [] ''grant not found, inactive, expired, or insufficient allowance''
                       (s\<lparr>gs_working := db\<rparr>))
               else case get_grant grant_id db of
                      None \<Rightarrow> (Inl Integrity_Error, s\<lparr>gs_working := db\<rparr>)
                    | Some g \<Rightarrow> (Inr g, s\<lparr>gs_working := record_event grant_id (sg_owner g) (sg_agent g) ''spend'' (Some amount) None db\<rparr>))"

definition can_release :: "string \<Rightarrow> rat \<Rightarrow> SpendingGrant \<Rightarrow> bool" where
  "can_release grant_id amount g \<longleftrightarrow> sg_id g = grant_id \<and> sg_used g \<ge> amount - GRANT_EPS"

definition release_spend :: "string \<Rightarrow> rat \<Rightarrow> Grant_Session \<Rightarrow> Grant_Session" where
  "release_spend grant_id amount s =
     (if amount \<le> 0 then s
      else on_working (record_event grant_id [] [] ''release'' (Some amount) None
             \<circ> (\<lambda>db. snd (update_grants (can_release grant_id amount) (\<lambda>g. g\<lparr>sg_used := sg_used g - amount\<rparr>) db))) s)"

section \<open>Bills\<close>

definition link_bill_to_grant :: "int \<Rightarrow> string \<Rightarrow> string \<Rightarrow> rat \<Rightarrow> SpendingReservation grant_op" where
  "link_bill_to_grant bill grant_id agent amount s =
     (let r = \<lparr>rv_bill = bill, rv_grant = grant_id, rv_agent = agent, rv_amount = amount\<rparr>
      in if bill \<in> rv_bill ` set (gd_reservations (gs_working s)) then (Inl Integrity_Error, s)
         else (Inr r, on_working (\<lambda>db. db\<lparr>gd_reservations := gd_reservations db @ [r]\<rparr>) s))"

definition get_bill_reservation :: "int \<Rightarrow> Grants_DB \<Rightarrow> SpendingReservation option" where
  "get_bill_reservation bill db = find (\<lambda>r. rv_bill r = bill) (gd_reservations db)"

definition assert_bill_covered_by_grant :: "int \<Rightarrow> int \<Rightarrow> string \<Rightarrow> Grants_DB \<Rightarrow> grant_error + SpendingReservation" where
  "assert_bill_covered_by_grant now bill agent db =
     (case get_bill_reservation bill db of
        None \<Rightarrow> Inl (HTTP_Error 403 ''spending grant denied: bill was not locked under a spending grant'')
      | Some r \<Rightarrow>
          if rv_agent r \<noteq> agent then Inl (HTTP_Error 403 ''spending grant denied: bill belongs to another agent'')
          else case get_grant (rv_grant r) db of
                 None \<Rightarrow> Inl (HTTP_Error 403 ''spending grant denied: grant is revoked, paused, or expired'')
               | Some g \<Rightarrow> if sg_status g \<noteq> ''active'' \<or> grant_expired now g
                          then Inl (HTTP_Error 403 ''spending grant denied: grant is revoked, paused, or expired'') else Inr r)"

section \<open>The life of a grant\<close>

text \<open>Attributes written to a loaded grant reach the row of its key.\<close>

definition write_grant :: "string \<Rightarrow> (SpendingGrant \<Rightarrow> SpendingGrant) \<Rightarrow> Grants_DB \<Rightarrow> Grants_DB" where
  "write_grant i f db = snd (update_grants (\<lambda>g. sg_id g = i) f db)"

definition revoke_grant :: "int \<Rightarrow> SpendingGrant \<Rightarrow> string \<Rightarrow> unit grant_op" where
  "revoke_grant now g reason s =
     (if sg_status g \<notin> {''active'', ''paused''} then (Inl (HTTP_Error 409 (''grant is already '' @ sg_status g)), s)
      else let text = take 256 (strip reason)
           in (Inr (), on_working (record_event (sg_id g) (sg_owner g) (sg_agent g) ''revoked'' None (Some text)
                 \<circ> write_grant (sg_id g) (\<lambda>r. r\<lparr>sg_status := ''revoked'', sg_revoked_at := Some now, sg_revoke_reason := Some text\<rparr>)) s))"

definition pause_grant :: "SpendingGrant \<Rightarrow> unit grant_op" where
  "pause_grant g s =
     (if sg_status g \<noteq> ''active'' then (Inl (HTTP_Error 409 (''grant is '' @ sg_status g @ '', not active'')), s)
      else (Inr (), on_working (record_event (sg_id g) (sg_owner g) (sg_agent g) ''paused'' None None
              \<circ> write_grant (sg_id g) (\<lambda>r. r\<lparr>sg_status := ''paused''\<rparr>)) s))"

definition resume_grant :: "int \<Rightarrow> SpendingGrant \<Rightarrow> unit grant_op" where
  "resume_grant now g s =
     (if sg_status g \<noteq> ''paused'' then (Inl (HTTP_Error 409 (''grant is '' @ sg_status g @ '', not paused'')), s)
      else if grant_expired now g then (Inl (HTTP_Error 409 ''grant has expired and cannot be resumed''), s)
      else (Inr (), on_working (record_event (sg_id g) (sg_owner g) (sg_agent g) ''resumed'' None None
              \<circ> write_grant (sg_id g) (\<lambda>r. r\<lparr>sg_status := ''active''\<rparr>)) s))"

definition reduce_grant :: "int \<Rightarrow> SpendingGrant \<Rightarrow> rat \<Rightarrow> string option \<Rightarrow> unit grant_op" where
  "reduce_grant now g new_total reason s =
     (if sg_status g \<noteq> ''active'' then (Inl (HTTP_Error 409 (''grant is '' @ sg_status g @ '', not active'')), s)
      else if grant_expired now g then (Inl (HTTP_Error 409 ''grant has expired and cannot be reduced''), s)
      else if new_total \<le> 0 then (Inl (HTTP_Error 400 ''new_total_limit must be positive''), s)
      else if new_total \<ge> sg_total g - GRANT_EPS then (Inl (HTTP_Error 400 ''limit can only be reduced, not increased''), s)
      else if new_total < sg_used g - GRANT_EPS
           then (Inl (HTTP_Error 400 ''new_total_limit cannot fall below the already-spent amount''), s)
      else let t = round_decimals new_total 6
           in (Inr (), on_working (record_event (sg_id g) (sg_owner g) (sg_agent g) ''limit_reduced'' (Some t)
                   (Some (take 256 (strip (or_empty reason))))
                 \<circ> write_grant (sg_id g) (\<lambda>r. r\<lparr>sg_total := t\<rparr>)) s))"

definition list_grant_events :: "string option \<Rightarrow> string option \<Rightarrow> string option \<Rightarrow> int \<Rightarrow> Grants_DB \<Rightarrow> GrantEvent list" where
  "list_grant_events grant owner agent limit db =
     take (nat (max 1 (min limit 500)))
       (rev (filter (\<lambda>e. (or_empty grant = [] \<or> ge_grant e = or_empty grant) \<and> (or_empty owner = [] \<or> ge_owner e = or_empty owner)
                      \<and> (or_empty agent = [] \<or> ge_agent e = or_empty agent)) (gd_events db)))"

section \<open>Routes\<close>

text \<open>The text an owner signs to revoke, pause or resume, and to reduce.\<close>

definition action_message :: "string \<Rightarrow> string \<Rightarrow> string \<Rightarrow> string" where
  "action_message action grant_id wallet =
     (let label = (if action = ''revoke'' then ''Revoke'' else if action = ''pause'' then ''Pause''
                   else if action = ''resume'' then ''Resume'' else if action = ''reduce'' then ''Reduce'' else action)
      in join [CHR 0x0A] [''Karma Spending Grant '' @ label, ''grant_id:'' @ grant_id, ''wallet_address:'' @ wallet])"

definition reduce_message :: "(rat \<Rightarrow> string) \<Rightarrow> string \<Rightarrow> string \<Rightarrow> rat \<Rightarrow> string" where
  "reduce_message repr grant_id wallet new_total =
     join [CHR 0x0A] [''Karma Spending Grant Reduce'', ''grant_id:'' @ grant_id, ''wallet_address:'' @ wallet,
       ''new_total_limit:'' @ repr new_total]"

definition verify_owner ::
  "(string \<Rightarrow> string \<Rightarrow> string option) \<Rightarrow> string \<Rightarrow> SpendingGrant \<Rightarrow> string \<Rightarrow> string \<Rightarrow> grant_error + unit" where
  "verify_owner recover message g wallet signature =
     (case verify_personal_message recover message wallet signature of
        Inl e \<Rightarrow> Inl e
      | Inr _ \<Rightarrow> if lower (sg_owner_wallet g) \<noteq> lower wallet then Inl (HTTP_Error 403 ''wallet is not the grant owner'') else Inr ())"

text \<open>A route loads the grant, checks the owner and runs the action; \<open>stored\<close> is what it loaded.\<close>

definition grant_action ::
  "(string \<Rightarrow> string \<Rightarrow> string option) \<Rightarrow> (SpendingGrant \<Rightarrow> string) \<Rightarrow> string \<Rightarrow> string \<Rightarrow> (SpendingGrant \<Rightarrow> unit grant_op) \<Rightarrow>
   SpendingGrant option \<Rightarrow> unit grant_op" where
  "grant_action recover message wallet signature act stored s =
     (case stored of
        None \<Rightarrow> (Inl (HTTP_Error 404 ''grant not found''), s)
      | Some g \<Rightarrow>
          (case verify_owner recover (message g) g wallet signature of
             Inl e \<Rightarrow> (Inl e, s)
           | Inr _ \<Rightarrow> (case act g s of (Inl e, s1) \<Rightarrow> (Inl e, s1) | (Inr _, s1) \<Rightarrow> (Inr (), gs_commit s1))))"

definition revoke_route where
  "revoke_route recover now wallet signature reason stored =
     grant_action recover (\<lambda>g. action_message ''revoke'' (sg_id g) wallet) wallet signature (\<lambda>g. revoke_grant now g (or_empty reason)) stored"

definition pause_route where
  "pause_route recover wallet signature stored =
     grant_action recover (\<lambda>g. action_message ''pause'' (sg_id g) wallet) wallet signature pause_grant stored"

definition resume_route where
  "resume_route recover now wallet signature stored =
     grant_action recover (\<lambda>g. action_message ''resume'' (sg_id g) wallet) wallet signature (resume_grant now) stored"

definition reduce_route where
  "reduce_route recover repr now wallet signature new_total reason stored =
     grant_action recover (\<lambda>g. reduce_message repr (sg_id g) wallet new_total) wallet signature
       (\<lambda>g. reduce_grant now g new_total reason) stored"

text \<open>The lock of \<^verbatim>\<open>api/routes/bilateral.py\<close>: \<open>chain_lock\<close> is the transaction, \<open>agent\<close> the agent of the request.\<close>

definition lock_route ::
  "bool \<Rightarrow> int \<Rightarrow> string option \<Rightarrow> string \<Rightarrow> int \<Rightarrow> string \<Rightarrow> (string + int) \<Rightarrow> int grant_op" where
  "lock_route enforced now agent token amount role chain_lock s =
     (if enforced \<and> role = ''agent''
      then if or_empty agent = [] then (Inl (HTTP_Error 401 ''agent identity required for agent-side lock''), s)
           else let human = of_int amount / 10 ^ 6
                in case assert_spend_allowed now (or_empty agent) (Some token) human None s of
                     (Inl e, s1) \<Rightarrow> (Inl e, s1)
                   | (Inr selected, s1) \<Rightarrow>
                       (case reserve_spend now (sg_id selected) human s1 of
                          (Inl e, s2) \<Rightarrow> (Inl e, s2)
                        | (Inr g, s2) \<Rightarrow>
                            (case chain_lock of
                               Inl e \<Rightarrow> (Inl (HTTP_Error 502 (''on-chain lock failed: '' @ e)), gs_commit (release_spend (sg_id g) human s2))
                             | Inr bill \<Rightarrow>
                                 (case link_bill_to_grant bill (sg_id g) (or_empty agent) human s2 of
                                    (Inl e, s3) \<Rightarrow> (Inl e, s3)
                                  | (Inr _, s3) \<Rightarrow> (Inr bill, gs_commit s3))))
      else case chain_lock of Inl e \<Rightarrow> (Inl (HTTP_Error 502 (''on-chain lock failed: '' @ e)), s) | Inr bill \<Rightarrow> (Inr bill, s))"

section \<open>Invariant of the allowances\<close>

definition grant_ok :: "SpendingGrant \<Rightarrow> bool" where
  "grant_ok g \<longleftrightarrow> - GRANT_EPS \<le> sg_used g \<and> sg_used g \<le> sg_total g + 1 / 10 ^ 6"

definition grants_ok :: "Grants_DB \<Rightarrow> bool" where
  "grants_ok db \<longleftrightarrow> distinct (map sg_id (gd_grants db)) \<and> (\<forall>g \<in> set (gd_grants db). grant_ok g)"

definition session_ok :: "Grant_Session \<Rightarrow> bool" where
  "session_ok s \<longleftrightarrow> grants_ok (gs_committed s) \<and> grants_ok (gs_working s)"

lemma grants_ok_event [simp]: "grants_ok (record_event gr ow ag ty am re db) = grants_ok db"
  by (simp add: record_event_def grants_ok_def)

lemma get_grant_event [simp]: "get_grant i (record_event gr ow ag ty am re db) = get_grant i db"
  by (simp add: record_event_def get_grant_def)

lemma update_grants_ok:
  assumes "grants_ok db" "\<And>g. g \<in> set (gd_grants db) \<Longrightarrow> P g \<Longrightarrow> grant_ok (f g) \<and> sg_id (f g) = sg_id g"
  shows "grants_ok (snd (update_grants P f db))"
proof -
  have "map sg_id (map (\<lambda>g. if P g then f g else g) (gd_grants db)) = map sg_id (gd_grants db)" using assms(2) by auto
  with assms show ?thesis by (auto simp: update_grants_def grants_ok_def simp del: map_map)
qed

lemma session_sel [simp]:
  "gs_committed (on_working f s) = gs_committed s" "gs_working (on_working f s) = f (gs_working s)"
  "gs_committed (gs_commit s) = gs_working s" "gs_working (gs_commit s) = gs_working s"
  "gs_committed (gs_rollback s) = gs_committed s" "gs_working (gs_rollback s) = gs_committed s"
  by (simp_all add: on_working_def gs_commit_def gs_rollback_def)

lemma session_ok_simps [simp]:
  "session_ok (gs_commit s) \<longleftrightarrow> grants_ok (gs_working s)"
  "session_ok (gs_rollback s) \<longleftrightarrow> grants_ok (gs_committed s)"
  "session_ok (on_working f s) \<longleftrightarrow> grants_ok (gs_committed s) \<and> grants_ok (f (gs_working s))"
  by (simp_all add: session_ok_def)

lemma session_ok_deny: "session_ok s \<Longrightarrow> session_ok (record_deny_safe gr ow ag re s)"
  by (simp add: record_deny_safe_def session_ok_def)

text \<open>An operation keeps the invariant of its session, whether it returns or raises.\<close>

definition keeps_ok :: "'a grant_op \<Rightarrow> bool" where
  "keeps_ok op \<longleftrightarrow> (\<forall>s. session_ok s \<longrightarrow> session_ok (snd (op s)))"

lemma keeps_okI: "(\<And>s. session_ok s \<Longrightarrow> session_ok (snd (op s))) \<Longrightarrow> keeps_ok op"
  by (simp add: keeps_ok_def)

lemma keeps_okD: "keeps_ok op \<Longrightarrow> session_ok s \<Longrightarrow> op s = (r, s') \<Longrightarrow> session_ok s'"
  unfolding keeps_ok_def by (metis snd_conv)

lemma request_ok:
  assumes "keeps_ok op" "grants_ok db" "grant_request op db = (r, db')"
  shows "grants_ok db'"
proof -
  have "session_ok (snd (op \<lparr>gs_committed = db, gs_working = db\<rparr>))"
    using assms(1,2) by (simp add: keeps_ok_def session_ok_def)
  with assms(3) show ?thesis
    by (auto simp: grant_request_def session_ok_def split: prod.splits sum.splits)
qed

lemma keeps_assert_spend_allowed: "keeps_ok (assert_spend_allowed now agent token amount owner)"
  by (rule keeps_okI) (auto simp: assert_spend_allowed_def session_ok_deny split: list.split option.split)

lemma reserve_ok:
  "can_reserve now i amount g \<Longrightarrow> grant_ok g \<Longrightarrow> 0 < amount \<Longrightarrow> grant_ok (g\<lparr>sg_used := sg_used g + amount, sg_last_used := Some now\<rparr>)"
  by (simp add: can_reserve_def grant_ok_def GRANT_EPS_def)

lemma keeps_reserve_spend: "keeps_ok (reserve_spend now i amount)"
proof (rule keeps_okI)
  fix s assume s: "session_ok s"
  let ?f = "\<lambda>g. g\<lparr>sg_used := sg_used g + amount, sg_last_used := Some now\<rparr>"
  show "session_ok (snd (reserve_spend now i amount s))"
  proof (cases "amount \<le> 0")
    case False
    then have "grants_ok (snd (update_grants (can_reserve now i amount) ?f (gs_working s)))"
      using s by (intro update_grants_ok) (auto simp: session_ok_def grants_ok_def reserve_ok)
    then have upd: "session_ok (s\<lparr>gs_working := db\<rparr>)" if "update_grants (can_reserve now i amount) ?f (gs_working s) = (n, db)" for n db
      using s that by (simp add: session_ok_def)
    then have ev: "session_ok (s\<lparr>gs_working := record_event gr ow ag ty am re db\<rparr>)"
      if "update_grants (can_reserve now i amount) ?f (gs_working s) = (n, db)" for n db gr ow ag ty am re
      using that by (simp add: session_ok_def)
    show ?thesis using upd ev False session_ok_deny by (auto simp: reserve_spend_def split: prod.split option.split)
  qed (use s in \<open>simp add: reserve_spend_def\<close>)
qed

lemma release_ok: "session_ok s \<Longrightarrow> session_ok (release_spend i amount s)"
proof -
  assume s: "session_ok s"
  have "grants_ok (snd (update_grants (can_release i amount) (\<lambda>g. g\<lparr>sg_used := sg_used g - amount\<rparr>) (gs_working s)))" if "0 < amount"
    by (rule update_grants_ok) (use s that in \<open>auto simp: session_ok_def grants_ok_def can_release_def grant_ok_def GRANT_EPS_def\<close>)
  with s show ?thesis by (auto simp: release_spend_def session_ok_def)
qed

lemma keeps_write:
  assumes "\<And>g. grant_ok g \<Longrightarrow> grant_ok (f g) \<and> sg_id (f g) = sg_id g" "grants_ok db"
  shows "grants_ok (write_grant i f db)"
  unfolding write_grant_def by (rule update_grants_ok) (use assms in \<open>auto simp: grants_ok_def\<close>)

lemma keeps_lifecycle: "keeps_ok (revoke_grant now g reason)" "keeps_ok (pause_grant g)" "keeps_ok (resume_grant now g)"
  by (rule keeps_okI;
      auto simp: revoke_grant_def pause_grant_def resume_grant_def Let_def session_ok_def grant_ok_def intro!: keeps_write)+

text \<open>Reducing keeps the bound when the grant it read is the one it writes.\<close>

lemma reduce_ok:
  assumes "session_ok s" "get_grant (sg_id g) (gs_working s) = Some g"
  shows "session_ok (snd (reduce_grant now g new_total reason s))"
proof -
  have dist: "distinct (map sg_id (gd_grants (gs_working s)))" using assms(1) by (simp add: session_ok_def grants_ok_def)
  have mem: "g \<in> set (gd_grants (gs_working s))" using assms(2) by (auto simp: get_grant_def find_Some_iff)
  have only: "r = g" if "r \<in> set (gd_grants (gs_working s))" "sg_id r = sg_id g" for r
    using dist mem that by (auto simp: distinct_map inj_on_def)
  have "grants_ok (write_grant (sg_id g) (\<lambda>r. r\<lparr>sg_total := round_decimals new_total 6\<rparr>) (gs_working s))"
    if low: "\<not> new_total < sg_used g - GRANT_EPS"
    unfolding write_grant_def
  proof (rule update_grants_ok)
    show "grants_ok (gs_working s)" using assms(1) by (simp add: session_ok_def)
    fix r assume r: "r \<in> set (gd_grants (gs_working s))" "sg_id r = sg_id g"
    have "grant_ok g" using assms(1) mem by (simp add: session_ok_def grants_ok_def)
    moreover have "new_total - 1 / 2 / 10 ^ 6 \<le> round_decimals new_total 6"
      using abs_le_D2 [OF round_decimals_error [of new_total 6]] by simp
    ultimately show "grant_ok (r\<lparr>sg_total := round_decimals new_total 6\<rparr>) \<and> sg_id (r\<lparr>sg_total := round_decimals new_total 6\<rparr>) = sg_id r"
      using only [OF r] low by (simp add: grant_ok_def GRANT_EPS_def)
  qed
  with assms(1) show ?thesis by (auto simp: reduce_grant_def Let_def session_ok_def)
qed

lemma keeps_create: "keeps_ok (create_grant recover repr fromiso now ow wa si ag pk an cu tok tlim ptx sc ex no gi)"
  by (rule keeps_okI)
    (auto simp: create_grant_def Let_def session_ok_def grants_ok_def grant_ok_def GRANT_EPS_def get_grant_def find_None_iff record_event_def
      split: sum.split)

lemma keeps_link: "keeps_ok (link_bill_to_grant bill i agent amount)"
  by (rule keeps_okI) (auto simp: link_bill_to_grant_def Let_def session_ok_def grants_ok_def)

lemma keeps_lock: "keeps_ok (lock_route enforced now agent token amount role chain_lock)"
proof (rule keeps_okI)
  fix s assume s: "session_ok s"
  let ?h = "of_int amount / 10 ^ 6 :: rat" and ?a = "or_empty agent"
  show "session_ok (snd (lock_route enforced now agent token amount role chain_lock s))"
  proof (cases "enforced \<and> role = ''agent'' \<and> ?a \<noteq> []")
    case True
    obtain r1 s1 where 1: "assert_spend_allowed now ?a (Some token) ?h None s = (r1, s1)" by force
    note ok1 = keeps_okD [OF keeps_assert_spend_allowed s 1]
    show ?thesis
    proof (cases r1)
      case (Inr sel)
      obtain r2 s2 where 2: "reserve_spend now (sg_id sel) ?h s1 = (r2, s2)" by force
      note ok2 = keeps_okD [OF keeps_reserve_spend ok1 2]
      have ok3: "session_ok s3" if "link_bill_to_grant bill i ?a ?h s2 = (r3, s3)" for bill i r3 s3
        by (rule keeps_okD [OF keeps_link ok2 that])
      have rel: "session_ok (gs_commit (release_spend i ?h s2))" for i using release_ok [OF ok2, of i ?h] by (simp add: session_ok_def)
      show ?thesis using True 1 Inr 2 ok2 ok3 rel
        by (auto simp: lock_route_def Let_def session_ok_def split: sum.split prod.split)
    qed (use True 1 ok1 in \<open>simp add: lock_route_def Let_def\<close>)
  qed (use s in \<open>auto simp: lock_route_def split: sum.split\<close>)
qed

lemma keeps_action:
  assumes "\<And>g. stored = Some g \<Longrightarrow> keeps_ok (act g)"
  shows "keeps_ok (grant_action recover message wallet signature act stored)"
proof (rule keeps_okI)
  fix s assume s: "session_ok s"
  show "session_ok (snd (grant_action recover message wallet signature act stored s))"
    using s assms by (auto simp: grant_action_def dest: keeps_okD [OF _ s] split: option.split sum.split prod.split) (metis keeps_okD s session_ok_def)+
qed

section \<open>Requests over time\<close>

text \<open>Requests that keep to the reservation: a grant is created, revoked, paused or resumed on a copy that may be stale,
  reduced on a current copy, or reserved by a lock.\<close>

inductive grant_step :: "Grants_DB \<Rightarrow> Grants_DB \<Rightarrow> bool" where
  created: "grant_request (create_grant recover repr fromiso now ow wa si ag pk an cu tok tlim ptx sc ex no gi) db = (r, db') \<Longrightarrow> grant_step db db'"
| revoked: "grant_request (revoke_route recover now wallet signature reason stored) db = (r', db') \<Longrightarrow> grant_step db db'"
| paused: "grant_request (pause_route recover wallet signature stored) db = (r', db') \<Longrightarrow> grant_step db db'"
| resumed: "grant_request (resume_route recover now wallet signature stored) db = (r', db') \<Longrightarrow> grant_step db db'"
| reduced: "grant_request (reduce_route recover repr now wallet signature new_total reason (get_grant i db)) db = (r', db') \<Longrightarrow> grant_step db db'"
| locked: "grant_request (lock_route enforced now agent token amount role chain_lock) db = (r'', db') \<Longrightarrow> grant_step db db'"

lemma reduced_ok:
  assumes "grants_ok db" "grant_request (reduce_route recover repr now wallet signature new_total reason (get_grant i db)) db = (r, db')"
  shows "grants_ok db'"
proof (cases "get_grant i db")
  case None
  with assms show ?thesis by (auto simp: grant_request_def reduce_route_def grant_action_def)
next
  case (Some g)
  let ?s = "\<lparr>gs_committed = db, gs_working = db\<rparr>"
  have "sg_id g = i" using Some by (auto simp: get_grant_def find_Some_iff)
  then have "session_ok (snd (reduce_grant now g new_total reason ?s))"
    by (intro reduce_ok) (use assms(1) Some in \<open>simp_all add: session_ok_def\<close>)
  with assms Some show ?thesis
    by (auto simp: grant_request_def reduce_route_def grant_action_def session_ok_def split: sum.splits prod.splits)
qed

lemma keeps_routes:
  "keeps_ok (revoke_route recover now wallet signature reason stored)" "keeps_ok (pause_route recover wallet signature stored)"
  "keeps_ok (resume_route recover now wallet signature stored)"
  unfolding revoke_route_def pause_route_def resume_route_def by (rule keeps_action, rule keeps_lifecycle)+

lemma grant_step_ok: "grant_step db db' \<Longrightarrow> grants_ok db \<Longrightarrow> grants_ok db'"
proof (induction rule: grant_step.induct)
  case created
  show ?case by (rule request_ok [OF keeps_create created(2,1)])
next
  case revoked
  show ?case by (rule request_ok [OF keeps_routes(1) revoked(2,1)])
next
  case paused
  show ?case by (rule request_ok [OF keeps_routes(2) paused(2,1)])
next
  case resumed
  show ?case by (rule request_ok [OF keeps_routes(3) resumed(2,1)])
next
  case reduced
  show ?case by (rule reduced_ok [OF reduced(2,1)])
next
  case locked
  show ?case by (rule request_ok [OF keeps_lock locked(2,1)])
qed

interpretation grants: kept grant_step grants_ok
  by unfold_locales (rule grant_step_ok)

definition no_grants :: Grants_DB where
  "no_grants = \<lparr>gd_grants = [], gd_events = [], gd_reservations = []\<rparr>"

section \<open>What a lock does to the allowances\<close>

definition allowances :: "Grants_DB \<Rightarrow> (string \<times> rat) list" where
  "allowances db = map (\<lambda>g. (sg_id g, sg_used g)) (gd_grants db)"

lemma allowances_event [simp]:
  "allowances (record_event gr ow ag ty am re db) = allowances db"
  "gd_reservations (record_event gr ow ag ty am re db) = gd_reservations db"
  by (simp_all add: allowances_def record_event_def)

lemma allowances_update:
  assumes "distinct (map sg_id (gd_grants db))" "g \<in> set (gd_grants db)" "P g" "\<And>r. P r \<Longrightarrow> sg_id r = sg_id g"
    and "\<And>r. sg_id (f r) = sg_id r \<and> sg_used (f r) = sg_used r + a"
  shows "allowances (snd (update_grants P f db)) = map (\<lambda>(j, u). (j, if j = sg_id g then u + a else u)) (allowances db)"
proof -
  have inj: "r = g" if "r \<in> set (gd_grants db)" "sg_id r = sg_id g" for r
    using assms(1,2) that by (auto simp: distinct_map dest: inj_onD)
  have "P r \<longleftrightarrow> sg_id r = sg_id g" if "r \<in> set (gd_grants db)" for r
    using assms(3) assms(4) [of r] inj [OF that] by blast
  then show ?thesis using assms(5) by (simp add: allowances_def update_grants_def)
qed

lemma reserve_spend_Inr:
  assumes "reserve_spend now i a s = (Inr g', s')" "grants_ok (gs_working s)"
  shows "\<exists>g \<in> set (gd_grants (gs_working s)). sg_id g = i \<and> can_reserve now i a g \<and> sg_id g' = i \<and> 0 < a
    \<and> gs_committed s' = gs_committed s \<and> gd_reservations (gs_working s') = gd_reservations (gs_working s)
    \<and> allowances (gs_working s') = map (\<lambda>(j, u). (j, if j = i then u + a else u)) (allowances (gs_working s))"
proof -
  let ?P = "can_reserve now i a" and ?f = "\<lambda>g. g\<lparr>sg_used := sg_used g + a, sg_last_used := Some now\<rparr>"
  let ?db = "snd (update_grants ?P ?f (gs_working s))"
  from assms(1) have a: "0 < a" and one: "length (filter ?P (gd_grants (gs_working s))) = 1" and g': "get_grant i ?db = Some g'"
    and s': "s' = s\<lparr>gs_working := record_event i (sg_owner g') (sg_agent g') ''spend'' (Some a) None ?db\<rparr>"
    by (auto simp: reserve_spend_def update_grants_def split: if_splits option.splits)
  from one obtain g where "filter ?P (gd_grants (gs_working s)) = [g]" by (cases "filter ?P (gd_grants (gs_working s))") auto
  then have g: "g \<in> set (gd_grants (gs_working s))" "?P g" by (auto simp: filter_eq_Cons_iff)
  then have id: "sg_id g = i" by (simp add: can_reserve_def)
  have "allowances ?db = map (\<lambda>(j, u). (j, if j = sg_id g then u + a else u)) (allowances (gs_working s))"
    by (rule allowances_update) (use assms(2) g in \<open>auto simp: grants_ok_def can_reserve_def\<close>)
  moreover have "gd_reservations ?db = gd_reservations (gs_working s)" by (simp add: update_grants_def)
  moreover have "sg_id g' = i" using g' by (auto simp: get_grant_def find_Some_iff)
  ultimately show ?thesis using g a id s' by auto
qed

lemma release_allowances:
  assumes "grants_ok (gs_working s)" "g \<in> set (gd_grants (gs_working s))" "0 < a" "sg_used g \<ge> a - GRANT_EPS"
  shows "allowances (gs_working (release_spend (sg_id g) a s)) =
      map (\<lambda>(j, u). (j, if j = sg_id g then u + - a else u)) (allowances (gs_working s))"
    and "gd_reservations (gs_working (release_spend (sg_id g) a s)) = gd_reservations (gs_working s)"
proof -
  have "allowances (snd (update_grants (can_release (sg_id g) a) (\<lambda>g. g\<lparr>sg_used := sg_used g - a\<rparr>) (gs_working s))) =
      map (\<lambda>(j, u). (j, if j = sg_id g then u + - a else u)) (allowances (gs_working s))"
    by (rule allowances_update) (use assms in \<open>auto simp: grants_ok_def can_release_def\<close>)
  then show "allowances (gs_working (release_spend (sg_id g) a s)) =
      map (\<lambda>(j, u). (j, if j = sg_id g then u + - a else u)) (allowances (gs_working s))"
    using assms(3) by (simp add: release_spend_def)
  show "gd_reservations (gs_working (release_spend (sg_id g) a s)) = gd_reservations (gs_working s)"
    using assms(3) by (simp add: release_spend_def update_grants_def)
qed

lemma allowances_undo:
  "map (\<lambda>(j, u). (j, if j = i then u + - a else u)) (map (\<lambda>(j, u). (j, if j = i then u + a else u)) xs) = (xs :: (string \<times> rat) list)"
  by (induction xs) (auto split: prod.splits)

lemma allowances_mem: "(i, u) \<in> set (allowances db) \<longleftrightarrow> (\<exists>g \<in> set (gd_grants db). sg_id g = i \<and> sg_used g = u)"
  by (auto simp: allowances_def)

text \<open>A reservation that is released leaves every allowance as it was.\<close>

lemma reserve_release:
  assumes "reserve_spend now i a s = (Inr g', s')" "session_ok s"
  shows "allowances (gs_working (release_spend i a s')) = allowances (gs_working s)"
    and "gd_reservations (gs_working (release_spend i a s')) = gd_reservations (gs_working s)"
proof -
  have ok: "grants_ok (gs_working s)" using assms(2) by (simp add: session_ok_def)
  have ok': "grants_ok (gs_working s')" using keeps_okD [OF keeps_reserve_spend assms(2,1)] by (simp add: session_ok_def)
  obtain g where g: "g \<in> set (gd_grants (gs_working s))" "sg_id g = i" "0 < a"
    and res: "gd_reservations (gs_working s') = gd_reservations (gs_working s)"
    and all: "allowances (gs_working s') = map (\<lambda>(j, u). (j, if j = i then u + a else u)) (allowances (gs_working s))"
    using reserve_spend_Inr [OF assms(1) ok] by blast
  have "(i, sg_used g) \<in> set (allowances (gs_working s))" using g by (auto simp: allowances_mem)
  then have "(i, sg_used g + a) \<in> set (allowances (gs_working s'))" unfolding all by force
  then obtain h where h: "h \<in> set (gd_grants (gs_working s'))" "sg_id h = i" "sg_used h = sg_used g + a" by (auto simp: allowances_mem)
  have "- GRANT_EPS \<le> sg_used g" using ok g(1) by (simp add: grants_ok_def grant_ok_def)
  with h(3) have low: "sg_used h \<ge> a - GRANT_EPS" by simp
  show "allowances (gs_working (release_spend i a s')) = allowances (gs_working s)"
    using release_allowances(1) [OF ok' h(1) g(3) low] all h(2) by (simp only: allowances_undo)
  show "gd_reservations (gs_working (release_spend i a s')) = gd_reservations (gs_working s)"
    using release_allowances(2) [OF ok' h(1) g(3) low] res h(2) by simp
qed

lemma gate_Inl:
  assumes "assert_spend_allowed now ag tok a ow s = (Inl e, s')"
  shows "allowances (gs_committed s') = allowances (gs_committed s) \<and> gd_reservations (gs_committed s') = gd_reservations (gs_committed s)"
  using assms by (auto simp: assert_spend_allowed_def record_deny_safe_def split: list.splits option.splits)

lemma gate_Inr:
  assumes "assert_spend_allowed now ag tok a ow s = (Inr g, s')"
  shows "s' = s \<and> g \<in> set (gd_grants (gs_working s)) \<and> sg_agent g = ag \<and> covers_spend now tok a g"
proof -
  from assms have *: "find (covers_spend now tok a) (active_grants ag ow (gs_working s)) = Some g" "s' = s"
    by (auto simp: assert_spend_allowed_def split: list.splits option.splits)
  then have "g \<in> set (active_grants ag ow (gs_working s)) \<and> covers_spend now tok a g" by (auto simp: find_Some_iff)
  then show ?thesis using * by (simp add: active_grants_def)
qed

lemma reserve_Inl:
  assumes "reserve_spend now i a s = (Inl e, s')"
  shows "allowances (gs_committed s') = allowances (gs_committed s) \<and> gd_reservations (gs_committed s') = gd_reservations (gs_committed s)"
  using assms by (auto simp: reserve_spend_def record_deny_safe_def split: if_splits option.splits prod.splits)

definition lock_outcome :: "int \<Rightarrow> string \<Rightarrow> string \<Rightarrow> rat \<Rightarrow> Grants_DB \<Rightarrow> grant_error + int \<Rightarrow> Grants_DB \<Rightarrow> bool" where
  "lock_outcome now agent token h db r db' \<longleftrightarrow>
     (case r of
        Inl _ \<Rightarrow> allowances db' = allowances db \<and> gd_reservations db' = gd_reservations db
      | Inr bill \<Rightarrow>
          list_ex (\<lambda>g. sg_agent g = agent \<and> sg_status g = ''active'' \<and> covers_spend now (Some token) h g
              \<and> sg_used g + h \<le> sg_total g + GRANT_EPS
              \<and> allowances db' = map (\<lambda>(j, u). (j, if j = sg_id g then u + h else u)) (allowances db)
              \<and> gd_reservations db' = gd_reservations db @ [\<lparr>rv_bill = bill, rv_grant = sg_id g, rv_agent = agent, rv_amount = h\<rparr>])
            (gd_grants db))"

lemma lock_reserved:
  assumes db: "grants_ok db" and s: "s = \<lparr>gs_committed = db, gs_working = db\<rparr>" and h: "h = of_int amount / 10 ^ 6"
    and gate: "assert_spend_allowed now (or_empty agent) (Some token) h None s = (Inr sel, s)"
    and res: "reserve_spend now (sg_id sel) h s = (Inr g', s2)" and ag: "or_empty agent \<noteq> []"
    and req: "grant_request (lock_route True now agent token amount ''agent'' chain_lock) db = (r, db')"
  shows "lock_outcome now (or_empty agent) token h db r db'"
proof -
  have h': "rat_of_int amount / 1000000 = h" by (simp add: h)
  have ok: "session_ok s" using db s by (simp add: session_ok_def)
  then have okw: "grants_ok (gs_working s)" by (simp add: session_ok_def)
  obtain g where g: "g \<in> set (gd_grants db)" "sg_id g = sg_id sel" "can_reserve now (sg_id sel) h g" "sg_id g' = sg_id sel"
    and s2: "gs_committed s2 = db" "gd_reservations (gs_working s2) = gd_reservations db"
      "allowances (gs_working s2) = map (\<lambda>(j, u). (j, if j = sg_id sel then u + h else u)) (allowances db)"
    using reserve_spend_Inr [OF res okw] s by auto
  have sel: "sel \<in> set (gd_grants db)" "sg_agent sel = or_empty agent" "covers_spend now (Some token) h sel"
    using gate_Inr [OF gate] s by auto
  have "g = sel" using db g(1,2) sel(1) by (auto simp: grants_ok_def distinct_map dest: inj_onD)
  note un = reserve_release [OF res ok]
  show ?thesis
  proof (cases chain_lock)
    case (Inl e)
    then have "r = Inl (HTTP_Error 502 (''on-chain lock failed: '' @ e))" "db' = gs_working (release_spend (sg_id sel) h s2)"
      using req gate res ag s g(4) by (auto simp: h' grant_request_def lock_route_def Let_def)
    then show ?thesis using un s by (simp add: lock_outcome_def)
  next
    case (Inr bill)
    show ?thesis
    proof (cases "bill \<in> rv_bill ` set (gd_reservations (gs_working s2))")
      case True
      then have "db' = db" "\<exists>e. r = Inl e"
        using req gate res ag s Inr s2 by (auto simp: h' grant_request_def lock_route_def Let_def link_bill_to_grant_def)
      then show ?thesis by (auto simp: lock_outcome_def)
    next
      case False
      let ?row = "\<lparr>rv_bill = bill, rv_grant = sg_id sel, rv_agent = or_empty agent, rv_amount = h\<rparr>"
      have "r = Inr bill \<and> db' = (gs_working s2)\<lparr>gd_reservations := gd_reservations (gs_working s2) @ [?row]\<rparr>"
        using False req gate res ag s Inr g(4) by (auto simp: h' grant_request_def lock_route_def Let_def link_bill_to_grant_def)
      then have "r = Inr bill" "gd_reservations db' = gd_reservations db @ [?row]" "allowances db' = allowances (gs_working s2)"
        using s2 by (simp_all add: allowances_def)
      then show ?thesis using \<open>g = sel\<close> g(3) sel s2(3) by (auto simp: lock_outcome_def list_ex_iff can_reserve_def)
    qed
  qed
qed

text \<open>C5. A lock by an agent that raises leaves every allowance and every reservation as it was, whether the gate, the
  reservation, the chain or the link of the bill raised. A lock that returns charged its amount to exactly one active
  grant of that agent, which covers it, and recorded the bill under that grant.\<close>

theorem lock_spends_once:
  assumes "grants_ok db"
    and "grant_request (lock_route True now agent token amount ''agent'' chain_lock) db = (r, db')"
  shows "lock_outcome now (or_empty agent) token (of_int amount / 10 ^ 6) db r db'"
proof -
  define s h where s: "s = \<lparr>gs_committed = db, gs_working = db\<rparr>" and h: "h = (of_int amount / 10 ^ 6 :: rat)"
  obtain r1 s1 where 1: "assert_spend_allowed now (or_empty agent) (Some token) h None s = (r1, s1)" by force
  consider "or_empty agent = []" | e where "or_empty agent \<noteq> []" "r1 = Inl e" | sel where "or_empty agent \<noteq> []" "r1 = Inr sel"
    by (cases r1) auto
  then show ?thesis
  proof cases
    case 1
    with assms(2) show ?thesis by (auto simp: grant_request_def lock_route_def lock_outcome_def)
  next
    case (2 e)
    with 1 gate_Inl [of now "or_empty agent" "Some token" h None s e s1] assms(2)
    show ?thesis by (auto simp: grant_request_def lock_route_def lock_outcome_def Let_def s h)
  next
    case (3 sel)
    with 1 have gate: "assert_spend_allowed now (or_empty agent) (Some token) h None s = (Inr sel, s)" using gate_Inr by blast
    obtain r2 s2 where 2: "reserve_spend now (sg_id sel) h s = (r2, s2)" by force
    show ?thesis
    proof (cases r2)
      case (Inl e)
      with 3 gate 2 reserve_Inl [of now "sg_id sel" h s e s2] assms(2)
      show ?thesis by (auto simp: grant_request_def lock_route_def lock_outcome_def Let_def s h)
    next
      case (Inr g')
      with 2 show ?thesis using lock_reserved [OF assms(1) s h gate _ 3(1) assms(2)] h by simp
    qed
  qed
qed

text \<open>A grant of five tokens, three per payment, signed by its owner; two payments of three tokens.\<close>

definition owner_wallet :: string where
  "owner_wallet = ''0x'' @ replicate 40 (CHR ''0'')"

definition owner_recover :: "string \<Rightarrow> string \<Rightarrow> string option" where
  "owner_recover message b = Some owner_wallet"

definition owner_sig :: string where
  "owner_sig = ''aa'' @ replicate 126 (CHR '' '') @ ''bb''"

definition sample_create :: "SpendingGrant grant_op" where
  "sample_create = create_grant owner_recover (\<lambda>_. ''5.0'') (\<lambda>_. None) 10 ''owner'' owner_wallet owner_sig ''agent'' None None ''USDC'' None
     5 3 [] None ''n'' ''g1''"

definition sample_db :: Grants_DB where
  "sample_db = snd (grant_request sample_create no_grants)"

definition sample_lock :: "(string + int) \<Rightarrow> Grants_DB \<Rightarrow> (grant_error + int) \<times> Grants_DB" where
  "sample_lock = (\<lambda>chain. grant_request (lock_route True 20 (Some ''agent'') ''0xT'' 3000000 ''agent'' chain))"

lemma sample_step:
  "grant_step no_grants sample_db" "grant_step db (snd (sample_lock ch db))"
  using grant_step.created [OF surjective_pairing] grant_step.locked [OF surjective_pairing]
  by (simp_all add: sample_db_def sample_create_def sample_lock_def)

theorem lock_spends_once_witness:
  "lock_outcome 20 ''agent'' ''0xT'' 3 sample_db (fst (sample_lock (Inr 7) sample_db)) (snd (sample_lock (Inr 7) sample_db))
   \<and> fst (sample_lock (Inr 7) sample_db) = Inr 7
   \<and> lock_outcome 20 ''agent'' ''0xT'' 3 sample_db (fst (sample_lock (Inl ''gas'') sample_db)) (snd (sample_lock (Inl ''gas'') sample_db))
   \<and> isl (fst (sample_lock (Inl ''gas'') sample_db))"
proof -
  have "grants_ok sample_db" by code_simp
  note t = lock_spends_once [OF this surjective_pairing, where agent = "Some ''agent''" and amount = 3000000 and now = 20 and token = "''0xT''"]
  have "fst (sample_lock (Inr 7) sample_db) = Inr 7" "isl (fst (sample_lock (Inl ''gas'') sample_db))" by code_simp+
  with t [of "Inr 7"] t [of "Inl ''gas''"] show ?thesis by (simp add: sample_lock_def or_empty_def)
qed



section \<open>Where the limit does not hold\<close>

lemma record_spend_row:
  assumes "get_grant i (gs_working s) = Some g"
  shows "get_grant i (gs_working (record_spend now i a ow ag s)) = Some (g\<lparr>sg_used := sg_used g + a, sg_last_used := Some now\<rparr>)"
proof -
  have "find (\<lambda>g. sg_id g = i) (map (\<lambda>g. if sg_id g = i then g\<lparr>sg_used := sg_used g + a, sg_last_used := Some now\<rparr> else g) gs) =
      map_option (\<lambda>g. g\<lparr>sg_used := sg_used g + a, sg_last_used := Some now\<rparr>) (find (\<lambda>g. sg_id g = i) gs)" for gs :: "SpendingGrant list"
    by (induction gs) auto
  with assms show ?thesis by (simp add: record_spend_def update_grants_def get_grant_def record_event_def)
qed

text \<open>C40. The gate and the later record of a spend are not one step: where a payment that the gate allows is more
  than half of what is left of its grant, two requests that pass the gate before either is recorded take the grant past its limit.\<close>

theorem gate_then_record_overspends:
  assumes "grants_ok db" "assert_spend_allowed now ag tok a ow \<lparr>gs_committed = db, gs_working = db\<rparr> = (Inr g, s)"
    and "sg_total g - sg_used g < 2 * a"
  shows "\<exists>h. get_grant (sg_id g) (gs_working (record_spend t2 (sg_id g) a o2 a2 (record_spend t1 (sg_id g) a o1 a1 s))) = Some h
    \<and> sg_total h < sg_used h"
proof -
  have g: "g \<in> set (gd_grants db)" "s = \<lparr>gs_committed = db, gs_working = db\<rparr>" using gate_Inr [OF assms(2)] by auto
  have "get_grant (sg_id g) db \<noteq> None" using g(1) by (auto simp: get_grant_def find_None_iff)
  then obtain h where h: "get_grant (sg_id g) db = Some h" by auto
  then have "h \<in> set (gd_grants db)" "sg_id h = sg_id g" by (auto simp: get_grant_def find_Some_iff)
  then have "h = g" using assms(1) g(1) by (auto simp: grants_ok_def distinct_map dest: inj_onD)
  with h g(2) have "get_grant (sg_id g) (gs_working s) = Some g" by simp
  from record_spend_row [OF record_spend_row [OF this]] assms(3) show ?thesis by simp
qed

theorem gate_then_record_overspends_witness:
  "\<exists>h. get_grant ''g1'' (gs_working (record_spend 22 ''g1'' 3 None None (record_spend 21 ''g1'' 3 None None
      \<lparr>gs_committed = sample_db, gs_working = sample_db\<rparr>))) = Some h \<and> sg_total h < sg_used h"
proof -
  let ?s = "\<lparr>gs_committed = sample_db, gs_working = sample_db\<rparr>" and ?g = "hd (gd_grants sample_db)"
  have ok: "grants_ok sample_db" by code_simp
  have "assert_spend_allowed 20 ''agent'' None 3 None ?s = (Inr ?g, ?s)"
    "sg_total ?g - sg_used ?g < 2 * 3" "sg_id ?g = ''g1''" by code_simp+
  with gate_then_record_overspends [OF ok, of 20 "''agent''" None 3 None ?g ?s 22 None None 21 None None]
  show ?thesis by (simp only:)
qed

text \<open>The text of a pause or resume has no nonce: one signature serves every later time.\<close>

lemma resume_signature_reused:
  assumes "resume_route recover now wallet signature (Some g) s = (Inr (), s')"
    and "sg_id g' = sg_id g" "sg_owner_wallet g' = sg_owner_wallet g" "sg_status g' = ''paused''" "\<not> grant_expired now' g'"
  shows "fst (resume_route recover now' wallet signature (Some g') t) = Inr ()"
proof -
  have "verify_owner recover (action_message ''resume'' (sg_id g) wallet) g wallet signature = Inr ()"
    using assms(1) by (auto simp: resume_route_def grant_action_def split: sum.splits)
  then have "verify_owner recover (action_message ''resume'' (sg_id g') wallet) g' wallet signature = Inr ()"
    unfolding verify_owner_def assms(2,3) .
  with assms(4,5) show ?thesis by (simp add: resume_route_def grant_action_def resume_grant_def)
qed

text \<open>A resume that loaded the paused grant before a revocation was committed makes the revoked grant active again.\<close>

lemma stale_resume_undoes_revoke:
  assumes "get_grant (sg_id g) db = Some g" "sg_status g = ''paused''" "\<not> grant_expired now g"
    and "verify_owner recover (action_message ''revoke'' (sg_id g) wallet) g wallet sig1 = Inr ()"
    and "verify_owner recover (action_message ''resume'' (sg_id g) wallet) g wallet sig2 = Inr ()"
  shows "\<exists>db1 r db2 h. grant_request (revoke_route recover now wallet sig1 reason (Some g)) db = (Inr (), db1)
    \<and> get_grant (sg_id g) db1 = Some r \<and> sg_status r = ''revoked''
    \<and> grant_request (resume_route recover now wallet sig2 (Some g)) db1 = (Inr (), db2)
    \<and> get_grant (sg_id g) db2 = Some h \<and> sg_status h = ''active''"
proof -
  have row: "get_grant i (write_grant i f db) = map_option f (get_grant i db)" if "\<And>r. sg_id (f r) = sg_id r" for i f db
  proof -
    have "find (\<lambda>g. sg_id g = i) (map (\<lambda>g. if sg_id g = i then f g else g) gs) = map_option f (find (\<lambda>g. sg_id g = i) gs)" for gs
      using that by (induction gs) auto
    then show ?thesis by (simp add: write_grant_def update_grants_def get_grant_def)
  qed
  show ?thesis using assms
    by (simp add: grant_request_def revoke_route_def resume_route_def grant_action_def revoke_grant_def resume_grant_def Let_def row)
qed

text \<open>The gate stands only before a lock that calls itself an agent's.\<close>

lemma lock_other_role_ungated:
  "role \<noteq> ''agent'' \<Longrightarrow> grant_request (lock_route True now agent token amount role (Inr bill)) db = (Inr bill, db)"
  by (simp add: lock_route_def grant_request_def)

end
