(* ===== verification/Runtime_Spend.thy ===== *)
theory Runtime_Spend
  imports Complex_Main Lifecycle
begin

text \<open>
  The daily limit of a runtime key (\<^verbatim>\<open>services/runtime_daily_spend.py\<close>) and the counters in memory it falls back to
  (\<^verbatim>\<open>services/runtime_key_service.py\<close>).

  A statement of the database is one step on the table; what other sessions commit between the statements of an
  operation is the argument \<open>env\<close>, a function of the round and of the place in it. The date is an argument: it is read
  from the clock by each operation.
\<close>

section \<open>Tables\<close>

record DailySpend =
  dr_key :: string
  dr_date :: string
  dr_used :: rat

type_synonym spend_rows = "DailySpend list"
type_synonym spend_memory = "string \<Rightarrow> string \<Rightarrow> rat"
type_synonym spend_env = "nat \<Rightarrow> nat \<Rightarrow> spend_rows \<Rightarrow> spend_rows"

datatype limit_error = Not_Positive | Above_Single_Limit | Above_Daily_Limit

definition SPEND_EPS :: rat where
  "SPEND_EPS = 1 / 10 ^ 9"

section \<open>Counters in memory\<close>

definition get_daily_used :: "spend_memory \<Rightarrow> string \<Rightarrow> string \<Rightarrow> rat" where
  "get_daily_used mem today key_id = mem key_id today"

definition record_daily_spend :: "string \<Rightarrow> string \<Rightarrow> rat \<Rightarrow> spend_memory \<Rightarrow> spend_memory" where
  "record_daily_spend today key_id amount mem = mem(key_id := (mem key_id)(today := mem key_id today + amount))"

definition check_single_and_daily_limits ::
  "spend_memory \<Rightarrow> string \<Rightarrow> string \<Rightarrow> rat \<Rightarrow> rat \<Rightarrow> rat \<Rightarrow> rat option \<Rightarrow> limit_error + unit" where
  "check_single_and_daily_limits mem today key_id amount single_limit daily_limit daily_used =
     (if amount \<le> 0 then Inl Not_Positive
      else if amount > single_limit + SPEND_EPS then Inl Above_Single_Limit
      else let used = (case daily_used of Some u \<Rightarrow> u | None \<Rightarrow> mem key_id today)
           in if used + amount > daily_limit + SPEND_EPS then Inl Above_Daily_Limit else Inr ())"

section \<open>Rows of the day\<close>

definition is_row :: "string \<Rightarrow> string \<Rightarrow> DailySpend \<Rightarrow> bool" where
  "is_row key_id today r \<longleftrightarrow> dr_key r = key_id \<and> dr_date r = today"

definition get_row :: "string \<Rightarrow> string \<Rightarrow> spend_rows \<Rightarrow> DailySpend option" where
  "get_row key_id today rows = find (is_row key_id today) rows"

definition get_daily_used_async :: "bool \<Rightarrow> string \<Rightarrow> string \<Rightarrow> spend_rows \<Rightarrow> spend_memory \<Rightarrow> rat" where
  "get_daily_used_async persist today key_id rows mem =
     (if \<not> persist then get_daily_used mem today key_id
      else case get_row key_id today rows of Some r \<Rightarrow> dr_used r | None \<Rightarrow> get_daily_used mem today key_id)"

text \<open>\<^verbatim>\<open>UPDATE runtime_key_daily_spend SET amount_used = amount_used + \<dots>\<close>, with the number of rows it matched.\<close>

definition update_used :: "(DailySpend \<Rightarrow> bool) \<Rightarrow> rat \<Rightarrow> spend_rows \<Rightarrow> nat \<times> spend_rows" where
  "update_used P amount rows =
     (length (filter P rows), map (\<lambda>r. if P r then r\<lparr>dr_used := dr_used r + amount\<rparr> else r) rows)"

text \<open>An INSERT under a savepoint; \<open>None\<close> is the IntegrityError of the primary key.\<close>

definition insert_row :: "string \<Rightarrow> string \<Rightarrow> rat \<Rightarrow> spend_rows \<Rightarrow> spend_rows option" where
  "insert_row key_id today amount rows =
     (if get_row key_id today rows = None then Some (rows @ [\<lparr>dr_key = key_id, dr_date = today, dr_used = amount\<rparr>]) else None)"

fun add_amount :: "nat \<Rightarrow> spend_env \<Rightarrow> string \<Rightarrow> string \<Rightarrow> rat \<Rightarrow> spend_rows \<Rightarrow> spend_rows" where
  "add_amount 0 env today key_id amount rows = rows"
| "add_amount (Suc n) env today key_id amount rows =
     (case update_used (is_row key_id today) amount rows of
        (m, rows1) \<Rightarrow>
          if m = 1 then rows1
          else let rows2 = env n 0 rows1
               in case insert_row key_id today amount rows2 of
                    Some rows3 \<Rightarrow> rows3
                  | None \<Rightarrow> add_amount n env today key_id amount (env n 1 rows2))"

definition record_daily_spend_async ::
  "bool \<Rightarrow> spend_env \<Rightarrow> string \<Rightarrow> string \<Rightarrow> rat \<Rightarrow> spend_rows \<times> spend_memory \<Rightarrow> spend_rows \<times> spend_memory" where
  "record_daily_spend_async persist env today key_id amount s =
     (let mem = record_daily_spend today key_id amount (snd s)
      in if \<not> persist then (fst s, mem) else (add_amount 2 env today key_id amount (fst s), mem))"

section \<open>Reserving and releasing\<close>

definition has_room :: "string \<Rightarrow> string \<Rightarrow> rat \<Rightarrow> rat \<Rightarrow> DailySpend \<Rightarrow> bool" where
  "has_room key_id today amount limit r \<longleftrightarrow> is_row key_id today r \<and> dr_used r + amount \<le> limit + SPEND_EPS"

fun reserve_rounds :: "nat \<Rightarrow> spend_env \<Rightarrow> string \<Rightarrow> string \<Rightarrow> rat \<Rightarrow> rat \<Rightarrow> spend_rows \<Rightarrow> bool \<times> spend_rows" where
  "reserve_rounds 0 env today key_id amount limit rows = (False, rows)"
| "reserve_rounds (Suc n) env today key_id amount limit rows =
     (case update_used (has_room key_id today amount limit) amount rows of
        (m, rows1) \<Rightarrow>
          if m = 1 then (True, rows1)
          else let rows2 = env n 0 rows1
               in if get_row key_id today rows2 \<noteq> None then (False, rows2)
                  else if amount > limit + SPEND_EPS then (False, rows2)
                  else let rows3 = env n 1 rows2
                       in case insert_row key_id today amount rows3 of
                            Some rows4 \<Rightarrow> (True, rows4)
                          | None \<Rightarrow> reserve_rounds n env today key_id amount limit (env n 2 rows3))"

definition try_reserve_daily_spend ::
  "bool \<Rightarrow> spend_env \<Rightarrow> string \<Rightarrow> string \<Rightarrow> rat \<Rightarrow> rat \<Rightarrow> spend_rows \<times> spend_memory \<Rightarrow> bool \<times> spend_rows \<times> spend_memory" where
  "try_reserve_daily_spend persist env today key_id amount daily_limit s =
     (case s of (rows, mem) \<Rightarrow>
        if \<not> persist
        then if get_daily_used mem today key_id + amount > daily_limit + SPEND_EPS then (False, rows, mem)
             else (True, rows, record_daily_spend today key_id amount mem)
        else case reserve_rounds 2 env today key_id amount daily_limit rows of
               (ok, rows1) \<Rightarrow> (ok, rows1, if ok then record_daily_spend today key_id amount mem else mem))"

definition can_give_back :: "string \<Rightarrow> string \<Rightarrow> rat \<Rightarrow> DailySpend \<Rightarrow> bool" where
  "can_give_back key_id today amount r \<longleftrightarrow> is_row key_id today r \<and> dr_used r \<ge> amount - SPEND_EPS"

definition release_daily_spend ::
  "bool \<Rightarrow> string \<Rightarrow> string \<Rightarrow> rat \<Rightarrow> spend_rows \<times> spend_memory \<Rightarrow> spend_rows \<times> spend_memory" where
  "release_daily_spend persist today key_id amount s =
     (case s of (rows, mem) \<Rightarrow>
        if amount \<le> 0 then (rows, mem)
        else (if persist then snd (update_used (can_give_back key_id today amount) (- amount) rows) else rows,
              record_daily_spend today key_id (- amount) mem))"

section \<open>Statements on the table\<close>

definition rows_ok :: "spend_rows \<Rightarrow> bool" where
  "rows_ok rows \<longleftrightarrow> distinct (map (\<lambda>r. (dr_key r, dr_date r)) rows)"

definition used_on :: "string \<Rightarrow> string \<Rightarrow> spend_rows \<Rightarrow> rat" where
  "used_on k d rows = (case get_row k d rows of Some r \<Rightarrow> dr_used r | None \<Rightarrow> 0)"

text \<open>What a reservation does to the table in its one writing statement.\<close>

definition reserve_stmt :: "string \<Rightarrow> string \<Rightarrow> rat \<Rightarrow> rat \<Rightarrow> spend_rows \<Rightarrow> spend_rows \<Rightarrow> bool" where
  "reserve_stmt today key_id amount limit rows rows' \<longleftrightarrow>
     (case get_row key_id today rows of
        Some r \<Rightarrow> dr_used r + amount \<le> limit + SPEND_EPS \<and> rows' = snd (update_used (has_room key_id today amount limit) amount rows)
      | None \<Rightarrow> amount \<le> limit + SPEND_EPS \<and> rows' = rows @ [\<lparr>dr_key = key_id, dr_date = today, dr_used = amount\<rparr>])"

lemma get_row_None: "get_row k d rows = None \<longleftrightarrow> (\<forall>r \<in> set rows. \<not> is_row k d r)"
  by (auto simp: get_row_def find_None_iff)

lemma get_row_Some: "get_row k d rows = Some r \<Longrightarrow> r \<in> set rows \<and> is_row k d r"
  by (auto simp: get_row_def find_Some_iff)

lemma get_row_append: "get_row k d (xs @ [r]) = (case get_row k d xs of Some q \<Rightarrow> Some q | None \<Rightarrow> if is_row k d r then Some r else None)"
  by (induction xs) (auto simp: get_row_def)

lemma get_row_map:
  assumes "\<And>r. dr_key (f r) = dr_key r \<and> dr_date (f r) = dr_date r"
  shows "get_row k d (map f rows) = map_option f (get_row k d rows)"
  using assms by (induction rows) (auto simp: get_row_def is_row_def)

lemma row_unique:
  assumes "rows_ok rows" "get_row k d rows = Some r" "q \<in> set rows" "is_row k d q"
  shows "q = r"
  using assms get_row_Some [OF assms(2)] by (auto simp: rows_ok_def distinct_map is_row_def dest: inj_onD)

lemma matches_one:
  assumes "rows_ok rows" "get_row k d rows = Some r" "\<And>q. P q \<Longrightarrow> is_row k d q"
  shows "length (filter P rows) = (if P r then 1 else 0)"
proof -
  have "distinct rows" using assms(1) by (auto simp: rows_ok_def distinct_map)
  have "set (filter P rows) = (if P r then {r} else {})"
    using assms row_unique [OF assms(1,2)] get_row_Some [OF assms(2)] by auto
  then have "card (set (filter P rows)) = (if P r then 1 else 0)" by simp
  with \<open>distinct rows\<close> show ?thesis by (metis distinct_card distinct_filter)
qed

lemma matches_none: "get_row k d rows = None \<Longrightarrow> (\<And>q. P q \<Longrightarrow> is_row k d q) \<Longrightarrow> filter P rows = []"
  by (auto simp: get_row_None filter_empty_conv)

lemma update_used_rows [simp]:
  "rows_ok (snd (update_used P a rows)) = rows_ok rows"
  by (simp add: rows_ok_def update_used_def comp_def if_distrib [of dr_key] if_distrib [of dr_date] cong: if_cong)

lemma update_used_none: "filter P rows = [] \<Longrightarrow> snd (update_used P a rows) = rows"
  by (simp add: update_used_def filter_empty_conv map_idI)

lemma used_on_update:
  assumes "rows_ok rows" "get_row k d rows = Some r" "P r" "\<And>q. P q \<Longrightarrow> is_row k d q"
  shows "used_on k' d' (snd (update_used P a rows)) = used_on k' d' rows + (if k' = k \<and> d' = d then a else 0)"
proof -
  have g: "get_row k' d' (snd (update_used P a rows)) = map_option (\<lambda>r. if P r then r\<lparr>dr_used := dr_used r + a\<rparr> else r) (get_row k' d' rows)"
    by (simp add: update_used_def get_row_map)
  show ?thesis
  proof (cases "k' = k \<and> d' = d")
    case True
    with g assms(2,3) show ?thesis by (simp add: used_on_def)
  next
    case False
    have "\<not> P q" if "get_row k' d' rows = Some q" for q
      using False assms(4) [of q] get_row_Some [OF that] by (auto simp: is_row_def)
    with g False show ?thesis by (auto simp: used_on_def split: option.split)
  qed
qed

lemma reserve_stmt_used:
  assumes "reserve_stmt d k a l rows rows'" "rows_ok rows"
  shows "rows_ok rows'" "used_on k' d' rows' = used_on k' d' rows + (if k' = k \<and> d' = d then a else 0)"
    "used_on k d rows + a \<le> l + SPEND_EPS"
proof -
  consider r where "get_row k d rows = Some r" "dr_used r + a \<le> l + SPEND_EPS" "rows' = snd (update_used (has_room k d a l) a rows)"
    | "get_row k d rows = None" "a \<le> l + SPEND_EPS" "rows' = rows @ [\<lparr>dr_key = k, dr_date = d, dr_used = a\<rparr>]"
    using assms(1) by (auto simp: reserve_stmt_def split: option.splits)
  then have "rows_ok rows' \<and> used_on k' d' rows' = used_on k' d' rows + (if k' = k \<and> d' = d then a else 0)
    \<and> used_on k d rows + a \<le> l + SPEND_EPS"
  proof cases
    case (1 r)
    with get_row_Some have "has_room k d a l r" by (auto simp: has_room_def)
    with 1 assms(2) used_on_update [OF assms(2) 1(1), of "has_room k d a l" k' d' a] show ?thesis
      by (simp add: has_room_def used_on_def)
  next
    case 2
    then have "rows_ok rows'" using assms(2) by (auto simp: rows_ok_def get_row_None is_row_def)
    with 2 show ?thesis by (auto simp: used_on_def get_row_append is_row_def split: option.split)
  qed
  then show "rows_ok rows'" "used_on k' d' rows' = used_on k' d' rows + (if k' = k \<and> d' = d then a else 0)"
    "used_on k d rows + a \<le> l + SPEND_EPS" by auto
qed

section \<open>A reservation is one atomic step among those of other sessions\<close>

text \<open>C13. A reservation takes effect in one statement: whatever other sessions commit between its statements, a reservation
  that returns True is an atomic step that adds the amount to the row of the day within the limit, and one
  that returns False leaves the table to the others.\<close>

theorem reservation_is_atomic:
  assumes "\<And>i j r. rows_ok r \<Longrightarrow> others\<^sup>*\<^sup>* r (env i j r) \<and> rows_ok (env i j r)" "rows_ok rows"
    and "reserve_rounds n env today key_id amount limit rows = (ok, rows')"
  shows "\<exists>r. others\<^sup>*\<^sup>* rows r \<and> rows_ok r \<and> (if ok then reserve_stmt today key_id amount limit r rows' else rows' = r)"
  using assms(2,3)
proof (induction n arbitrary: rows)
  case 0
  then show ?case by auto
next
  case (Suc n)
  let ?P = "has_room key_id today amount limit"
  have P: "\<And>q. ?P q \<Longrightarrow> is_row key_id today q" by (simp add: has_room_def)
  define e0 e1 e2 where "e0 = env n 0 rows" and "e1 = env n 1 e0" and "e2 = env n 2 e1"
  have e0: "others\<^sup>*\<^sup>* rows e0" "rows_ok e0" using assms(1) [OF Suc.prems(1)] by (simp_all add: e0_def)
  have e1: "others\<^sup>*\<^sup>* rows e1" "rows_ok e1" using assms(1) [OF e0(2), of n 1] rtranclp_trans [OF e0(1)] unfolding e1_def by blast+
  have e2: "others\<^sup>*\<^sup>* rows e2" "rows_ok e2" using assms(1) [OF e1(2), of n 2] rtranclp_trans [OF e1(1)] unfolding e2_def by blast+
  consider r where "get_row key_id today rows = Some r" "?P r" | "filter ?P rows = []"
    using matches_none [OF _ P, of rows] matches_one [OF Suc.prems(1) _ P]
    by (cases "get_row key_id today rows") (auto, metis length_0_conv)
  then show ?case
  proof cases
    case (1 r)
    have "length (filter ?P rows) = 1" using matches_one [OF Suc.prems(1) 1(1) P] 1(2) by simp
    then have "ok" "rows' = snd (update_used ?P amount rows)" using Suc.prems(2) by (auto simp: update_used_def)
    with 1 have "reserve_stmt today key_id amount limit rows rows'" by (simp add: reserve_stmt_def has_room_def)
    with \<open>ok\<close> Suc.prems(1) show ?thesis by auto
  next
    case 2
    then have u: "update_used ?P amount rows = (0, rows)" using update_used_none [OF 2, of amount] by (simp add: update_used_def)
    show ?thesis
    proof (cases "get_row key_id today e0 \<noteq> None \<or> amount > limit + SPEND_EPS")
      case True
      with u Suc.prems(2) have "\<not> ok" "rows' = e0" by (auto simp: Let_def e0_def split: if_splits)
      with e0 show ?thesis by auto
    next
      case False
      show ?thesis
      proof (cases "get_row key_id today e1")
        case None
        with False u Suc.prems(2) have "ok" "reserve_stmt today key_id amount limit e1 rows'"
          by (auto simp: Let_def e0_def e1_def insert_row_def reserve_stmt_def)
        with e1 show ?thesis by auto
      next
        case (Some r)
        with False u Suc.prems(2) have "reserve_rounds n env today key_id amount limit e2 = (ok, rows')"
          by (auto simp: Let_def e0_def e1_def e2_def insert_row_def)
        from Suc.IH [OF e2(2) this] e2(1) show ?thesis by (meson rtranclp_trans)
      qed
    qed
  qed
qed

text \<open>Another session inserts the row of the day between the two statements that look for it.\<close>

definition racing :: spend_env where
  "racing i j rows = (if i = 1 \<and> j = 1 then [\<lparr>dr_key = ''k'', dr_date = ''d'', dr_used = 3\<rparr>] else rows)"

theorem reservation_is_atomic_witness:
  "reserve_rounds 2 racing ''d'' ''k'' 5 11 [] = (True, [\<lparr>dr_key = ''k'', dr_date = ''d'', dr_used = 8\<rparr>])
   \<and> (\<exists>r. (\<lambda>_ _. True)\<^sup>*\<^sup>* [] r \<and> rows_ok r \<and> reserve_stmt ''d'' ''k'' 5 11 r [\<lparr>dr_key = ''k'', dr_date = ''d'', dr_used = 8\<rparr>])"
proof -
  have run: "reserve_rounds 2 racing ''d'' ''k'' 5 11 [] = (True, [\<lparr>dr_key = ''k'', dr_date = ''d'', dr_used = 8\<rparr>])" by code_simp
  have "(\<lambda>_ _. True)\<^sup>*\<^sup>* r (racing i j r) \<and> rows_ok (racing i j r)" if "rows_ok r" for i j r
    using that by (auto simp: racing_def rows_ok_def)
  from reservation_is_atomic [OF this _ run] run show ?thesis by (simp add: rows_ok_def)
qed

text \<open>Without interference a reservation succeeds exactly if the amount fits.\<close>

definition alone :: spend_env where
  "alone i j rows = rows"

lemma reserve_alone:
  assumes "rows_ok rows"
  shows "fst (reserve_rounds (Suc n) alone d k a l rows) \<longleftrightarrow> used_on k d rows + a \<le> l + SPEND_EPS"
proof (cases "get_row k d rows")
  case None
  have "filter (has_room k d a l) rows = []" by (rule matches_none [OF None]) (simp add: has_room_def)
  then have "update_used (has_room k d a l) a rows = (0, rows)" using update_used_none [of "has_room k d a l" rows a] by (simp add: update_used_def)
  then show ?thesis using None by (auto simp: alone_def insert_row_def used_on_def Let_def)
next
  case (Some r)
  have "length (filter (has_room k d a l) rows) = (if has_room k d a l r then 1 else 0)"
    by (rule matches_one [OF assms Some]) (simp add: has_room_def)
  moreover have "has_room k d a l r \<longleftrightarrow> used_on k d rows + a \<le> l + SPEND_EPS"
    using Some get_row_Some [OF Some] by (simp add: has_room_def used_on_def)
  moreover have "get_row k d (snd (update_used (has_room k d a l) a rows)) \<noteq> None" using Some by (simp add: update_used_def get_row_map)
  ultimately show ?thesis by (auto simp: alone_def update_used_def Let_def)
qed

text \<open>Recording a spend adds the amount, also where two sessions insert the row of the day at once.\<close>

lemma add_amount_adds:
  assumes env: "\<And>i j r. rows_ok r \<Longrightarrow> others\<^sup>*\<^sup>* r (env i j r) \<and> rows_ok (env i j r)"
    and keep: "\<And>i j r. get_row key_id today r \<noteq> None \<Longrightarrow> get_row key_id today (env i j r) \<noteq> None" and ok: "rows_ok rows"
  shows "\<exists>r. others\<^sup>*\<^sup>* rows r \<and> used_on key_id today (add_amount 2 env today key_id amount rows) = used_on key_id today r + amount"
proof -
  let ?P = "is_row key_id today"
  have hit: "add_amount (Suc n) env today key_id amount r = snd (update_used ?P amount r)
      \<and> used_on key_id today (snd (update_used ?P amount r)) = used_on key_id today r + amount"
    if some: "get_row key_id today r \<noteq> None" and rok: "rows_ok r" for r n
  proof -
    obtain q where q: "get_row key_id today r = Some q" using some by auto
    have "?P q" using get_row_Some [OF q] by simp
    then show ?thesis using matches_one [OF rok q, of ?P] used_on_update [OF rok q, of ?P key_id today amount]
      by (simp add: update_used_def)
  qed
  show ?thesis
  proof (cases "get_row key_id today rows")
    case (Some q)
    then show ?thesis using hit [of rows 1] ok by (auto simp: numeral_2_eq_2)
  next
    case None
    define e where "e = env 1 0 rows"
    have e: "others\<^sup>*\<^sup>* rows e" "rows_ok e" using env [OF ok, of 1 0] by (simp_all add: e_def)
    have "filter ?P rows = []" by (rule matches_none [OF None]) simp
    then have u: "update_used ?P amount rows = (0, rows)" using update_used_none [of ?P rows amount] by (simp add: update_used_def)
    show ?thesis
    proof (cases "get_row key_id today e")
      case None
      then have "used_on key_id today (add_amount 2 env today key_id amount rows) = used_on key_id today e + amount"
        using u by (simp add: numeral_2_eq_2 e_def insert_row_def used_on_def get_row_append is_row_def)
      with e show ?thesis by auto
    next
      case (Some q)
      let ?f = "env 1 1 e"
      have f: "others\<^sup>*\<^sup>* e ?f" "rows_ok ?f" "get_row key_id today ?f \<noteq> None" using env [OF e(2), of 1 1] keep [of e 1 1] Some by auto
      have "add_amount 2 env today key_id amount rows = add_amount (Suc 0) env today key_id amount ?f"
        using u Some by (simp add: numeral_2_eq_2 e_def insert_row_def)
      with hit [OF f(3,2), of 0] rtranclp_trans [OF e(1) f(1)] show ?thesis by auto
    qed
  qed
qed

section \<open>What is spent in a day\<close>

text \<open>The reservations of a key that were not given back, by day; a reservation that led to nothing is given back on its day.\<close>

definition outstanding :: "string \<Rightarrow> string \<Rightarrow> (string \<times> string \<times> rat) list \<Rightarrow> rat" where
  "outstanding k d out = sum_list (map (\<lambda>(k', d', a). if k' = k \<and> d' = d then a else 0) out)"

inductive spend_step ::
  "(string \<Rightarrow> rat) \<Rightarrow> spend_rows \<times> (string \<times> string \<times> rat) list \<Rightarrow> spend_rows \<times> (string \<times> string \<times> rat) list \<Rightarrow> bool" for cap where
  reserved: "0 < a \<Longrightarrow> reserve_stmt d k a (cap k) rows rows' \<Longrightarrow> spend_step cap (rows, out) (rows', (k, d, a) # out)"
| released: "(k, d, a) \<in> set out \<Longrightarrow> release_daily_spend True d k a (rows, mem) = (rows', mem')
    \<Longrightarrow> spend_step cap (rows, out) (rows', remove1 (k, d, a) out)"

definition spend_ok :: "(string \<Rightarrow> rat) \<Rightarrow> spend_rows \<times> (string \<times> string \<times> rat) list \<Rightarrow> bool" where
  "spend_ok cap s \<longleftrightarrow> rows_ok (fst s) \<and> (\<forall>(k, d, a) \<in> set (snd s). 0 < a)
     \<and> (\<forall>k d. used_on k d (fst s) = outstanding k d (snd s) \<and> (outstanding k d (snd s) \<noteq> 0 \<longrightarrow> outstanding k d (snd s) \<le> cap k + SPEND_EPS))"

lemma outstanding_remove:
  assumes "(k, d, a) \<in> set out"
  shows "outstanding k' d' (remove1 (k, d, a) out) = outstanding k' d' out - (if k' = k \<and> d' = d then a else 0)"
  using sum_list_map_remove1 [OF assms, of "\<lambda>(x, y, a). if x = k' \<and> y = d' then a else 0"] by (auto simp: outstanding_def)

lemma outstanding_nonneg: "\<forall>(k, d, a) \<in> set out. 0 < a \<Longrightarrow> 0 \<le> outstanding k d out"
  unfolding outstanding_def by (rule sum_list_nonneg) auto

lemma spend_step_ok:
  assumes "spend_step cap s t" "spend_ok cap s"
  shows "spend_ok cap t"
  using assms
proof (induction rule: spend_step.induct)
  case (reserved a d k rows rows' out)
  then have ok: "rows_ok rows" and used: "\<And>k d. used_on k d rows = outstanding k d out" by (auto simp: spend_ok_def)
  note r = reserve_stmt_used [OF reserved(2) ok]
  have "outstanding k' d' ((k, d, a) # out) = outstanding k' d' out + (if k' = k \<and> d' = d then a else 0)" for k' d'
    by (auto simp: outstanding_def)
  with reserved(1,3) r used show ?case by (auto simp: spend_ok_def)
next
  case (released k d a out rows mem rows' mem')
  then have ok: "rows_ok rows" "\<forall>(k, d, a) \<in> set out. 0 < a" and used: "\<And>k d. used_on k d rows = outstanding k d out"
    and bound: "\<And>k d. outstanding k d out \<noteq> 0 \<Longrightarrow> outstanding k d out \<le> cap k + SPEND_EPS" by (auto simp: spend_ok_def)
  have pos: "0 < a" using ok(2) released(1) by auto
  have sub: "\<forall>(k, d, a) \<in> set (remove1 (k, d, a) out). 0 < a" using ok(2) by (meson notin_set_remove1)
  have le: "a \<le> used_on k d rows"
    using outstanding_nonneg [OF sub, of k d] outstanding_remove [OF released(1), of k d] used by simp
  with pos obtain r where r: "get_row k d rows = Some r" by (cases "get_row k d rows") (auto simp: used_on_def)
  with le get_row_Some [OF r] have can: "can_give_back k d a r" by (simp add: can_give_back_def used_on_def SPEND_EPS_def)
  have rows': "rows' = snd (update_used (can_give_back k d a) (- a) rows)" using released(2) pos by (simp add: release_daily_spend_def)
  have u: "used_on k' d' rows' = used_on k' d' rows + (if k' = k \<and> d' = d then - a else 0)" for k' d'
    unfolding rows' by (rule used_on_update [OF ok(1) r, where P = "can_give_back k d a", OF can]) (simp add: can_give_back_def)
  have "used_on k' d' rows' = outstanding k' d' (remove1 (k, d, a) out)" for k' d'
    using u [of k' d'] outstanding_remove [OF released(1), of k' d'] used [of k' d'] by (simp split: if_splits)
  moreover have "outstanding k' d' (remove1 (k, d, a) out) \<le> cap k' + SPEND_EPS"
    if "outstanding k' d' (remove1 (k, d, a) out) \<noteq> 0" for k' d'
    using that bound [of k' d'] outstanding_nonneg [OF sub, of k' d'] outstanding_remove [OF released(1), of k' d'] pos
    by (cases "k' = k \<and> d' = d") auto
  moreover have "rows_ok rows'" using ok(1) rows' by simp
  ultimately show ?case using sub by (simp add: spend_ok_def)
qed

interpretation daily: kept "spend_step cap" "spend_ok cap" for cap
  by unfold_locales (rule spend_step_ok)



section \<open>Where the limit is missed\<close>

text \<open>A release is booked on the day on which it happens: where midnight lies between a reservation and its release, the
  amount stays used on the first day and an amount is freed on the second day that was not given back there.\<close>

lemma release_after_midnight_overspends:
  assumes "rows_ok rows" "0 < a" "a \<le> used_on k d2 rows" "d1 \<noteq> d2"
    and "used_on k d2 rows + b > cap + SPEND_EPS" "used_on k d2 rows - a + b \<le> cap + SPEND_EPS"
  shows "\<not> fst (try_reserve_daily_spend True alone d2 k b cap (rows, mem))
    \<and> (case release_daily_spend True d2 k a (rows, mem) of (rows1, mem1) \<Rightarrow>
         used_on k d1 rows1 = used_on k d1 rows \<and> fst (try_reserve_daily_spend True alone d2 k b cap (rows1, mem1)))"
proof -
  obtain r where r: "get_row k d2 rows = Some r" using assms(2,3) by (cases "get_row k d2 rows") (auto simp: used_on_def)
  then have can: "can_give_back k d2 a r" using assms(3) get_row_Some [OF r] by (simp add: can_give_back_def used_on_def SPEND_EPS_def)
  define rows1 where "rows1 = snd (update_used (can_give_back k d2 a) (- a) rows)"
  have u: "used_on k' d' rows1 = used_on k' d' rows + (if k' = k \<and> d' = d2 then - a else 0)" for k' d'
    unfolding rows1_def by (rule used_on_update [OF assms(1) r, where P = "can_give_back k d2 a", OF can]) (simp add: can_give_back_def)
  have ok: "rows_ok rows1" using assms(1) by (simp add: rows1_def)
  have "\<not> fst (reserve_rounds 2 alone d2 k b cap rows)" "fst (reserve_rounds 2 alone d2 k b cap rows1)"
    using reserve_alone [OF assms(1), of 1 d2 k b cap] reserve_alone [OF ok, of 1 d2 k b cap] assms(5,6) u [of k d2]
    by (simp_all add: numeral_2_eq_2)
  then show ?thesis using assms(2,4) u [of k d1]
    by (auto simp: try_reserve_daily_spend_def release_daily_spend_def rows1_def split: prod.split)
qed

text \<open>A row that another session inserts between the UPDATE that missed it and the lookup counts as a full one, whatever room it has.\<close>

lemma racing_insert_refused:
  assumes "get_row k d rows = None" "get_row k d (env 1 0 rows) \<noteq> None"
  shows "fst (try_reserve_daily_spend True env d k a cap (rows, mem)) = False"
proof -
  have "filter (has_room k d a cap) rows = []" by (rule matches_none [OF assms(1)]) (simp add: has_room_def)
  then have "update_used (has_room k d a cap) a rows = (0, rows)"
    using update_used_none [of "has_room k d a cap" rows a] by (simp add: update_used_def)
  with assms(2) show ?thesis by (simp add: try_reserve_daily_spend_def numeral_2_eq_2)
qed

text \<open>The memory is not part of the transaction: after a first reservation of the day that is rolled back, the read falls back to
  the memory and still counts it.\<close>

lemma rolled_back_reservation_counted:
  assumes "try_reserve_daily_spend True env d k a cap (rows, mem) = (True, rows', mem')" "get_row k d rows = None"
  shows "get_daily_used_async True d k rows mem' = mem k d + a"
  using assms by (auto simp: try_reserve_daily_spend_def get_daily_used_async_def get_daily_used_def record_daily_spend_def
    split: prod.splits if_splits)

end
