(* ===== verification/Runtime_Nonce.thy ===== *)
theory Runtime_Nonce
  imports Money Json Stores Lifecycle
begin

text \<open>
  The log of nonces of the runtime gateway (\<^verbatim>\<open>services/runtime_nonce_log.py\<close>): a request claims its nonce before it does
  anything, completes it with its answer, and a repeated request gets that answer back; and the helper of
  \<^verbatim>\<open>api/routes/runtime_gateway.py\<close> that calls it.

  Instants are microseconds. The row that an operation found before it writes is an argument, because another
  process may change the table in between; \<open>loads\<close> is the parser of JSON texts, and the text of a payload and the digest of a
  request are arguments.
\<close>

section \<open>The log\<close>

record NonceRow =
  nl_id :: int
  nl_key :: string
  nl_endpoint :: string
  nl_nonce :: string
  nl_hash :: string
  nl_state :: string
  nl_status :: "int option"
  nl_payload :: "string option"
  nl_created :: int

type_synonym nonce_id = "string \<times> string \<times> string"

definition STALE_IN_FLIGHT :: int where
  "STALE_IN_FLIGHT = 120 * 10 ^ 6"

definition PURGE_AFTER :: int where
  "PURGE_AFTER = 7 * 24 * 3600 * 10 ^ 6"

definition MAX_PAYLOAD_CHARS :: nat where
  "MAX_PAYLOAD_CHARS = 200000"

datatype verdict = New bool | Replay int "(string \<times> json) list" | Busy "rat option" | Conflict

datatype nonce_error = Nonce_Required | Stale_Row | Duplicate_Body | Still_In_Flight

definition row_id :: "NonceRow \<Rightarrow> nonce_id" where
  "row_id r = (nl_key r, nl_endpoint r, nl_nonce r)"

definition clean_id :: "nonce_id \<Rightarrow> nonce_id" where
  "clean_id = (\<lambda>(key_id, endpoint, nonce). (strip key_id, take 64 (strip endpoint), strip nonce))"

definition find_nonce :: "nonce_id \<Rightarrow> NonceRow list \<Rightarrow> NonceRow option" where
  "find_nonce i rows = find (\<lambda>r. row_id r = i) rows"

section \<open>Claiming a nonce\<close>

definition purge :: "int \<Rightarrow> NonceRow list \<Rightarrow> NonceRow list" where
  "purge now rows = filter (\<lambda>r. \<not> nl_created r < now - PURGE_AFTER) rows"

text \<open>\<open>None\<close> is the violation of the unique key.\<close>

definition insert_nonce :: "int \<Rightarrow> nonce_id \<Rightarrow> string \<Rightarrow> int \<Rightarrow> NonceRow list \<Rightarrow> NonceRow list option" where
  "insert_nonce fresh i request_hash now rows =
     (if find_nonce i rows \<noteq> None then None
      else Some (purge now (rows @ [\<lparr>nl_id = fresh, nl_key = fst i, nl_endpoint = fst (snd i), nl_nonce = snd (snd i),
                                    nl_hash = request_hash, nl_state = ''in_flight'', nl_status = None, nl_payload = None,
                                    nl_created = now\<rparr>])))"

definition replayed_payload :: "(string \<Rightarrow> json option) \<Rightarrow> string option \<Rightarrow> (string \<times> json) list" where
  "replayed_payload loads text =
     (case loads (case text of Some (c # cs) \<Rightarrow> c # cs | _ \<Rightarrow> ''{}'') of
        None \<Rightarrow> []
      | Some (JObj kvs) \<Rightarrow> kvs
      | Some v \<Rightarrow> [(''result'', v)])"

definition nonce_verdict ::
  "(string \<Rightarrow> json option) \<Rightarrow> NonceRow \<Rightarrow> string \<Rightarrow> int \<Rightarrow> NonceRow list \<Rightarrow> (nonce_error + verdict) \<times> NonceRow list" where
  "nonce_verdict loads row request_hash now rows =
     (if nl_hash row \<noteq> [] \<and> request_hash \<noteq> [] \<and> nl_hash row \<noteq> request_hash then (Inr Conflict, rows)
      else if nl_state row = ''done''
           then (Inr (Replay (case nl_status row of None \<Rightarrow> 200 | Some n \<Rightarrow> if n = 0 then 200 else n) (replayed_payload loads (nl_payload row))), rows)
      else let age = now - nl_created row
           in if age \<le> STALE_IN_FLIGHT then (Inr (Busy (Some (round_decimals (of_int age / 10 ^ 6) 1))), rows)
              else if nl_id row \<notin> nl_id ` set rows then (Inl Stale_Row, rows)
              else (Inr (New True),
                    map (\<lambda>r. if nl_id r = nl_id row
                              then r\<lparr>nl_hash := (if request_hash \<noteq> [] then request_hash else nl_hash row), nl_created := now,
                                     nl_state := ''in_flight'', nl_status := None, nl_payload := None\<rparr> else r) rows))"

text \<open>\<open>seen\<close> is the row that the first lookup found, \<open>seen'\<close> the one of the lookup after a conflicting insert.\<close>

definition claim ::
  "(string \<Rightarrow> json option) \<Rightarrow> NonceRow option \<Rightarrow> NonceRow option \<Rightarrow> int \<Rightarrow> int \<Rightarrow> nonce_id \<Rightarrow> string \<Rightarrow> NonceRow list \<Rightarrow>
   (nonce_error + verdict) \<times> NonceRow list" where
  "claim loads seen seen' fresh now i request_hash rows =
     (let nonce = snd (snd (clean_id i))
      in if nonce = [] \<or> length nonce > 128 then (Inl Nonce_Required, rows)
         else case seen of
                Some row \<Rightarrow> nonce_verdict loads row request_hash now rows
              | None \<Rightarrow>
                  (case insert_nonce fresh (clean_id i) request_hash now rows of
                     Some rows1 \<Rightarrow> (Inr (New False), rows1)
                   | None \<Rightarrow> (case seen' of None \<Rightarrow> (Inr (Busy None), rows) | Some row \<Rightarrow> nonce_verdict loads row request_hash now rows)))"

text \<open>A claim that no other process interrupts.\<close>

definition claim_now ::
  "(string \<Rightarrow> json option) \<Rightarrow> int \<Rightarrow> int \<Rightarrow> nonce_id \<Rightarrow> string \<Rightarrow> NonceRow list \<Rightarrow> (nonce_error + verdict) \<times> NonceRow list" where
  "claim_now loads fresh now i request_hash rows =
     claim loads (find_nonce (clean_id i) rows) (find_nonce (clean_id i) rows) fresh now i request_hash rows"

section \<open>Completing and forgetting\<close>

definition complete :: "nonce_id \<Rightarrow> int \<Rightarrow> string \<Rightarrow> NonceRow list \<Rightarrow> NonceRow list" where
  "complete i http_status text rows =
     (if snd (snd (clean_id i)) = [] then rows
      else map (\<lambda>r. if row_id r = clean_id i
                     then r\<lparr>nl_state := ''done'', nl_status := Some http_status, nl_payload := Some (take MAX_PAYLOAD_CHARS text)\<rparr>
                     else r) rows)"

definition forget :: "nonce_id \<Rightarrow> NonceRow list \<Rightarrow> NonceRow list" where
  "forget i rows = (if snd (snd (clean_id i)) = [] then rows else filter (\<lambda>r. row_id r \<noteq> clean_id i) rows)"

text \<open>The gateway: \<open>None\<close> is a request to execute, \<open>Some\<close> the answer it gives instead.\<close>

definition gateway_claim ::
  "(string \<Rightarrow> json option) \<Rightarrow> int \<Rightarrow> int \<Rightarrow> nonce_id \<Rightarrow> string \<Rightarrow> NonceRow list \<Rightarrow>
   (nonce_error + (int \<times> (string \<times> json) list) option) \<times> NonceRow list" where
  "gateway_claim loads fresh now i request_hash rows =
     (case claim_now loads fresh now i request_hash rows of
        (Inl e, rows1) \<Rightarrow> (Inl e, rows1)
      | (Inr (New _), rows1) \<Rightarrow> (Inr None, rows1)
      | (Inr (Replay status payload), rows1) \<Rightarrow>
          (Inr (Some (status, dict_set ''idempotent_replay'' (JBool True) payload)), rows1)
      | (Inr Conflict, rows1) \<Rightarrow> (Inl Duplicate_Body, rows1)
      | (Inr (Busy _), rows1) \<Rightarrow> (Inl Still_In_Flight, rows1))"

section \<open>Executions over time\<close>

text \<open>The clock, the log, the executions that were granted, newest first, and those that were completed.\<close>

record Nonce_World =
  nw_clock :: int
  nw_rows :: "NonceRow list"
  nw_granted :: "(nonce_id \<times> int) list"
  nw_completed :: "(nonce_id \<times> int) set"

inductive nonce_step :: "(string \<Rightarrow> json option) \<Rightarrow> Nonce_World \<Rightarrow> Nonce_World \<Rightarrow> bool" for loads where
  granted: "nw_clock w \<le> now \<Longrightarrow> fresh \<notin> nl_id ` set (nw_rows w) \<Longrightarrow> claim_now loads fresh now i h (nw_rows w) = (Inr (New b), rows)
    \<Longrightarrow> nonce_step loads w (w\<lparr>nw_clock := now, nw_rows := rows, nw_granted := (clean_id i, now) # nw_granted w\<rparr>)"
| refused: "nw_clock w \<le> now \<Longrightarrow> fresh \<notin> nl_id ` set (nw_rows w) \<Longrightarrow> claim_now loads fresh now i h (nw_rows w) = (r, rows)
    \<Longrightarrow> (\<And>b. r \<noteq> Inr (New b)) \<Longrightarrow> nonce_step loads w (w\<lparr>nw_clock := now, nw_rows := rows\<rparr>)"
| completed: "nonce_step loads w (w\<lparr>nw_rows := complete i st text (nw_rows w),
      nw_completed := nw_completed w \<union> (if snd (snd (clean_id i)) = [] then {} else
        {(clean_id i, nl_created r) |r. r \<in> set (nw_rows w) \<and> row_id r = clean_id i})\<rparr>)"

definition spaced :: "(nonce_id \<times> int) set \<Rightarrow> (nonce_id \<times> int) list \<Rightarrow> bool" where
  "spaced don xs \<longleftrightarrow> sorted_wrt (\<lambda>(i', t') (i, t). i' = i \<longrightarrow> t' - t > STALE_IN_FLIGHT \<and> ((i, t) \<in> don \<longrightarrow> t' - t > PURGE_AFTER)) xs"

definition absent_ok :: "Nonce_World \<Rightarrow> bool" where
  "absent_ok w \<longleftrightarrow> (\<forall>i t. (i, t) \<in> set (nw_granted w) \<longrightarrow> (\<forall>r \<in> set (nw_rows w). row_id r \<noteq> i) \<longrightarrow> nw_clock w - t > PURGE_AFTER)"

definition present_ok :: "Nonce_World \<Rightarrow> bool" where
  "present_ok w \<longleftrightarrow> (\<forall>r \<in> set (nw_rows w). nl_created r \<le> nw_clock w \<and> (row_id r, nl_created r) \<in> set (nw_granted w)
     \<and> (\<forall>t. (row_id r, t) \<in> set (nw_granted w) \<longrightarrow> nl_created r = t \<or> nl_created r - t > STALE_IN_FLIGHT)
     \<and> (\<forall>t. (row_id r, t) \<in> nw_completed w \<longrightarrow> nl_created r = t \<and> nl_state r = ''done'' \<or> nl_created r - t > PURGE_AFTER))"

definition nonce_ok :: "Nonce_World \<Rightarrow> bool" where
  "nonce_ok w \<longleftrightarrow> distinct (map row_id (nw_rows w)) \<and> distinct (map nl_id (nw_rows w)) \<and> absent_ok w \<and> present_ok w
     \<and> nw_completed w \<subseteq> set (nw_granted w) \<and> spaced (nw_completed w) (nw_granted w)"

lemma nonce_consts: "0 < STALE_IN_FLIGHT" "STALE_IN_FLIGHT < PURGE_AFTER"
  by (simp_all add: STALE_IN_FLIGHT_def PURGE_AFTER_def)

lemma find_nonce_None: "find_nonce i rows = None \<longleftrightarrow> (\<forall>r \<in> set rows. row_id r \<noteq> i)"
  by (auto simp: find_nonce_def find_None_iff)

lemma find_nonce_Some: "find_nonce i rows = Some r \<Longrightarrow> r \<in> set rows \<and> row_id r = i"
  by (auto simp: find_nonce_def find_Some_iff)

text \<open>The ways a claim is granted: there is no row, or the row is stale and in flight.\<close>

lemma claim_granted:
  assumes "claim_now loads fresh now i h rows = (Inr (New b), rows')"
  shows "(find_nonce (clean_id i) rows = None \<and> insert_nonce fresh (clean_id i) h now rows = Some rows')
    \<or> (\<exists>row. find_nonce (clean_id i) rows = Some row \<and> nl_state row \<noteq> ''done'' \<and> now - nl_created row > STALE_IN_FLIGHT
        \<and> (\<exists>h'. rows' = map (\<lambda>r. if nl_id r = nl_id row then r\<lparr>nl_hash := h', nl_created := now, nl_state := ''in_flight'',
              nl_status := None, nl_payload := None\<rparr> else r) rows))"
  using assms by (auto simp: claim_now_def claim_def nonce_verdict_def Let_def split: if_splits option.splits)

lemma claim_not_granted:
  assumes "claim_now loads fresh now i h rows = (r, rows')" "\<And>b. r \<noteq> Inr (New b)"
  shows "rows' = rows"
  using assms by (auto simp: claim_now_def claim_def nonce_verdict_def Let_def split: if_splits option.splits)

lemma row_id_clean: "row_id \<lparr>nl_id = f, nl_key = fst i, nl_endpoint = fst (snd i), nl_nonce = snd (snd i), nl_hash = h, nl_state = st,
    nl_status = a, nl_payload = p, nl_created = t\<rparr> = i"
  by (simp add: row_id_def)

lemma spaced_Cons:
  "spaced don ((i, t) # xs) \<longleftrightarrow>
     (\<forall>(j, u) \<in> set xs. j = i \<longrightarrow> t - u > STALE_IN_FLIGHT \<and> ((j, u) \<in> don \<longrightarrow> t - u > PURGE_AFTER)) \<and> spaced don xs"
  by (auto simp: spaced_def)

lemma nonce_okD:
  assumes "nonce_ok w"
  shows "(i, t) \<in> set (nw_granted w) \<Longrightarrow> \<forall>r \<in> set (nw_rows w). row_id r \<noteq> i \<Longrightarrow> nw_clock w - t > PURGE_AFTER"
    and "r \<in> set (nw_rows w) \<Longrightarrow> nl_created r \<le> nw_clock w"
    and "r \<in> set (nw_rows w) \<Longrightarrow> (row_id r, nl_created r) \<in> set (nw_granted w)"
    and "r \<in> set (nw_rows w) \<Longrightarrow> (row_id r, t) \<in> set (nw_granted w) \<Longrightarrow> nl_created r = t \<or> nl_created r - t > STALE_IN_FLIGHT"
    and "r \<in> set (nw_rows w) \<Longrightarrow> (row_id r, t) \<in> nw_completed w \<Longrightarrow> nl_created r = t \<and> nl_state r = ''done'' \<or> nl_created r - t > PURGE_AFTER"
    and "distinct (map row_id (nw_rows w))" "distinct (map nl_id (nw_rows w))" "nw_completed w \<subseteq> set (nw_granted w)"
      "spaced (nw_completed w) (nw_granted w)"
  using assms unfolding nonce_ok_def absent_ok_def present_ok_def by blast+

lemma inserted_ok:
  assumes ok: "nonce_ok w" and clk: "nw_clock w \<le> now" and fr: "fresh \<notin> nl_id ` set (nw_rows w)"
    and ins: "insert_nonce fresh i h now (nw_rows w) = Some rows"
  shows "nonce_ok (w\<lparr>nw_clock := now, nw_rows := rows, nw_granted := (i, now) # nw_granted w\<rparr>)"
proof -
  note ok = nonce_okD [OF ok]
  define row where "row = \<lparr>nl_id = fresh, nl_key = fst i, nl_endpoint = fst (snd i), nl_nonce = snd (snd i), nl_hash = h,
    nl_state = ''in_flight'', nl_status = None, nl_payload = None, nl_created = now\<rparr>"
  have none: "\<forall>r \<in> set (nw_rows w). row_id r \<noteq> i" and rows: "rows = purge now (nw_rows w @ [row])"
    using ins by (auto simp: insert_nonce_def row_def find_nonce_None split: if_splits)
  have row: "row_id row = i" "nl_created row = now" "nl_id row = fresh" by (simp_all add: row_def row_id_def)
  have mem: "r \<in> set rows \<longleftrightarrow> r = row \<or> r \<in> set (nw_rows w) \<and> \<not> nl_created r < now - PURGE_AFTER" for r
    using nonce_consts by (auto simp: rows purge_def row)
  have old: "now - t > PURGE_AFTER" if "(i, t) \<in> set (nw_granted w)" for t
    using ok(1) [OF that none] clk by simp
  have gone: "now - t > PURGE_AFTER" if g: "(j, t) \<in> set (nw_granted w)" and no: "\<forall>r \<in> set rows. row_id r \<noteq> j" for j t
  proof (cases "\<exists>r \<in> set (nw_rows w). row_id r = j")
    case True
    then obtain r where r: "r \<in> set (nw_rows w)" "row_id r = j" by blast
    then have "nl_created r < now - PURGE_AFTER" using no mem by blast
    moreover have "nl_created r = t \<or> nl_created r - t > STALE_IN_FLIGHT" using ok(4) [OF r(1)] r(2) g by simp
    ultimately show ?thesis using nonce_consts by auto
  next
    case False
    then show ?thesis using ok(1) [OF g] clk by force
  qed
  have sp: "spaced (nw_completed w) ((i, now) # nw_granted w)"
    unfolding spaced_Cons using ok(9) old nonce_consts by force
  have notin: "(i, t) \<in> nw_completed w \<Longrightarrow> now - t > PURGE_AFTER" for t using ok(8) old by blast
  have dist: "distinct (map row_id rows)" "distinct (map nl_id rows)"
    using ok(6,7) none row fr by (auto simp: rows purge_def distinct_map inj_on_def)
  let ?w = "w\<lparr>nw_clock := now, nw_rows := rows, nw_granted := (i, now) # nw_granted w\<rparr>"
  have "absent_ok ?w" unfolding absent_ok_def using gone mem row by auto
  moreover have "present_ok ?w" unfolding present_ok_def
  proof (intro ballI)
    fix r assume "r \<in> set (nw_rows ?w)"
    then consider "r = row" | "r \<in> set (nw_rows w)" "row_id r \<noteq> i" using mem none by auto
    then show "nl_created r \<le> nw_clock ?w \<and> (row_id r, nl_created r) \<in> set (nw_granted ?w)
     \<and> (\<forall>t. (row_id r, t) \<in> set (nw_granted ?w) \<longrightarrow> nl_created r = t \<or> nl_created r - t > STALE_IN_FLIGHT)
     \<and> (\<forall>t. (row_id r, t) \<in> nw_completed ?w \<longrightarrow> nl_created r = t \<and> nl_state r = ''done'' \<or> nl_created r - t > PURGE_AFTER)"
    proof cases
      case 1
      then show ?thesis using old notin row nonce_consts by force
    next
      case 2
      then show ?thesis using ok(2-5) [OF 2(1)] clk by auto
    qed
  qed
  ultimately show ?thesis using dist sp ok(8) by (auto simp: nonce_ok_def)
qed

lemma taken_over_ok:
  assumes ok: "nonce_ok w" and clk: "nw_clock w \<le> now" and found: "find_nonce i (nw_rows w) = Some row"
    and st: "nl_state row \<noteq> ''done''" and age: "now - nl_created row > STALE_IN_FLIGHT"
    and f_def: "f = (\<lambda>r. if nl_id r = nl_id row then r\<lparr>nl_hash := h', nl_created := now, nl_state := ''in_flight'',
              nl_status := None, nl_payload := None\<rparr> else r)"
  shows "nonce_ok (w\<lparr>nw_clock := now, nw_rows := map f (nw_rows w), nw_granted := (i, now) # nw_granted w\<rparr>)"
proof -
  note ok = nonce_okD [OF ok]
  have row: "row \<in> set (nw_rows w)" "row_id row = i" using find_nonce_Some [OF found] by auto
  have f: "row_id (f r) = row_id r" "nl_id (f r) = nl_id r" "nl_id r \<noteq> nl_id row \<Longrightarrow> f r = r"
    "nl_id r = nl_id row \<Longrightarrow> nl_created (f r) = now" for r by (simp_all add: f_def row_id_def)
  have only: "nl_id r = nl_id row \<Longrightarrow> r = row" if "r \<in> set (nw_rows w)" for r
    using ok(7) row(1) that by (auto simp: distinct_map dest: inj_onD)
  have other: "row_id r \<noteq> i" if "r \<in> set (nw_rows w)" "r \<noteq> row" for r
    using ok(6) row that by (auto simp: distinct_map dest: inj_onD)
  have gap: "now - t > STALE_IN_FLIGHT" if "(i, t) \<in> set (nw_granted w)" for t
    using ok(4) [OF row(1), of t] row(2) that age nonce_consts by auto
  have gap_done: "now - t > PURGE_AFTER" if "(i, t) \<in> nw_completed w" for t
    using ok(5) [OF row(1), of t] row(2) that st ok(2) [OF row(1)] clk by auto
  have sp: "spaced (nw_completed w) ((i, now) # nw_granted w)"
    unfolding spaced_Cons using ok(9) gap gap_done by blast
  let ?w = "w\<lparr>nw_clock := now, nw_rows := map f (nw_rows w), nw_granted := (i, now) # nw_granted w\<rparr>"
  have "absent_ok ?w" unfolding absent_ok_def
  proof (intro allI impI)
    fix j t assume g: "(j, t) \<in> set (nw_granted ?w)" and no: "\<forall>r \<in> set (nw_rows ?w). row_id r \<noteq> j"
    then have no': "\<forall>r \<in> set (nw_rows w). row_id r \<noteq> j" by (simp add: f(1))
    then have "j \<noteq> i" using row by blast
    then have "(j, t) \<in> set (nw_granted w)" using g by simp
    from ok(1) [OF this no'] clk show "nw_clock ?w - t > PURGE_AFTER" by simp
  qed
  moreover have "present_ok ?w" unfolding present_ok_def
  proof (intro ballI)
    fix q assume "q \<in> set (nw_rows ?w)"
    then obtain r where r: "r \<in> set (nw_rows w)" "q = f r" by auto
    show "nl_created q \<le> nw_clock ?w \<and> (row_id q, nl_created q) \<in> set (nw_granted ?w)
     \<and> (\<forall>t. (row_id q, t) \<in> set (nw_granted ?w) \<longrightarrow> nl_created q = t \<or> nl_created q - t > STALE_IN_FLIGHT)
     \<and> (\<forall>t. (row_id q, t) \<in> nw_completed ?w \<longrightarrow> nl_created q = t \<and> nl_state q = ''done'' \<or> nl_created q - t > PURGE_AFTER)"
    proof (cases "nl_id r = nl_id row")
      case True
      then have "row_id q = i" "nl_created q = now" using only [OF r(1)] row(2) r(2) f(1,4) by simp_all
      then show ?thesis using gap gap_done by simp
    next
      case False
      then have "q = r" "row_id r \<noteq> i" using r f(3) other [OF r(1)] by auto
      then show ?thesis using ok(2-5) [OF r(1)] clk by simp
    qed
  qed
  moreover have "map row_id (map f (nw_rows w)) = map row_id (nw_rows w)" "map nl_id (map f (nw_rows w)) = map nl_id (nw_rows w)"
    by (simp_all add: f)
  ultimately show ?thesis using ok(6,7,8) sp unfolding nonce_ok_def by (simp del: map_map add: subset_insertI2)
qed

lemma completed_ok:
  assumes ok: "nonce_ok w"
  shows "nonce_ok (w\<lparr>nw_rows := complete i st text (nw_rows w),
      nw_completed := nw_completed w \<union> (if snd (snd (clean_id i)) = [] then {} else
        {(clean_id i, nl_created r) |r. r \<in> set (nw_rows w) \<and> row_id r = clean_id i})\<rparr>)"
proof (cases "snd (snd (clean_id i)) = []")
  case True
  then show ?thesis using ok by (simp add: complete_def)
next
  case False
  note ok = nonce_okD [OF ok]
  define f where "f = (\<lambda>r. if row_id r = clean_id i
    then r\<lparr>nl_state := ''done'', nl_status := Some st, nl_payload := Some (take MAX_PAYLOAD_CHARS text)\<rparr> else r)"
  have f: "row_id (f r) = row_id r" "nl_id (f r) = nl_id r" "nl_created (f r) = nl_created r"
    "nl_state (f r) = (if row_id r = clean_id i then ''done'' else nl_state r)" for r by (auto simp: row_id_def f_def)
  define don where "don = nw_completed w \<union> {(clean_id i, nl_created r) |r. r \<in> set (nw_rows w) \<and> row_id r = clean_id i}"
  let ?w = "w\<lparr>nw_rows := map f (nw_rows w), nw_completed := don\<rparr>"
  have don: "(j, t) \<in> don \<longleftrightarrow> (j, t) \<in> nw_completed w \<or> (\<exists>r \<in> set (nw_rows w). row_id r = clean_id i \<and> j = clean_id i \<and> t = nl_created r)" for j t
    by (auto simp: don_def)
  have uniq: "q = r" if "q \<in> set (nw_rows w)" "r \<in> set (nw_rows w)" "row_id q = row_id r" for q r
    using ok(6) that by (auto simp: distinct_map dest: inj_onD)
  have "absent_ok ?w" unfolding absent_ok_def using ok(1) by (simp add: f)
  moreover have "present_ok ?w" unfolding present_ok_def
  proof (intro ballI)
    fix q assume "q \<in> set (nw_rows ?w)"
    then obtain r where r: "r \<in> set (nw_rows w)" "q = f r" by auto
    have "nl_created r = t \<and> nl_state (f r) = ''done'' \<or> nl_created r - t > PURGE_AFTER" if "(row_id r, t) \<in> don" for t
      using that ok(5) [OF r(1), of t] uniq [OF r(1)] by (auto simp: don f)
    then show "nl_created q \<le> nw_clock ?w \<and> (row_id q, nl_created q) \<in> set (nw_granted ?w)
     \<and> (\<forall>t. (row_id q, t) \<in> set (nw_granted ?w) \<longrightarrow> nl_created q = t \<or> nl_created q - t > STALE_IN_FLIGHT)
     \<and> (\<forall>t. (row_id q, t) \<in> nw_completed ?w \<longrightarrow> nl_created q = t \<and> nl_state q = ''done'' \<or> nl_created q - t > PURGE_AFTER)"
      using ok(2-4) [OF r(1)] r(2) by (simp add: f(1,3))
  qed
  moreover have sub: "don \<subseteq> set (nw_granted w)" using ok(3,8) by (auto simp: don_def) (metis prod.collapse)
  moreover have "spaced don (nw_granted w)"
  proof -
    have gap: "t' - t > PURGE_AFTER" if g: "(j, t') \<in> set (nw_granted w)" and d: "(j, t) \<in> don" and n: "(j, t) \<notin> nw_completed w"
      and l: "t' - t > STALE_IN_FLIGHT" for j t' t
    proof -
      from d n obtain r where r: "r \<in> set (nw_rows w)" "row_id r = j" "nl_created r = t" by (auto simp: don)
      have "t = t' \<or> t - t' > STALE_IN_FLIGHT" using ok(4) [OF r(1), of t'] g r by simp
      with l nonce_consts show ?thesis by auto
    qed
    show ?thesis unfolding spaced_def
      by (rule sorted_wrt_mono_rel [OF _ ok(9) [unfolded spaced_def]]) (use gap in fastforce)
  qed
  moreover have "map row_id (map f (nw_rows w)) = map row_id (nw_rows w)" "map nl_id (map f (nw_rows w)) = map nl_id (nw_rows w)"
    by (simp_all add: f)
  ultimately have "nonce_ok ?w" using ok(6,7) unfolding nonce_ok_def by (simp del: map_map)
  then show ?thesis using False by (simp add: complete_def f_def [symmetric] don_def [symmetric])
qed

lemma nonce_step_ok: "nonce_step loads w v \<Longrightarrow> nonce_ok w \<Longrightarrow> nonce_ok v"
proof (induction rule: nonce_step.induct)
  case (granted w now fresh i h b rows)
  from claim_granted [OF granted(3)] show ?case
    using inserted_ok [OF granted(4,1,2)] taken_over_ok [OF granted(4,1) _ _ _ refl] by blast
next
  case (refused w now fresh i h r rows)
  then have "rows = nw_rows w" using claim_not_granted by metis
  with refused(1,5) show ?case by (force simp: nonce_ok_def absent_ok_def present_ok_def)
next
  case completed
  then show ?case by (rule completed_ok)
qed

interpretation nonces: kept "nonce_step loads" nonce_ok for loads
  by unfold_locales (rule nonce_step_ok)

definition empty_log :: "int \<Rightarrow> Nonce_World" where
  "empty_log t0 = \<lparr>nw_clock = t0, nw_rows = [], nw_granted = [], nw_completed = {}\<rparr>"

lemma empty_log_ok: "nonce_ok (empty_log t0)"
  by (simp add: empty_log_def nonce_ok_def absent_ok_def present_ok_def spaced_def)


text \<open>A request that is executed and completed and, after its row was purged by another request a week later, executed again.\<close>

definition granting :: "int \<Rightarrow> int \<Rightarrow> nonce_id \<Rightarrow> Nonce_World \<Rightarrow> Nonce_World" where
  "granting fresh now i w = w\<lparr>nw_clock := now, nw_rows := snd (claim_now (\<lambda>_. None) fresh now i ''h'' (nw_rows w)),
     nw_granted := (clean_id i, now) # nw_granted w\<rparr>"

definition completing :: "nonce_id \<Rightarrow> Nonce_World \<Rightarrow> Nonce_World" where
  "completing i w = w\<lparr>nw_rows := complete i 200 ''{}'' (nw_rows w),
      nw_completed := nw_completed w \<union> (if snd (snd (clean_id i)) = [] then {} else
        {(clean_id i, nl_created r) |r. r \<in> set (nw_rows w) \<and> row_id r = clean_id i})\<rparr>"

lemma granting_step:
  assumes "nw_clock w \<le> now" "fresh \<notin> nl_id ` set (nw_rows w)" "fst (claim_now (\<lambda>_. None) fresh now i ''h'' (nw_rows w)) = Inr (New b)"
  shows "nonce_step (\<lambda>_. None) w (granting fresh now i w)"
  unfolding granting_def by (rule nonce_step.granted [OF assms(1,2), where h = "''h''" and b = b]) (simp add: prod_eq_iff assms(3))

lemma completing_step: "nonce_step loads w (completing i w)"
  unfolding completing_def by (rule nonce_step.completed)

definition log1 :: Nonce_World where
  "log1 = granting 1 0 (''k'', ''e'', ''n'') (empty_log 0)"

definition log2 :: Nonce_World where
  "log2 = completing (''k'', ''e'', ''n'') log1"

definition log3 :: Nonce_World where
  "log3 = granting 2 604800000001 (''k'', ''e'', ''m'') log2"

definition log4 :: Nonce_World where
  "log4 = granting 3 604800000001 (''k'', ''e'', ''n'') log3"

lemma log_rows:
  "nw_rows log1 = snd (claim_now (\<lambda>_. None) 1 0 (''k'', ''e'', ''n'') ''h'' [])"
  "nw_rows log2 = complete (''k'', ''e'', ''n'') 200 ''{}'' (nw_rows log1)"
  "nw_rows log3 = snd (claim_now (\<lambda>_. None) 2 604800000001 (''k'', ''e'', ''m'') ''h'' (nw_rows log2))"
  "nw_clock log1 = 0" "nw_clock log2 = 0" "nw_clock log3 = 604800000001" "nw_clock (empty_log 0) = 0" "nw_rows (empty_log 0) = []"
  by (simp_all add: log1_def log2_def log3_def granting_def completing_def empty_log_def)

lemma clean_demo: "clean_id (''k'', ''e'', ''n'') = (''k'', ''e'', ''n'')" "clean_id (''k'', ''e'', ''m'') = (''k'', ''e'', ''m'')"
  by code_simp+

definition demo_row :: "int \<Rightarrow> string \<Rightarrow> string \<Rightarrow> int option \<Rightarrow> string option \<Rightarrow> int \<Rightarrow> NonceRow" where
  "demo_row i n st a pl t = \<lparr>nl_id = i, nl_key = ''k'', nl_endpoint = ''e'', nl_nonce = n, nl_hash = ''h'', nl_state = st,
     nl_status = a, nl_payload = pl, nl_created = t\<rparr>"

lemma demo_logs:
  "nw_rows log1 = [demo_row 1 ''n'' ''in_flight'' None None 0]" (is "_ = ?l1")
  "nw_rows log2 = [demo_row 1 ''n'' ''done'' (Some 200) (Some ''{}'') 0]" (is "_ = ?l2")
  "nw_rows log3 = [demo_row 2 ''m'' ''in_flight'' None None 604800000001]"
proof -
  have 1: "snd (claim_now (\<lambda>_. None) 1 0 (''k'', ''e'', ''n'') ''h'' []) = ?l1" by code_simp
  then show l1: "nw_rows log1 = ?l1" by (simp only: log_rows)
  have "row_id (demo_row 1 ''n'' ''in_flight'' None None 0) = (''k'', ''e'', ''n'')" by (simp add: demo_row_def row_id_def)
  then have "complete (''k'', ''e'', ''n'') 200 ''{}'' ?l1 = ?l2"
    by (simp add: complete_def clean_demo demo_row_def MAX_PAYLOAD_CHARS_def)
  with l1 show l2: "nw_rows log2 = ?l2" by (simp only: log_rows)
  have "snd (claim_now (\<lambda>_. None) 2 604800000001 (''k'', ''e'', ''m'') ''h'' ?l2) = [demo_row 2 ''m'' ''in_flight'' None None 604800000001]"
    by code_simp
  with l2 show "nw_rows log3 = [demo_row 2 ''m'' ''in_flight'' None None 604800000001]" by (simp only: log_rows)
qed

lemma demo_row_id: "nl_id (demo_row i n st a pl t) = i"
  by (simp add: demo_row_def)

lemma demo_granted:
  "fst (claim_now (\<lambda>_. None) 1 0 (''k'', ''e'', ''n'') ''h'' []) = Inr (New False)"
  "fst (claim_now (\<lambda>_. None) 2 604800000001 (''k'', ''e'', ''m'') ''h'' [demo_row 1 ''n'' ''done'' (Some 200) (Some ''{}'') 0]) = Inr (New False)"
  "fst (claim_now (\<lambda>_. None) 3 604800000001 (''k'', ''e'', ''n'') ''h'' [demo_row 2 ''m'' ''in_flight'' None None 604800000001]) = Inr (New False)"
  by code_simp+

lemma demo_run_log: "(nonce_step (\<lambda>_. None))\<^sup>*\<^sup>* (empty_log 0) log4"
proof -
  let ?S = "nonce_step (\<lambda>_. None)"
  have "?S\<^sup>*\<^sup>* (empty_log 0) log1" unfolding log1_def
    by (rule r_into_rtranclp, rule granting_step [where b = False]) (simp_all add: log_rows(4-) demo_granted)
  moreover have "?S log1 log2" unfolding log2_def by (rule completing_step)
  ultimately have "?S\<^sup>*\<^sup>* (empty_log 0) log2" by (rule rtranclp.rtrancl_into_rtrancl)
  moreover have "?S log2 log3" unfolding log3_def
    by (rule granting_step [where b = False]) (simp_all add: log_rows(4-) demo_logs demo_granted demo_row_id)
  ultimately have "?S\<^sup>*\<^sup>* (empty_log 0) log3" by (rule rtranclp.rtrancl_into_rtrancl)
  moreover have "?S log3 log4" unfolding log4_def
    by (rule granting_step [where b = False]) (simp_all add: log_rows(4-) demo_logs demo_granted demo_row_id)
  ultimately show ?thesis by (rule rtranclp.rtrancl_into_rtrancl)
qed


section \<open>Answers from the log, and its gaps\<close>

lemma find_complete:
  "find_nonce (clean_id i) (complete i st t rows) = map_option (\<lambda>r. if snd (snd (clean_id i)) = [] then r
     else r\<lparr>nl_state := ''done'', nl_status := Some st, nl_payload := Some (take MAX_PAYLOAD_CHARS t)\<rparr>) (find_nonce (clean_id i) rows)"
  by (induction rows) (auto simp: find_nonce_def complete_def row_id_def)

text \<open>A repeated request gets the answer of the completed one, marked as a replay, and changes nothing.\<close>

lemma completed_is_replayed:
  assumes "find_nonce (clean_id i) rows = Some r" "nl_hash r = h" "snd (snd (clean_id i)) \<noteq> []" "length (snd (snd (clean_id i))) \<le> 128"
    and "loads t = Some (JObj kvs)" "t \<noteq> []" "length t \<le> MAX_PAYLOAD_CHARS" "st \<noteq> 0"
  shows "gateway_claim loads fresh now i h (complete i st t rows) =
    (Inr (Some (st, dict_set ''idempotent_replay'' (JBool True) kvs)), complete i st t rows)"
  using assms by (cases t) (auto simp: gateway_claim_def claim_now_def claim_def find_complete nonce_verdict_def replayed_payload_def)

text \<open>An answer longer than the column is cut; its text no longer parses and the repeated request gets an empty answer.\<close>

lemma cut_answer_replayed_empty:
  assumes "find_nonce (clean_id i) rows = Some r" "nl_hash r = h" "snd (snd (clean_id i)) \<noteq> []" "length (snd (snd (clean_id i))) \<le> 128"
    and "loads (take MAX_PAYLOAD_CHARS t) = None" "t \<noteq> []" "st \<noteq> 0"
  shows "gateway_claim loads fresh now i h (complete i st t rows) =
    (Inr (Some (st, [(''idempotent_replay'', JBool True)])), complete i st t rows)"
proof -
  obtain c cs where "take MAX_PAYLOAD_CHARS t = c # cs"
    using assms(6) by (cases t) (auto simp: MAX_PAYLOAD_CHARS_def take_Cons' split: if_splits)
  with assms show ?thesis
    by (auto simp: gateway_claim_def claim_now_def claim_def find_complete nonce_verdict_def replayed_payload_def dict_set_def)
qed

text \<open>Two retries that both found the same stale row are both told to execute: the takeover is written without a guard.\<close>

lemma stale_row_taken_twice:
  assumes "find_nonce (clean_id i) rows = Some r" "nl_hash r = h" "nl_state r \<noteq> ''done''" "now - nl_created r > STALE_IN_FLIGHT"
    and "snd (snd (clean_id i)) \<noteq> []" "length (snd (snd (clean_id i))) \<le> 128"
  shows "\<exists>rows1 rows2. claim loads (Some r) None f1 now i h rows = (Inr (New True), rows1)
    \<and> claim loads (Some r) None f2 now i h rows1 = (Inr (New True), rows2)"
proof -
  have "nl_id r \<in> nl_id ` set rows" using find_nonce_Some [OF assms(1)] by auto
  moreover have "nl_id ` set (map (\<lambda>q. if nl_id q = nl_id r then q\<lparr>nl_hash := h', nl_created := t, nl_state := st, nl_status := None,
      nl_payload := None\<rparr> else q) rows) = nl_id ` set rows" for h' t st
    unfolding set_map image_image by (rule image_cong) simp_all
  ultimately show ?thesis using assms(2-) by (simp add: claim_def nonce_verdict_def Let_def del: set_map)
qed

end
