(* ===== verification/Spec2Isabelle.thy ===== *)
theory Spec2Isabelle
  imports Billing_Machine Billing_Scenarios Billing_Sync Billing_Anchoring Billing_Hub Settlement_Plan
    Voucher_Lifecycle Settlement_Transitions Cycle_Guard Bond_Slash Usage_Billing Settlement_Channel Spending_Grants Runtime_Spend Runtime_Nonce
begin

text \<open>
  A verification development for Karma, a non-custodial escrow and evidence layer for payments between agents
  (\<^verbatim>\<open>src/\<close>, Python). A buyer funds capacity and issues a voucher, a seller works on a task and leaves receipts and
  evidence, verifiers attest the evidence, a settlement moves through its statuses and is paid on a chain, and a
  runtime gateway lets agents spend within limits that their owner signed. The theories below model the parts
  that decide about money and about proof; each opens with a text on what it holds.

  \<^bold>\<open>Foundations.\<close> \<open>Prelude\<close>, \<open>Json\<close> and \<open>Datetime\<close> model what the sources use of Python's strings, of \<^verbatim>\<open>json.dumps\<close> and of
  \<^verbatim>\<open>datetime\<close>; the canonical JSON text determines its value. \<open>Lifecycle\<close> and \<open>Stores\<close> hold the contracts that
  components share, as locales: \<open>kept\<close> (an invariant that every step keeps holds after every run), \<open>absorbing\<close> (a final
  state), and the keyed stores. Each is interpreted on the definitions of the components that provide it.

  \<^bold>\<open>Billing\<close> (\<^verbatim>\<open>packages/karma_billing\<close>). \<open>Billing_Schema\<close>: receipts and their hashes. \<open>Billing_Transitions\<close>: the transition
  tables; every scenario can settle and its runs are bounded. \<open>Billing_Machine\<close>: \<^verbatim>\<open>state_machine.py\<close> with its audit log;
  the recorded history of a task is a legal run. \<open>Billing_Scenarios\<close>: the registry. \<open>Billing_Sync\<close>: the Merkle accumulator of
  \<^verbatim>\<open>sync_service.py\<close>; a root binds the receipts and their order. \<open>Billing_Anchoring\<close>: \<^verbatim>\<open>bridge.py\<close>; no receipt is
  anchored twice. \<open>Billing_Hub\<close>: \<^verbatim>\<open>ws_hub.py\<close>.

  \<^bold>\<open>Evidence\<close> (\<^verbatim>\<open>evidence_runtime\<close>). \<open>Evidence_Schemas\<close>, \<open>Evidence_Store\<close> and \<open>Evidence_Verification\<close>: schemas, adapters,
  receipt store, recovery and the verification of a bundle; a built bundle is accepted, an accepted one pins its evidence,
  and a gapless chain of receipts shows tampering. \<open>Settlement_Plan\<close>: \<^verbatim>\<open>settlement_adapter.py\<close> and the idempotency book.

  \<^bold>\<open>Verification\<close> (\<^verbatim>\<open>decentralized_verifier\<close>). \<open>Verifier_Rules\<close>: the rules and the verdict of a node. \<open>Attestation_Signer\<close>:
  EIP-712 digests and signatures; a digest binds the signed fields. \<open>Attestation_Quorum\<close>: \<^verbatim>\<open>aggregator.py\<close>; a
  quorum counts distinct verifiers with valid signatures on one result. \<open>Challenge_Window\<close>: \<^verbatim>\<open>window.py\<close>. \<open>Bond_Slash\<close>:
  \<^verbatim>\<open>services/bond_slash.py\<close>.

  \<^bold>\<open>Settlement\<close> (\<^verbatim>\<open>services\<close>, \<^verbatim>\<open>core/settlement\<close>, \<^verbatim>\<open>db/stores\<close>). \<open>Money\<close>: \<^verbatim>\<open>settlement_amounts.py\<close> and \<^verbatim>\<open>progress_curve.py\<close>; the
  split of an escrow is exact. \<open>Settlement_Engine\<close>, \<open>Settlement_Store\<close>: statuses, the transition table and the guarded save;
  accepted terms never change and saves refine the lifecycle. \<open>Settlement_Transitions\<close>: \<^verbatim>\<open>settlement_transitions.py\<close> with sessions
  that have a committed and a working copy; the chain is called after the commit, and a refusal restores the
  snapshot. \<open>Cycle_Guard\<close> and \<open>Responsibility_Graph\<close>: the searches for payment cycles are exact. \<open>Runtime_Safety\<close>: the
  emergency brake. \<open>Capacity_Ledger\<close> and \<open>Voucher_Lifecycle\<close>: credits of a buyer and vouchers; in every interleaving the
  buckets add up to the deposits. \<open>Settlement_Channel\<close>: \<^verbatim>\<open>settlement_channel.py\<close>; the ledger of a channel keeps the newest
  signed state.

  \<^bold>\<open>Spending.\<close> \<open>Usage_Billing\<close>: \<^verbatim>\<open>usage_billing.py\<close> and the route that uses a skill; meters account exactly for their charges, and
  only the chain settles them. \<open>Spending_Grants\<close>: \<^verbatim>\<open>spending_grant.py\<close>, the owner routes and the lock of
  \<^verbatim>\<open>bilateral.py\<close>; a lock charges one grant once or nothing, and grants stay within their limits. \<open>Runtime_Spend\<close>:
  \<^verbatim>\<open>runtime_daily_spend.py\<close>; a reservation is atomic among the statements of other sessions, and a day stays within its limit.
  \<open>Runtime_Nonce\<close>: \<^verbatim>\<open>runtime_nonce_log.py\<close>; a nonce is executed at most once in the stale time, and once completed not
  again before it is purged.

  \<^bold>\<open>Correspondence.\<close> A class or table is a record, an enum a datatype, a table the list of its rows in the order of
  insertion. A method is a function of the state it reads that returns the state it leaves; an exception is a value of a sum.
  An UPDATE is a map over the rows that match its WHERE, with their number. Where a handler reads a row and writes it later,
  the row it read is an argument of its own, so that a theorem can say what a stale copy does; where sessions run
  concurrently, their committed statements interleave in an \<open>inductive\<close> step relation, or what the others do between two statements is
  a function argument. Clocks, identifiers and random values are arguments; instants are integers in microseconds.
  Floating-point amounts are exact rationals, with Python's rounding where the source rounds; errors of the
  binary representation are not modelled.

  \<^bold>\<open>Parameters.\<close> Hash functions, signing and recovery, the chain and other external services are arguments. Where a
  theorem needs a law of them (a hash that does not collide on the texts at hand, recovery that inverts signing), the law is a
  named hypothesis and a witness shows that it can hold.

  \<^bold>\<open>Termination.\<close> All functions are total. Retry loops recurse on the number of rounds the source allows (two in \<^verbatim>\<open>runtime_daily_spend\<close>);
  searches in graphs recurse on a measure of the nodes not yet seen, or on the bound of hops the source has;
  the Merkle reduction recurses on the number of nodes. No function runs on fuel that a caller chooses.

  \<^bold>\<open>Errors found.\<close> Lemmas and theorems whose text describes a defect state what the code does on all inputs of that kind:
  for instance that a settlement left open is never executed, that a release after midnight frees the wrong day, that the
  gate and the later record of a spend can overspend a grant.

  \<^bold>\<open>Not modelled.\<close> The smart contracts (Solidity) and the clients that call them; the books of
  \<^verbatim>\<open>services/chain/escrow_settlement.py\<close> around those calls, except the keys and lookups that usage billing needs; arbitration
  cases, reversals and verifier bonds; identities, onboarding, reputation, discovery and trade intents, which hold
  records and call external services; dictionaries built for display, logging and metrics; HTTP middleware, migrations, settings,
  SDKs, scripts and the browser code. Most of these are input and output or records for display; the escrow books, reversals and
  arbitration do change amounts, and what they do is outside the theorems here.
\<close>

end
